(* ===== verification/CPrelude.thy ===== *)
theory CPrelude
  imports "HOL-Library.Word" "HOL-Library.Monad_Syntax" "HOL-Library.AList"
begin

text \<open>
  What the models of all components share: the machine integer types, the memory a C
  program allocates from, and the fact collections.

  Results are in the option monad. \<open>None\<close> is reserved for undefined behaviour of the C
  program (a dereference of NULL or of freed memory, a second free, a write past the end of a
  buffer, a mutex locked twice by its owner or unlocked by a thread that does not hold it)
  and for loops that do not return. Every error the code itself reports (a NULL or false
  result, an exception value, an error code) is an ordinary value under \<open>Some\<close>.

  Memory is one heap per C type: a partial map from addresses to objects and the next
  address \<open>malloc\<close> will return. \<open>malloc\<close> is taken to succeed; the code never looks at its
  result.
\<close>

named_theorems c_defs \<comment> \<open>memory operations, unfolded to case distinctions\<close>
named_theorems ll_specs \<comment> \<open>contracts of the list operations\<close>

type_synonym u8 = "8 word"
type_synonym u16 = "16 word"
type_synonym u32 = "32 word"
type_synonym u64 = "64 word"

type_synonym ptr = nat

abbreviation (input) NULL :: ptr where
  "NULL \<equiv> 0"

abbreviation UINT32_MAX :: u32 where
  "UINT32_MAX \<equiv> 4294967295"

section \<open>Memory\<close>

record 'd heap =
  cells :: "ptr \<rightharpoonup> 'd"
  brk :: ptr

definition heap_ok :: "'d heap \<Rightarrow> bool" where
  "heap_ok h \<longleftrightarrow> 0 < brk h \<and> (\<forall>p. cells h p \<noteq> None \<longrightarrow> 0 < p \<and> p < brk h)"

definition empty_heap :: "'d heap" where
  "empty_heap = \<lparr>cells = Map.empty, brk = 1\<rparr>"

definition deref :: "'d heap \<Rightarrow> ptr \<Rightarrow> 'd option" where
  "deref h p = (if p = NULL then None else cells h p)"

text \<open>The heap with the object at \<open>p\<close> replaced (or removed).\<close>

definition heap_set :: "'d heap \<Rightarrow> ptr \<Rightarrow> 'd option \<Rightarrow> 'd heap" where
  "heap_set h p v = h\<lparr>cells := (cells h)(p := v)\<rparr>"

lemma heap_set_simps [simp]:
  "cells (heap_set h p v) = (cells h)(p := v)" "brk (heap_set h p v) = brk h"
  by (simp_all add: heap_set_def)

definition malloc :: "'d \<Rightarrow> 'd heap \<Rightarrow> ptr \<times> 'd heap" where
  "malloc d h = (brk h, h\<lparr>cells := (cells h)(brk h \<mapsto> d), brk := Suc (brk h)\<rparr>)"

text \<open>\<open>modify h p f\<close> is an assignment through \<open>p\<close> to fields of the object it points to.\<close>

definition modify :: "'d heap \<Rightarrow> ptr \<Rightarrow> ('d \<Rightarrow> 'd) \<Rightarrow> 'd heap option" where
  "modify h p f = map_option (\<lambda>d. heap_set h p (Some (f d))) (deref h p)"

text \<open>\<open>free(NULL)\<close> does nothing; freeing an address that is not allocated is undefined.\<close>

definition free :: "'d heap \<Rightarrow> ptr \<Rightarrow> 'd heap option" where
  "free h p =
     (if p = NULL then Some h
      else map_option (\<lambda>_. heap_set h p None) (deref h p))"

definition allocated :: "'d heap \<Rightarrow> ptr set" where
  "allocated h = dom (cells h)"

lemmas heap_defs = deref_def malloc_def modify_def free_def allocated_def

lemma heap_ok_empty [simp, intro]: "heap_ok empty_heap"
  by (simp add: heap_ok_def empty_heap_def)

lemma allocated_empty [simp]: "allocated empty_heap = {}"
  by (simp add: allocated_def empty_heap_def)

lemma heap_ok_NULL [dest]: "heap_ok h \<Longrightarrow> cells h NULL = None"
  by (metis heap_ok_def less_numeral_extra(3))

lemma heap_ok_not_NULL: "heap_ok h \<Longrightarrow> cells h p = Some d \<Longrightarrow> p \<noteq> NULL"
  by (auto simp: heap_ok_def)

lemma heap_ok_fresh: "heap_ok h \<Longrightarrow> brk h \<notin> allocated h \<and> brk h \<noteq> NULL"
  by (fastforce simp: heap_ok_def allocated_def)

lemma heap_ok_malloc: "heap_ok h \<Longrightarrow> malloc d h = (p, h') \<Longrightarrow> heap_ok h'"
  by (auto simp: heap_ok_def malloc_def less_Suc_eq split: if_splits)

lemma malloc_allocated:
  "malloc d h = (p, h') \<Longrightarrow> allocated h' = insert p (allocated h)"
  by (auto simp: malloc_def allocated_def)

lemma heap_ok_update: "heap_ok h \<Longrightarrow> cells h p \<noteq> None \<Longrightarrow> heap_ok (heap_set h p (Some d))"
  by (auto simp: heap_ok_def)

lemma heap_ok_delete: "heap_ok h \<Longrightarrow> heap_ok (heap_set h p None)"
  by (auto simp: heap_ok_def)

lemma heap_ok_modify: "heap_ok h \<Longrightarrow> modify h p f = Some h' \<Longrightarrow> heap_ok h'"
  by (auto simp: modify_def deref_def heap_ok_update split: if_splits)

lemma modify_allocated: "modify h p f = Some h' \<Longrightarrow> allocated h' = allocated h"
  by (auto simp: modify_def deref_def allocated_def split: if_splits)

lemma heap_ok_free: "heap_ok h \<Longrightarrow> free h p = Some h' \<Longrightarrow> heap_ok h'"
  by (auto simp: free_def heap_ok_delete split: if_splits)

lemma free_allocated: "free h p = Some h' \<Longrightarrow> p \<noteq> NULL \<Longrightarrow> allocated h' = allocated h - {p}"
  by (auto simp: free_def allocated_def deref_def split: if_splits)

lemma deref_Some_iff: "heap_ok h \<Longrightarrow> (deref h p = Some d) = (cells h p = Some d)"
  by (auto simp: deref_def)

lemma deref_modify:
  "modify h p f = Some h' \<Longrightarrow> deref h' q = (if q = p then map_option f (deref h q) else deref h q)"
  by (auto simp: modify_def deref_def split: if_splits)

lemma deref_malloc:
  "heap_ok h \<Longrightarrow> malloc d h = (p, h') \<Longrightarrow> deref h' q = (if q = p then Some d else deref h q)"
  by (auto simp: malloc_def deref_def heap_ok_def)

lemma deref_free:
  "free h p = Some h' \<Longrightarrow> p \<noteq> NULL \<Longrightarrow> deref h' q = (if q = p then None else deref h q)"
  by (auto simp: free_def deref_def split: if_splits)

lemma use_after_free: "free h p = Some h' \<Longrightarrow> deref h' p = None"
  by (auto simp: free_def deref_def split: if_splits)

lemma double_free: "free h p = Some h' \<Longrightarrow> p \<noteq> NULL \<Longrightarrow> free h' p = None"
  by (simp add: free_def [of h'] use_after_free)

lemma fresh_ptr: "finite S \<Longrightarrow> \<exists>q. q \<noteq> NULL \<and> q \<notin> S"
  using ex_new_if_finite [OF infinite_UNIV_nat, of "insert NULL S"] by auto

lemma malloc_fresh:
  assumes "heap_ok h" and "malloc c h = (p, h')"
  shows "p \<noteq> NULL" and "cells h p = None" and "cells h' = (cells h)(p \<mapsto> c)" and "heap_ok h'"
  using heap_ok_fresh [OF assms(1)] heap_ok_malloc [OF assms] assms(2)
  by (auto simp: malloc_def allocated_def domIff)

section \<open>Association lists\<close>

text \<open>The abstract contents of a C list are pairs of an address and the data stored there.\<close>

lemma delete_not_key: "k \<notin> fst ` set xs \<Longrightarrow> AList.delete k xs = xs"
  by (induction xs) auto

lemma delete_mid:
  "k \<notin> fst ` set xs \<Longrightarrow> k \<notin> fst ` set ys \<Longrightarrow> AList.delete k (xs @ (k, d) # ys) = xs @ ys"
  by (induction xs) (auto simp: delete_not_key)

lemma delete_head: "k \<notin> fst ` set xs \<Longrightarrow> AList.delete k ((k, d) # xs) = xs"
  by (simp add: delete_not_key)

lemma map_entry_not_key: "k \<notin> fst ` set xs \<Longrightarrow> AList.map_entry k f xs = xs"
  by (induction xs) auto

lemma map_entry_mid:
  "k \<notin> fst ` set xs \<Longrightarrow> AList.map_entry k f (xs @ (k, d) # ys) = xs @ (k, f d) # ys"
  by (induction xs) auto

lemma map_fst_map_entry [simp]: "map fst (AList.map_entry k f xs) = map fst xs"
  by (induction xs) auto

lemma fst_map_entry [simp]: "fst ` set (AList.map_entry k f xs) = fst ` set xs"
  by (induction xs) auto

lemma fst_delete: "fst ` set (AList.delete k xs) = fst ` set xs - {k}"
  by (induction xs) auto

lemma split_at_key:
  assumes "map_of xs k = Some d" and "distinct (map fst xs)"
  obtains ys zs where "xs = ys @ (k, d) # zs" and "k \<notin> fst ` set ys" and "k \<notin> fst ` set zs"
proof -
  from assms(1) have "(k, d) \<in> set xs" by (rule map_of_SomeD)
  then obtain ys zs where xs: "xs = ys @ (k, d) # zs" by (auto simp: in_set_conv_decomp)
  with assms(2) have "k \<notin> fst ` set ys" "k \<notin> fst ` set zs" by auto
  with xs that show thesis by blast
qed

lemma map_entry_comp [simp]:
  "AList.map_entry k g (AList.map_entry k f xs) = AList.map_entry k (\<lambda>d. g (f d)) xs"
  by (induction xs) auto

lemma map_entry_cong:
  "(\<And>d. map_of xs k = Some d \<Longrightarrow> f d = g d) \<Longrightarrow> AList.map_entry k f xs = AList.map_entry k g xs"
  by (induction xs) auto

lemma map_of_map_entry_same [simp]: "map_of (AList.map_entry k f xs) k = map_option f (map_of xs k)"
  by (induction xs) auto

lemma map_of_map_entry_other: "q \<noteq> k \<Longrightarrow> map_of (AList.map_entry k f xs) q = map_of xs q"
  by (induction xs) auto

lemma delete_map_entry [simp]: "AList.delete k (AList.map_entry k f xs) = AList.delete k xs"
  by (induction xs) auto

lemma set_map_entry:
  "x \<in> set (AList.map_entry k f xs) \<Longrightarrow> x \<in> set xs \<or> (\<exists>d. map_of xs k = Some d \<and> x = (k, f d))"
  by (induction xs) (auto split: if_splits)

lemma map_entry_id [simp]: "AList.map_entry k (\<lambda>d. d) xs = xs"
  by (induction xs) auto

end
