(* ===== verification/LinkedList.thy ===== *)
theory LinkedList
  imports CPrelude
begin

text \<open>
  The doubly linked list that address_entry.c, address_instance_map.c,
  device_condition_map.c and return_data.c each repeat. A node is the two links and the
  remaining fields of the struct (\<open>node_data\<close>); the list object is the head pointer and the
  mutex, kept together with the heap its nodes are allocated from.

  \<open>dseg\<close> says that a chain of nodes with consistent \<open>next\<close> and \<open>prev\<close> links leads
  from one address to another; \<open>rep l r\<close> says that the list object \<open>l\<close> holds exactly the
  entries \<open>r\<close> (address and data, in order) with its mutex free. The contracts at the end
  give each C idiom its effect on \<open>r\<close>.
\<close>

section \<open>Nodes and list objects\<close>

record 'd node =
  link_next :: ptr
  link_prev :: ptr
  node_data :: 'd

record 'd ll =
  nodes :: "'d node heap"
  first :: ptr
  mutex :: bool

definition ll_alloc :: "'d ll" where
  "ll_alloc = \<lparr>nodes = empty_heap, first = NULL, mutex = False\<rparr>"

text \<open>
  \<open>pthread_mutex_lock\<close> on the list's mutex: a thread that already holds it deadlocks;
  unlocking a mutex that is not held is undefined.
\<close>

definition ll_lock :: "'d ll \<Rightarrow> 'd ll option" where
  "ll_lock l = (if mutex l then None else Some (l\<lparr>mutex := True\<rparr>))"

definition ll_unlock :: "'d ll \<Rightarrow> 'd ll option" where
  "ll_unlock l = (if mutex l then Some (l\<lparr>mutex := False\<rparr>) else None)"

text \<open>The search loop of every \<open>_get_locked\<close>: follow \<open>next\<close> until a match or NULL.\<close>

partial_function (option) ll_search ::
    "'d node heap \<Rightarrow> ('d \<Rightarrow> bool) \<Rightarrow> ptr \<Rightarrow> ptr option" where
  "ll_search h P current =
     (if current = NULL then Some NULL
      else do {
        n \<leftarrow> deref h current;
        if P (node_data n) then Some current else ll_search h P (link_next n)
      })"

text \<open>Allocation of a node and its insertion at the head.\<close>

definition ll_push :: "'d \<Rightarrow> 'd ll \<Rightarrow> (ptr \<times> 'd ll) option" where
  "ll_push d l =
     (let (value, h) = malloc \<lparr>link_next = first l, link_prev = NULL, node_data = d\<rparr> (nodes l)
      in do {
        h \<leftarrow> (if first l \<noteq> NULL then modify h (first l) (link_prev_update (\<lambda>_. value)) else Some h);
        Some (value, l\<lparr>nodes := h, first := value\<rparr>)
      })"

text \<open>Taking the first node off: the new head's \<open>prev\<close> becomes NULL.\<close>

definition ll_unlink_first :: "ptr \<Rightarrow> 'd ll \<Rightarrow> 'd ll option" where
  "ll_unlink_first entry l = do {
     f \<leftarrow> deref (nodes l) (first l);
     e \<leftarrow> deref (nodes l) entry;
     h \<leftarrow> (if link_next e \<noteq> NULL then modify (nodes l) (link_next e) (link_prev_update (\<lambda>_. NULL))
          else Some (nodes l));
     Some (l\<lparr>nodes := h, first := link_next f\<rparr>)
   }"

text \<open>Taking a node out of the list, in the two cases the code distinguishes.\<close>

definition ll_unlink :: "ptr \<Rightarrow> 'd ll \<Rightarrow> 'd ll option" where
  "ll_unlink entry l =
     (if entry = first l then ll_unlink_first entry l
      else do {
        e \<leftarrow> deref (nodes l) entry;
        h \<leftarrow> modify (nodes l) (link_prev e) (link_next_update (\<lambda>_. link_next e));
        e \<leftarrow> deref h entry;
        h \<leftarrow> (if link_next e \<noteq> NULL
             then modify h (link_next e) (link_prev_update (\<lambda>_. link_prev e)) else Some h);
        Some (l\<lparr>nodes := h\<rparr>)
      })"

definition ll_free_node :: "ptr \<Rightarrow> 'd ll \<Rightarrow> 'd ll option" where
  "ll_free_node p l = map_option (\<lambda>h. l\<lparr>nodes := h\<rparr>) (free (nodes l) p)"

text \<open>The loop of every \<open>_free\<close> function.\<close>

partial_function (option) ll_free_from :: "'d node heap \<Rightarrow> ptr \<Rightarrow> 'd node heap option" where
  "ll_free_from h current =
     (if current = NULL then Some h
      else do {
        n \<leftarrow> deref h current;
        h \<leftarrow> free h current;
        ll_free_from h (link_next n)
      })"

text \<open>Reads and assignments of the other fields of a node through a pointer to it.\<close>

definition ll_get :: "ptr \<Rightarrow> 'd ll \<Rightarrow> 'd option" where
  "ll_get p l = map_option node_data (deref (nodes l) p)"

definition ll_put :: "ptr \<Rightarrow> ('d \<Rightarrow> 'd) \<Rightarrow> 'd ll \<Rightarrow> 'd ll option" where
  "ll_put p f l = map_option (\<lambda>h. l\<lparr>nodes := h\<rparr>) (modify (nodes l) p (node_data_update f))"

section \<open>Segments\<close>

fun dseg :: "'d node heap \<Rightarrow> ptr \<Rightarrow> ptr \<Rightarrow> (ptr \<times> 'd) list \<Rightarrow> ptr \<Rightarrow> bool" where
  "dseg h p b [] q = (p = q)"
| "dseg h p b ((a, d) # r) q =
     (p = a \<and> a \<noteq> NULL \<and>
      (case cells h a of None \<Rightarrow> False
       | Some n \<Rightarrow> link_prev n = b \<and> node_data n = d \<and> dseg h (link_next n) a r q))"

lemma dseg_Cons [simp]:
  "dseg h p b ((a, d) # r) q \<longleftrightarrow>
     p = a \<and> a \<noteq> NULL \<and>
     (\<exists>n. cells h a = Some n \<and> link_prev n = b \<and> node_data n = d \<and> dseg h (link_next n) a r q)"
  by (auto split: option.splits)

declare dseg.simps(2) [simp del]

fun last_addr :: "ptr \<Rightarrow> (ptr \<times> 'd) list \<Rightarrow> ptr" where
  "last_addr b [] = b"
| "last_addr b ((a, d) # r) = last_addr a r"

lemma last_addr_append [simp]: "last_addr b (xs @ ys) = last_addr (last_addr b xs) ys"
  by (induction b xs rule: last_addr.induct) auto

lemma last_addr_in: "xs \<noteq> [] \<Longrightarrow> last_addr b xs \<in> fst ` set xs"
proof (induction b xs rule: last_addr.induct)
  case (2 b a d r)
  then show ?case by (cases "r = []") auto
qed simp

lemma dseg_append:
  "dseg h p b (xs @ ys) q \<longleftrightarrow> (\<exists>m. dseg h p b xs m \<and> dseg h m (last_addr b xs) ys q)"
  by (induction xs arbitrary: p b) (auto, blast+)

lemma dseg_frame:
  "a \<notin> fst ` set xs \<Longrightarrow> dseg (heap_set h a v) p b xs q = dseg h p b xs q"
  by (induction xs arbitrary: p b) auto

lemma dseg_cells:
  "dseg h p b xs q \<Longrightarrow> (a, d) \<in> set xs \<Longrightarrow> \<exists>n. cells h a = Some n \<and> node_data n = d"
  by (induction xs arbitrary: p b) auto

lemma dseg_not_NULL: "dseg h p b xs q \<Longrightarrow> NULL \<notin> fst ` set xs"
proof (induction xs arbitrary: p b)
  case (Cons x xs)
  obtain a d where "x = (a, d)" by (cases x)
  with Cons show ?case by auto
qed simp

lemma dseg_cong_cells:
  "cells h' = cells h \<Longrightarrow> dseg h' p b xs q = dseg h p b xs q"
  by (induction xs arbitrary: p b) auto

text \<open>Redirecting the \<open>next\<close> link of the last node moves the end of the segment.\<close>

lemma dseg_redirect:
  assumes "dseg h p b xs q" and "xs \<noteq> []" and "distinct (map fst xs)"
    and "cells h (last_addr b xs) = Some n"
  shows "dseg (heap_set h (last_addr b xs) (Some (n\<lparr>link_next := q'\<rparr>))) p b xs q'"
  using assms
proof (induction xs arbitrary: p b)
  case Nil
  then show ?case by simp
next
  case (Cons x xs)
  obtain a d where x: "x = (a, d)" by (cases x)
  show ?case
  proof (cases "xs = []")
    case True
    with Cons.prems x show ?thesis by auto
  next
    case False
    with last_addr_in [of xs a] Cons.prems(3) x have "last_addr a xs \<noteq> a" by force
    let ?h = "heap_set h (last_addr a xs) (Some (n\<lparr>link_next := q'\<rparr>))"
    from Cons.prems(1) x obtain m where m: "cells h a = Some m" "p = a" "a \<noteq> NULL"
      "link_prev m = b" "node_data m = d" and seg: "dseg h (link_next m) a xs q" by auto
    have "dseg ?h (link_next m) a xs q'"
      by (rule Cons.IH [OF seg False]) (use Cons.prems x in simp_all)
    moreover have "cells ?h a = Some m" using m \<open>last_addr a xs \<noteq> a\<close> by simp
    ultimately have "dseg ?h p b ((a, d) # xs) q'" using m unfolding dseg_Cons by blast
    then show ?thesis unfolding x last_addr.simps .
  qed
qed

text \<open>Redirecting the \<open>prev\<close> link of the first node.\<close>

lemma dseg_reback:
  assumes "dseg h p b xs q" and "xs \<noteq> []" and "distinct (map fst xs)" and "cells h p = Some n"
  shows "dseg (heap_set h p (Some (n\<lparr>link_prev := b'\<rparr>))) p b' xs q"
  using assms by (cases xs) (auto simp: dseg_frame)

section \<open>Representation of a list\<close>

definition rep :: "'d ll \<Rightarrow> (ptr \<times> 'd) list \<Rightarrow> bool" where
  "rep l r \<longleftrightarrow> heap_ok (nodes l) \<and> \<not> mutex l \<and> distinct (map fst r) \<and>
     dseg (nodes l) (first l) NULL r NULL"

text \<open>The same while the mutex is held.\<close>

definition rep_locked :: "'d ll \<Rightarrow> (ptr \<times> 'd) list \<Rightarrow> bool" where
  "rep_locked l r \<longleftrightarrow> heap_ok (nodes l) \<and> mutex l \<and> distinct (map fst r) \<and>
     dseg (nodes l) (first l) NULL r NULL"

lemma rep_alloc [simp, intro]: "rep ll_alloc []"
  by (simp add: rep_def ll_alloc_def)

lemma nodes_ll_alloc [simp]: "nodes ll_alloc = empty_heap"
  by (simp add: ll_alloc_def)

lemma rep_lock: "rep l r \<Longrightarrow> \<exists>l'. ll_lock l = Some l' \<and> rep_locked l' r \<and> nodes l' = nodes l"
  by (simp add: rep_def rep_locked_def ll_lock_def)

lemma rep_unlock: "rep_locked l r \<Longrightarrow> \<exists>l'. ll_unlock l = Some l' \<and> rep l' r \<and> nodes l' = nodes l"
  by (simp add: rep_def rep_locked_def ll_unlock_def)

lemma rep_unlocked_distinct: "rep l r \<Longrightarrow> distinct (map fst r)"
  by (simp add: rep_def)

lemma rep_allocated: "rep l r \<Longrightarrow> fst ` set r \<subseteq> allocated (nodes l)"
  by (force simp: rep_def allocated_def dest: dseg_cells)

lemma rep_locked_allocated: "rep_locked l r \<Longrightarrow> fst ` set r \<subseteq> allocated (nodes l)"
  by (force simp: rep_locked_def allocated_def dest: dseg_cells)

lemma rep_not_NULL: "rep l r \<Longrightarrow> NULL \<notin> fst ` set r"
  by (auto simp: rep_def dest: dseg_not_NULL)

text \<open>A list object determines its contents.\<close>

lemma dseg_unique: "dseg h p b xs NULL \<Longrightarrow> dseg h p b ys NULL \<Longrightarrow> xs = ys"
proof (induction xs arbitrary: p b ys)
  case Nil
  then show ?case by (cases ys) auto
next
  case (Cons x xs)
  then show ?case by (cases x; cases ys) auto
qed

lemma rep_unique: "rep l r \<Longrightarrow> rep l r' \<Longrightarrow> r = r'"
  by (auto simp: rep_def dest: dseg_unique)

section \<open>Searching\<close>

text \<open>The address of the first entry whose data satisfy \<open>P\<close>, or NULL.\<close>

fun first_match :: "('d \<Rightarrow> bool) \<Rightarrow> (ptr \<times> 'd) list \<Rightarrow> ptr" where
  "first_match P [] = NULL"
| "first_match P ((a, d) # r) = (if P d then a else first_match P r)"

lemma first_match_NULL:
  "NULL \<notin> fst ` set r \<Longrightarrow> (first_match P r = NULL) = (\<forall>(a, d) \<in> set r. \<not> P d)"
  by (induction P r rule: first_match.induct) auto

lemma first_match_Some:
  "first_match P r = p \<Longrightarrow> p \<noteq> NULL \<Longrightarrow> distinct (map fst r) \<Longrightarrow>
   \<exists>d. map_of r p = Some d \<and> P d"
  by (induction P r rule: first_match.induct) (force split: if_splits dest: map_of_SomeD)+

lemma first_match_append:
  "NULL \<notin> fst ` set xs \<Longrightarrow>
   first_match P (xs @ ys) = (if first_match P xs = NULL then first_match P ys else first_match P xs)"
  by (induction P xs rule: first_match.induct) auto

lemma dseg_search:
  "dseg h p b r NULL \<Longrightarrow> ll_search h P p = Some (first_match P r)"
proof (induction r arbitrary: p b)
  case Nil
  then show ?case by (simp add: ll_search.simps)
next
  case (Cons x r)
  then show ?case
    by (cases x) (auto simp: ll_search.simps [of h P p] deref_def split: option.splits)
qed

lemma rep_search [ll_specs]: "rep l r \<Longrightarrow> ll_search (nodes l) P (first l) = Some (first_match P r)"
  by (auto simp: rep_def intro: dseg_search)

lemma rep_locked_search [ll_specs]:
  "rep_locked l r \<Longrightarrow> ll_search (nodes l) P (first l) = Some (first_match P r)"
  by (auto simp: rep_locked_def intro: dseg_search)


section \<open>Contracts\<close>

lemma dseg_push:
  assumes "heap_ok h" and "dseg h p NULL r NULL" and "distinct (map fst r)"
    and "malloc \<lparr>link_next = p, link_prev = NULL, node_data = d\<rparr> h = (v, h1)"
  shows "\<exists>h2. (if p \<noteq> NULL then modify h1 p (link_prev_update (\<lambda>_. v)) else Some h1) = Some h2 \<and>
    heap_ok h2 \<and> dseg h2 v NULL ((v, d) # r) NULL"
proof -
  have v: "v = brk h" "cells h v = None" "v \<noteq> NULL"
    and h1: "h1 = h\<lparr>cells := (cells h)(v \<mapsto> \<lparr>link_next = p, link_prev = NULL, node_data = d\<rparr>), brk := Suc v\<rparr>"
    and ok1: "heap_ok h1"
    using assms(1,4) heap_ok_fresh [OF assms(1)] heap_ok_malloc [OF assms(1,4)]
    by (auto simp: malloc_def allocated_def domIff)
  have nin: "v \<notin> fst ` set r"
    using dseg_cells [OF assms(2)] v(2) by fastforce
  have "dseg (heap_set h v (Some (\<lparr>link_next = p, link_prev = NULL, node_data = d\<rparr>))) p NULL r NULL"
    using assms(2) nin by (simp add: dseg_frame)
  then have seg1: "dseg h1 p NULL r NULL" by (rule dseg_cong_cells [THEN iffD2, rotated]) (simp add: h1)
  show ?thesis
  proof (cases r)
    case Nil
    with assms(2) have "p = NULL" by simp
    with Nil ok1 v h1 show ?thesis by simp
  next
    case (Cons x xs)
    then obtain a e n where x: "x = (a, e)" and p: "p = a" "p \<noteq> NULL" and n: "cells h1 p = Some n"
      using seg1 by (cases x) auto
    from Cons x p nin have "p \<noteq> v" by auto
    let ?h2 = "heap_set h1 p (Some (n\<lparr>link_prev := v\<rparr>))"
    have "dseg ?h2 p v r NULL"
      using dseg_reback [OF seg1 _ assms(3) n] Cons by simp
    moreover have "cells ?h2 v = Some \<lparr>link_next = p, link_prev = NULL, node_data = d\<rparr>"
      using \<open>p \<noteq> v\<close> by (simp add: h1)
    moreover have "heap_ok ?h2" using ok1 n by (simp add: heap_ok_update)
    ultimately show ?thesis using n p v by (simp add: modify_def deref_def)
  qed
qed

lemma ll_push_spec [ll_specs]:
  assumes "rep_locked l r"
  shows "\<exists>p l'. ll_push d l = Some (p, l') \<and> rep_locked l' ((p, d) # r) \<and> p \<noteq> NULL \<and>
    p \<notin> allocated (nodes l) \<and> allocated (nodes l') = insert p (allocated (nodes l)) \<and>
    (\<forall>q. q \<noteq> p \<longrightarrow> ll_get q l' = ll_get q l)"
proof -
  let ?n = "\<lparr>link_next = first l, link_prev = NULL, node_data = d\<rparr>"
  obtain v h1 where m: "malloc ?n (nodes l) = (v, h1)" by fastforce
  have ok: "heap_ok (nodes l)" and seg: "dseg (nodes l) (first l) NULL r NULL"
    and dist: "distinct (map fst r)" and mx: "mutex l"
    using assms by (auto simp: rep_locked_def)
  from dseg_push [OF ok seg dist m] obtain h2 where
    h2: "(if first l \<noteq> NULL then modify h1 (first l) (link_prev_update (\<lambda>_. v)) else Some h1) = Some h2"
    and ok2: "heap_ok h2" and seg2: "dseg h2 v NULL ((v, d) # r) NULL" by blast
  have v: "v \<noteq> NULL" "v \<notin> allocated (nodes l)"
    using m heap_ok_fresh [OF ok] by (auto simp: malloc_def)
  then have nin: "v \<notin> fst ` set r" using rep_locked_allocated [OF assms] by auto
  have al: "allocated h2 = insert v (allocated (nodes l))"
    using h2 malloc_allocated [OF m] by (auto dest: modify_allocated split: if_splits)
  have "map_option node_data (deref h2 q) = map_option node_data (deref (nodes l) q)" if "q \<noteq> v" for q
    using h2 that deref_malloc [OF ok m, of q]
    by (cases "deref (nodes l) q") (auto simp: deref_modify split: if_splits)
  then show ?thesis
    using m h2 ok2 seg2 v nin dist mx al
    by (simp add: ll_push_def rep_locked_def ll_get_def)
qed

lemma first_in_rep: "rep_locked l ((p, d) # r) \<Longrightarrow> first l = p"
  by (simp add: rep_locked_def)

lemma ll_unlink_head:
  assumes "rep_locked l ((p, d) # r)"
  shows "\<exists>l'. ll_unlink_first p l = Some l' \<and> rep_locked l' r \<and>
    allocated (nodes l') = allocated (nodes l) \<and> (\<forall>q. ll_get q l' = ll_get q l)"
proof -
  have ok: "heap_ok (nodes l)" and fp: "first l = p" and mx: "mutex l"
    and dist: "distinct (map fst r)" and nin: "p \<notin> fst ` set r"
    using assms by (auto simp: rep_locked_def)
  from assms obtain n where n: "cells (nodes l) p = Some n" and p: "p \<noteq> NULL"
    and seg: "dseg (nodes l) (link_next n) p r NULL"
    by (auto simp: rep_locked_def split: option.splits)
  show ?thesis
  proof (cases r)
    case Nil
    with seg have "link_next n = NULL" by simp
    with Nil ok fp mx n p show ?thesis
      by (simp add: ll_unlink_first_def deref_def rep_locked_def ll_get_def)
  next
    case (Cons x xs)
    then obtain m where m: "cells (nodes l) (link_next n) = Some m" and nn: "link_next n \<noteq> NULL"
      using seg by (cases x) auto
    let ?h = "heap_set (nodes l) (link_next n) (Some (m\<lparr>link_prev := NULL\<rparr>))"
    have "dseg ?h (link_next n) NULL r NULL"
      using dseg_reback [OF seg _ dist m] Cons by simp
    moreover have "heap_ok ?h" using ok m by (simp add: heap_ok_update)
    moreover have md: "modify (nodes l) (link_next n) (link_prev_update (\<lambda>_. NULL)) = Some ?h"
      using m nn by (simp add: modify_def deref_def)
    moreover have "map_option node_data (deref ?h q) = map_option node_data (deref (nodes l) q)" for q
      using deref_modify [OF md, of q] by (cases "deref (nodes l) q") auto
    ultimately show ?thesis
      using n p nn fp mx dist modify_allocated [OF md]
      by (simp add: ll_unlink_first_def deref_def [of "nodes l" p] rep_locked_def ll_get_def)
  qed
qed

lemma dseg_unlink_mid:
  assumes seg: "dseg h f NULL (xs @ (e, d) # ys) NULL" and xs: "xs \<noteq> []"
    and dist: "distinct (map fst (xs @ (e, d) # ys))" and ok: "heap_ok h"
  shows "\<exists>n h1 h2. deref h e = Some n \<and>
    modify h (link_prev n) (link_next_update (\<lambda>_. link_next n)) = Some h1 \<and> deref h1 e = Some n \<and>
    (if link_next n \<noteq> NULL then modify h1 (link_next n) (link_prev_update (\<lambda>_. link_prev n))
     else Some h1) = Some h2 \<and> heap_ok h2 \<and> dseg h2 f NULL (xs @ ys) NULL"
proof -
  let ?a = "last_addr NULL xs"
  from seg obtain n where sx: "dseg h f NULL xs e" and n: "cells h e = Some n" "e \<noteq> NULL"
    and pr: "link_prev n = ?a" and sy: "dseg h (link_next n) e ys NULL"
    by (auto simp: dseg_append)
  have a_in: "?a \<in> fst ` set xs" using xs by (rule last_addr_in)
  then obtain da where "(?a, da) \<in> set xs" by force
  with dseg_cells [OF sx] obtain na where na: "cells h ?a = Some na" by blast
  have a0: "?a \<noteq> NULL" using ok na by (rule heap_ok_not_NULL)
  have ae: "?a \<noteq> e" and ay: "?a \<notin> fst ` set ys" using dist a_in by auto
  define h1 where "h1 = heap_set h ?a (Some (na\<lparr>link_next := link_next n\<rparr>))"
  have m1: "modify h (link_prev n) (link_next_update (\<lambda>_. link_next n)) = Some h1"
    using na a0 pr by (simp add: modify_def deref_def h1_def)
  have e1: "cells h1 e = Some n" using n ae by (simp add: h1_def)
  have ok1: "heap_ok h1" using ok m1 by (rule heap_ok_modify)
  have sx1: "dseg h1 f NULL xs (link_next n)"
    unfolding h1_def by (rule dseg_redirect [OF sx xs _ na]) (use dist in simp)
  have sy1: "dseg h1 (link_next n) e ys NULL"
    using sy ay by (simp add: h1_def dseg_frame)
  show ?thesis
  proof (cases ys)
    case Nil
    with sy have "link_next n = NULL" by simp
    with Nil n m1 e1 ok1 sx1 show ?thesis by (simp add: deref_def)
  next
    case (Cons y zs)
    with sy1 obtain m where m: "cells h1 (link_next n) = Some m" "link_next n \<noteq> NULL"
      and y: "link_next n = fst y" by (cases y) auto
    define h2 where "h2 = heap_set h1 (link_next n) (Some (m\<lparr>link_prev := link_prev n\<rparr>))"
    have m2: "modify h1 (link_next n) (link_prev_update (\<lambda>_. link_prev n)) = Some h2"
      using m by (simp add: modify_def deref_def h2_def)
    have "link_next n \<notin> fst ` set xs" using dist Cons y by auto
    then have "dseg h2 f NULL xs (link_next n)" using sx1 by (simp add: h2_def dseg_frame)
    moreover have "dseg h2 (link_next n) ?a ys NULL"
      unfolding h2_def pr by (rule dseg_reback [OF sy1 _ _ m(1)]) (use Cons dist in auto)
    ultimately have "dseg h2 f NULL (xs @ ys) NULL" by (auto simp: dseg_append)
    with n m1 e1 m m2 heap_ok_modify [OF ok1 m2] show ?thesis by (simp add: deref_def)
  qed
qed

lemma ll_unlink_spec [ll_specs]:
  assumes "rep_locked l r" and "map_of r e = Some d"
  shows "\<exists>l'. ll_unlink e l = Some l' \<and> rep_locked l' (AList.delete e r) \<and>
    allocated (nodes l') = allocated (nodes l) \<and> (\<forall>q. ll_get q l' = ll_get q l)"
proof -
  have dist: "distinct (map fst r)" and ok: "heap_ok (nodes l)" and mx: "mutex l"
    and seg: "dseg (nodes l) (first l) NULL r NULL"
    using assms(1) by (auto simp: rep_locked_def)
  from split_at_key [OF assms(2) dist] obtain xs ys where r: "r = xs @ (e, d) # ys"
    and nin: "e \<notin> fst ` set xs" "e \<notin> fst ` set ys" .
  show ?thesis
  proof (cases "xs = []")
    case True
    with r nin assms(1) have "rep_locked l ((e, d) # ys)" "AList.delete e r = ys" by (auto simp: delete_head)
    with ll_unlink_head [of l e d ys] first_in_rep [of l e d ys] show ?thesis by (simp add: ll_unlink_def)
  next
    case False
    from dseg_unlink_mid [OF seg [unfolded r] False dist [unfolded r] ok] obtain n h1 h2 where
      n: "deref (nodes l) e = Some n"
      and m1: "modify (nodes l) (link_prev n) (link_next_update (\<lambda>_. link_next n)) = Some h1"
      and e1: "deref h1 e = Some n"
      and m2: "(if link_next n \<noteq> NULL then modify h1 (link_next n) (link_prev_update (\<lambda>_. link_prev n))
        else Some h1) = Some h2"
      and ok2: "heap_ok h2" and seg2: "dseg h2 (first l) NULL (xs @ ys) NULL" by blast
    have ne: "e \<noteq> first l" using seg r False nin(1) by (cases xs) auto
    have al: "allocated h2 = allocated (nodes l)"
      using m1 m2 by (auto dest!: modify_allocated split: if_splits)
    have g1: "map_option node_data (deref h1 q) = map_option node_data (deref (nodes l) q)" for q
      using deref_modify [OF m1, of q] by (cases "deref (nodes l) q") auto
    have "map_option node_data (deref h2 q) = map_option node_data (deref h1 q)" for q
      using m2 by (cases "deref h1 q") (auto simp: deref_modify split: if_splits)
    with g1 have "ll_get q (l\<lparr>nodes := h2\<rparr>) = ll_get q l" for q by (simp add: ll_get_def)
    moreover have "AList.delete e r = xs @ ys" using r nin by (simp add: delete_mid)
    ultimately show ?thesis using ne n m1 e1 m2 ok2 seg2 al mx dist r
      by (simp add: ll_unlink_def rep_locked_def)
  qed
qed

text \<open>A node outside the list can be freed; the list is not affected.\<close>

lemma ll_free_node_spec:
  assumes "heap_ok (nodes l)" and "p \<in> allocated (nodes l)"
  shows "\<exists>l'. ll_free_node p l = Some l' \<and> allocated (nodes l') = allocated (nodes l) - {p} \<and>
    (\<forall>q. q \<noteq> p \<longrightarrow> ll_get q l' = ll_get q l) \<and>
    (\<forall>r. p \<notin> fst ` set r \<longrightarrow> (rep l r \<longrightarrow> rep l' r) \<and> (rep_locked l r \<longrightarrow> rep_locked l' r))"
proof -
  have p: "p \<noteq> NULL" using assms by (auto simp: allocated_def dest: heap_ok_not_NULL)
  with assms(2) obtain n where n: "cells (nodes l) p = Some n" "deref (nodes l) p = Some n"
    by (auto simp: allocated_def deref_def)
  let ?h = "heap_set (nodes l) p None"
  have f: "ll_free_node p l = Some (l\<lparr>nodes := ?h\<rparr>)" using n p by (simp add: ll_free_node_def free_def)
  have "allocated ?h = allocated (nodes l) - {p}" by (auto simp: allocated_def)
  moreover have "ll_get q (l\<lparr>nodes := ?h\<rparr>) = ll_get q l" if "q \<noteq> p" for q
    using that by (simp add: ll_get_def deref_def)
  moreover have "heap_ok ?h" using assms(1) by (rule heap_ok_delete)
  ultimately show ?thesis unfolding f by (simp add: rep_def rep_locked_def dseg_frame)
qed

lemma rep_heap_ok: "rep l r \<Longrightarrow> heap_ok (nodes l)"
  by (simp add: rep_def)

lemma rep_locked_heap_ok: "rep_locked l r \<Longrightarrow> heap_ok (nodes l)"
  by (simp add: rep_locked_def)

text \<open>Reading and writing an entry through its address.\<close>

lemma rep_get [ll_specs]: "rep l r \<Longrightarrow> map_of r p = Some d \<Longrightarrow> ll_get p l = Some d"
  by (fastforce simp: rep_def ll_get_def deref_def dest: dseg_cells dseg_not_NULL map_of_SomeD)

lemma rep_locked_get [ll_specs]: "rep_locked l r \<Longrightarrow> map_of r p = Some d \<Longrightarrow> ll_get p l = Some d"
  by (fastforce simp: rep_locked_def ll_get_def deref_def dest: dseg_cells dseg_not_NULL map_of_SomeD)

lemma dseg_put:
  "cells h a = Some n \<Longrightarrow> distinct (map fst xs) \<Longrightarrow> dseg h p b xs q \<Longrightarrow>
   dseg (heap_set h a (Some (node_data_update f n))) p b (AList.map_entry a f xs) q"
proof (induction xs arbitrary: p b)
  case (Cons x xs)
  obtain a' d where x: "x = (a', d)" by (cases x)
  show ?case
  proof (cases "a' = a")
    case True
    then have "AList.map_entry a f xs = xs" using Cons.prems(2) x by (intro map_entry_not_key) auto
    with True Cons.prems x show ?thesis by (auto simp: dseg_frame)
  next
    case False
    with Cons.prems x show ?thesis using Cons.IH by auto
  qed
qed simp

lemma ll_put_cells:
  assumes "heap_ok (nodes l)" and "p \<in> allocated (nodes l)"
  obtains n where "cells (nodes l) p = Some n"
    and "ll_put p f l = Some (l\<lparr>nodes := heap_set (nodes l) p (Some (node_data_update f n))\<rparr>)"
proof -
  from assms(2) obtain n where n: "cells (nodes l) p = Some n" by (auto simp: allocated_def)
  moreover have "p \<noteq> NULL" using assms(1) n by (rule heap_ok_not_NULL)
  ultimately show thesis using that by (simp add: ll_put_def modify_def deref_def)
qed

lemma ll_put_spec [ll_specs]:
  assumes "heap_ok (nodes l)" and "p \<in> allocated (nodes l)"
  shows "\<exists>l'. ll_put p f l = Some l' \<and> allocated (nodes l') = allocated (nodes l) \<and>
    ll_get p l' = map_option f (ll_get p l) \<and> (\<forall>q. q \<noteq> p \<longrightarrow> ll_get q l' = ll_get q l) \<and>
    (\<forall>r. (rep l r \<longrightarrow> rep l' (AList.map_entry p f r)) \<and>
      (rep_locked l r \<longrightarrow> rep_locked l' (AList.map_entry p f r)))"
proof -
  from ll_put_cells [OF assms, where f = f] obtain n where n: "cells (nodes l) p = Some n"
    and e: "ll_put p f l = Some (l\<lparr>nodes := heap_set (nodes l) p (Some (node_data_update f n))\<rparr>)" .
  then show ?thesis using assms
    by (auto simp: ll_get_def deref_def allocated_def rep_def rep_locked_def heap_ok_update intro!: dseg_put)
qed

section \<open>Freeing a whole list\<close>

text \<open>The loop returns, frees each node once and touches nothing else.\<close>

lemma dseg_free_from:
  "dseg h p b r NULL \<Longrightarrow> distinct (map fst r) \<Longrightarrow>
   \<exists>h'. ll_free_from h p = Some h' \<and> cells h' = cells h |` (- fst ` set r)"
proof (induction r arbitrary: h p b)
  case Nil
  then show ?case by (simp add: ll_free_from.simps)
next
  case (Cons x r)
  obtain a d where x: "x = (a, d)" by (cases x)
  with Cons.prems obtain n where n: "cells h a = Some n" "p = a" "a \<noteq> NULL"
    and seg: "dseg h (link_next n) a r NULL" and dist: "distinct (map fst r)" "a \<notin> fst ` set r" by auto
  let ?h = "heap_set h a None"
  have "dseg ?h (link_next n) a r NULL" using seg dist(2) by (simp add: dseg_frame)
  then obtain h' where "ll_free_from ?h (link_next n) = Some h'" "cells h' = cells ?h |` (- fst ` set r)"
    using dist(1) Cons.IH by blast
  moreover have "(cells h)(a := None) |` (- fst ` set r) = cells h |` (- fst ` set (x # r))"
    using x by (auto simp: restrict_map_def fun_eq_iff)
  ultimately show ?case using n by (simp add: ll_free_from.simps [of h a] deref_def free_def)
qed

lemma rep_free_from [ll_specs]:
  "rep l r \<Longrightarrow> \<exists>h. ll_free_from (nodes l) (first l) = Some h \<and>
     allocated h = allocated (nodes l) - fst ` set r"
  by (fastforce simp: rep_def allocated_def dest: dseg_free_from)

section \<open>Locked sections\<close>

text \<open>The three shapes in which the modules use the list under its mutex.\<close>

lemma locked_push:
  assumes "rep l r"
  obtains l1 p l2 l3 where "ll_lock l = Some l1" and "rep_locked l1 r" and "nodes l1 = nodes l"
    and "first l1 = first l"
    and "ll_push d l1 = Some (p, l2)" and "ll_unlock l2 = Some l3" and "rep l3 ((p, d) # r)"
    and "p \<noteq> NULL" and "p \<notin> allocated (nodes l)"
    and "allocated (nodes l3) = insert p (allocated (nodes l))"
    and "\<forall>q. q \<noteq> p \<longrightarrow> ll_get q l3 = ll_get q l"
proof -
  from rep_lock [OF assms] obtain l1 where
    l1: "ll_lock l = Some l1" "rep_locked l1 r" "nodes l1 = nodes l" by blast
  from ll_push_spec [OF l1(2), of d] obtain p l2 where
    l2: "ll_push d l1 = Some (p, l2)" and spec: "rep_locked l2 ((p, d) # r)" "p \<noteq> NULL"
      "p \<notin> allocated (nodes l1)" "allocated (nodes l2) = insert p (allocated (nodes l1))"
      "\<forall>q. q \<noteq> p \<longrightarrow> ll_get q l2 = ll_get q l1" by blast
  from rep_unlock [OF spec(1)] obtain l3 where
    "ll_unlock l2 = Some l3" "rep l3 ((p, d) # r)" "nodes l3 = nodes l2" by blast
  moreover have "first l1 = first l" using l1(1) by (auto simp: ll_lock_def split: if_splits)
  ultimately show thesis using that l1 l2 spec by (simp add: ll_get_def)
qed

lemma locked_unlink:
  assumes "rep l r" and "map_of r e = Some d"
  obtains l1 l2 l3 where "ll_lock l = Some l1" and "rep_locked l1 r" and "first l1 = first l"
    and "nodes l1 = nodes l"
    and "ll_unlink e l1 = Some l2" and "ll_unlock l2 = Some l3" and "rep l3 (AList.delete e r)"
    and "rep_locked l2 (AList.delete e r)"
    and "nodes l3 = nodes l2" and "allocated (nodes l3) = allocated (nodes l)"
    and "\<forall>q. ll_get q l3 = ll_get q l"
proof -
  from rep_lock [OF assms(1)] obtain l1 where
    l1: "ll_lock l = Some l1" "rep_locked l1 r" "nodes l1 = nodes l" by blast
  from ll_unlink_spec [OF l1(2) assms(2)] obtain l2 where
    l2: "ll_unlink e l1 = Some l2" "rep_locked l2 (AList.delete e r)"
      "allocated (nodes l2) = allocated (nodes l1)" "\<forall>q. ll_get q l2 = ll_get q l1" by blast
  from rep_unlock [OF l2(2)] obtain l3 where
    "ll_unlock l2 = Some l3" "rep l3 (AList.delete e r)" "nodes l3 = nodes l2" by blast
  moreover have "first l1 = first l" using l1(1) by (auto simp: ll_lock_def split: if_splits)
  ultimately show thesis using that l1 l2 by (simp add: ll_get_def)
qed

lemma rep_entry_allocated: "rep l r \<Longrightarrow> map_of r e = Some d \<Longrightarrow> e \<in> allocated (nodes l)"
  by (force dest: rep_allocated map_of_SomeD)

lemma delete_key_gone [simp]: "e \<notin> fst ` set (AList.delete e r)"
  by (auto simp: AList.delete_eq)

text \<open>Unlink under the mutex, free after unlocking.\<close>

lemma locked_unlink_free:
  assumes "rep l r" and "map_of r e = Some d"
  obtains l1 l2 l3 l4 where "ll_lock l = Some l1" and "rep_locked l1 r" and "first l1 = first l"
    and "nodes l1 = nodes l"
    and "ll_unlink e l1 = Some l2" and "ll_unlock l2 = Some l3" and "ll_free_node e l3 = Some l4"
    and "rep l4 (AList.delete e r)" and "allocated (nodes l4) = allocated (nodes l) - {e}"
    and "\<forall>q. q \<noteq> e \<longrightarrow> ll_get q l4 = ll_get q l"
proof -
  from locked_unlink [OF assms] obtain l1 l2 l3 where
    l: "ll_lock l = Some l1" "rep_locked l1 r" "first l1 = first l" "nodes l1 = nodes l"
      "ll_unlink e l1 = Some l2" "ll_unlock l2 = Some l3" "rep l3 (AList.delete e r)"
      "nodes l3 = nodes l2" "allocated (nodes l3) = allocated (nodes l)"
      "\<forall>q. ll_get q l3 = ll_get q l" .
  have "e \<in> allocated (nodes l3)" using rep_entry_allocated [OF assms] l(9) by simp
  from ll_free_node_spec [OF rep_heap_ok [OF l(7)] this] obtain l4 where
    "ll_free_node e l3 = Some l4" "allocated (nodes l4) = allocated (nodes l3) - {e}"
    "\<forall>q. q \<noteq> e \<longrightarrow> ll_get q l4 = ll_get q l3" "rep l4 (AList.delete e r)"
    using l(7) delete_key_gone [of e r] by blast
  then show thesis using that l by simp
qed

text \<open>Unlink and free under the mutex.\<close>

lemma locked_unlink_free_inside:
  assumes "rep l r" and "map_of r e = Some d"
  obtains l1 l2 l3 l4 where "ll_lock l = Some l1" and "rep_locked l1 r" and "first l1 = first l"
    and "nodes l1 = nodes l"
    and "ll_unlink e l1 = Some l2" and "ll_free_node e l2 = Some l3" and "ll_unlock l3 = Some l4"
    and "rep l4 (AList.delete e r)" and "allocated (nodes l4) = allocated (nodes l) - {e}"
    and "\<forall>q. q \<noteq> e \<longrightarrow> ll_get q l4 = ll_get q l"
proof -
  from locked_unlink [OF assms] obtain l1 l2 l3 where
    l: "ll_lock l = Some l1" "rep_locked l1 r" "first l1 = first l" "nodes l1 = nodes l"
      "ll_unlink e l1 = Some l2" "ll_unlock l2 = Some l3" "rep_locked l2 (AList.delete e r)"
      "nodes l3 = nodes l2" "allocated (nodes l3) = allocated (nodes l)"
      "\<forall>q. ll_get q l3 = ll_get q l" .
  have "e \<in> allocated (nodes l2)" using rep_entry_allocated [OF assms] l(8,9) by simp
  from ll_free_node_spec [OF rep_locked_heap_ok [OF l(7)] this] obtain l3' where
    l3': "ll_free_node e l2 = Some l3'" "allocated (nodes l3') = allocated (nodes l2) - {e}"
    "\<forall>q. q \<noteq> e \<longrightarrow> ll_get q l3' = ll_get q l2" "rep_locked l3' (AList.delete e r)"
    using l(7) delete_key_gone [of e r] by blast
  from rep_unlock [OF l3'(4)] obtain l4 where
    "ll_unlock l3' = Some l4" "rep l4 (AList.delete e r)" "nodes l4 = nodes l3'" by blast
  then show thesis using that l l3' by (simp add: ll_get_def)
qed

text \<open>Search only: the mutex is taken and released, the list is unchanged.\<close>

lemma lock_unlock: "rep l r \<Longrightarrow> ll_lock l = Some l1 \<Longrightarrow> ll_unlock l1 = Some l"
  by (auto simp: rep_def ll_lock_def ll_unlock_def)

end
