(* ===== verification/ListInterfaces.thy ===== *)
theory ListInterfaces
  imports LinkedList
begin

text \<open>
  The interfaces of the list modules, as the driver uses them: looking an entry up by key,
  inserting one, removing the first entry with a key, removing an entry by its address. Each
  is a locale whose laws speak about the abstract contents \<open>r\<close> of the list, and each is
  interpreted in the theory of the module that provides the operations. What the driver needs
  of a combination of operations is proved once, in the locales that join the interfaces.
\<close>

section \<open>The single operations\<close>

text \<open>\<open>get\<close> accepts NULL for the list, as the code's \<open>_get\<close> functions do.\<close>

locale lookup_list =
  fixes get :: "'d ll option \<Rightarrow> 'k \<Rightarrow> (ptr \<times> 'd ll option) option"
    and key_is :: "'k \<Rightarrow> 'd \<Rightarrow> bool"
  assumes get_NULL: "get None k = Some (NULL, None)"
    and get_spec: "rep l r \<Longrightarrow> get (Some l) k = Some (first_match (key_is k) r, Some l)"
begin

lemma get_total: "rep l r \<Longrightarrow> \<exists>p. get (Some l) k = Some (p, Some l)"
  by (simp add: get_spec)

lemma get_found:
  assumes "rep l r" and "get (Some l) k = Some (p, l')" and "p \<noteq> NULL"
  shows "\<exists>d. ll_get p l = Some d \<and> key_is k d"
proof -
  have "first_match (key_is k) r = p" using assms get_spec [OF assms(1), of k] by simp
  from first_match_Some [OF this assms(3) rep_unlocked_distinct [OF assms(1)]]
  show ?thesis using rep_get [OF assms(1)] by blast
qed

lemma get_absent:
  assumes "rep l r" and "get (Some l) k = Some (NULL, l')"
  shows "\<forall>(p, d) \<in> set r. \<not> key_is k d"
  using assms get_spec [OF assms(1), of k]
  by (simp add: first_match_NULL [OF rep_not_NULL])

end

locale insert_list =
  fixes ins :: "'d ll \<Rightarrow> 'x \<Rightarrow> (ptr \<times> 'd ll) option"
    and mk :: "'x \<Rightarrow> 'd"
    and accepts :: "(ptr \<times> 'd) list \<Rightarrow> 'x \<Rightarrow> bool"
  assumes ins_spec: "rep l r \<Longrightarrow> accepts r x \<Longrightarrow>
    \<exists>p l'. ins l x = Some (p, l') \<and> rep l' ((p, mk x) # r) \<and> p \<noteq> NULL \<and>
      p \<notin> allocated (nodes l) \<and> allocated (nodes l') = insert p (allocated (nodes l)) \<and>
      (\<forall>q. q \<noteq> p \<longrightarrow> ll_get q l' = ll_get q l)"

locale remove_list =
  fixes rem :: "'d ll \<Rightarrow> 'k \<Rightarrow> 'd ll option"
    and key_is :: "'k \<Rightarrow> 'd \<Rightarrow> bool"
  assumes rem_found: "rep l r \<Longrightarrow> first_match (key_is k) r = p \<Longrightarrow> p \<noteq> NULL \<Longrightarrow>
    \<exists>l'. rem l k = Some l' \<and> rep l' (AList.delete p r) \<and>
      allocated (nodes l') = allocated (nodes l) - {p} \<and> (\<forall>q. q \<noteq> p \<longrightarrow> ll_get q l' = ll_get q l)"
    and rem_absent: "rep l r \<Longrightarrow> first_match (key_is k) r = NULL \<Longrightarrow> rem l k = Some l"
begin

lemma rem_total: "rep l r \<Longrightarrow> \<exists>l' r'. rem l k = Some l' \<and> rep l' r' \<and> set r' \<subseteq> set r"
proof (cases "first_match (key_is k) r = NULL")
  case False
  assume "rep l r"
  from rem_found [OF this refl False] obtain l'
    where "rem l k = Some l'" "rep l' (AList.delete (first_match (key_is k) r) r)" by blast
  then show ?thesis by (auto simp: AList.delete_eq)
qed (auto simp: rem_absent)

end

locale remove_ptr_list =
  fixes remp :: "'d ll \<Rightarrow> ptr \<Rightarrow> (bool \<times> 'd ll) option"
  assumes remp_found: "rep l r \<Longrightarrow> map_of r p = Some d \<Longrightarrow>
    \<exists>l'. remp l p = Some (True, l') \<and> rep l' (AList.delete p r) \<and>
      allocated (nodes l') = allocated (nodes l) - {p} \<and> (\<forall>q. q \<noteq> p \<longrightarrow> ll_get q l' = ll_get q l)"
    and remp_NULL: "rep l r \<Longrightarrow> remp l NULL = Some (False, l)"

section \<open>Combinations\<close>

text \<open>A map from addresses to instances: entries are looked up and added, never removed.\<close>

locale growing_table = lookup_list get key_is + insert_list ins mk accepts
  for get :: "'d ll option \<Rightarrow> 'k \<Rightarrow> (ptr \<times> 'd ll option) option"
    and key_is :: "'k \<Rightarrow> 'd \<Rightarrow> bool"
    and ins :: "'d ll \<Rightarrow> 'x \<Rightarrow> (ptr \<times> 'd ll) option"
    and mk :: "'x \<Rightarrow> 'd"
    and accepts :: "(ptr \<times> 'd) list \<Rightarrow> 'x \<Rightarrow> bool"
begin

text \<open>The newest entry with a key is the one found; other keys are not affected.\<close>

lemma get_after_insert:
  assumes "rep l r" and "accepts r x" and "ins l x = Some (p, l')"
  shows "get (Some l') k =
    (if key_is k (mk x) then Some (p, Some l') else Some (first_match (key_is k) r, Some l'))"
  using ins_spec [OF assms(1,2)] assms(3) by (auto simp: get_spec)

end

text \<open>A list with removal by key.\<close>

locale keyed_table = growing_table get key_is ins mk accepts + remove_list rem key_is
  for get :: "'d ll option \<Rightarrow> 'k \<Rightarrow> (ptr \<times> 'd ll option) option"
    and key_is :: "'k \<Rightarrow> 'd \<Rightarrow> bool"
    and ins :: "'d ll \<Rightarrow> 'x \<Rightarrow> (ptr \<times> 'd ll) option"
    and mk :: "'x \<Rightarrow> 'd"
    and accepts :: "(ptr \<times> 'd) list \<Rightarrow> 'x \<Rightarrow> bool"
    and rem :: "'d ll \<Rightarrow> 'k \<Rightarrow> 'd ll option"
begin

text \<open>Removing the key just inserted restores the list and frees the node again.\<close>

lemma insert_remove:
  assumes "rep l r" and "accepts r x" and "ins l x = Some (p, l1)" and "key_is k (mk x)"
  shows "\<exists>l2. rem l1 k = Some l2 \<and> rep l2 r \<and> allocated (nodes l2) = allocated (nodes l)"
proof -
  from ins_spec [OF assms(1,2)] assms(3) have l1: "rep l1 ((p, mk x) # r)" "p \<noteq> NULL"
    "p \<notin> allocated (nodes l)" "allocated (nodes l1) = insert p (allocated (nodes l))" by auto
  moreover have "p \<notin> fst ` set r" using l1(3) rep_allocated [OF assms(1)] by auto
  ultimately show ?thesis
    using rem_found [OF l1(1), of k p] assms(4) by (auto simp: delete_not_key)
qed

text \<open>With two entries under one key, removal by key takes the newer one.\<close>

lemma remove_takes_newest:
  assumes "rep l r" and "accepts r x" and "ins l x = Some (p, l1)"
    and "accepts ((p, mk x) # r) y" and "ins l1 y = Some (q, l2)"
    and "key_is k (mk x)" and "key_is k (mk y)"
  shows "\<exists>l3. rem l2 k = Some l3 \<and> rep l3 ((p, mk x) # r) \<and> ll_get q l3 = None"
proof -
  from ins_spec [OF assms(1,2)] assms(3) have l1: "rep l1 ((p, mk x) # r)" by auto
  from insert_remove [OF l1 assms(4,5,7)] obtain l3 where
    l3: "rem l2 k = Some l3" "rep l3 ((p, mk x) # r)" "allocated (nodes l3) = allocated (nodes l1)" by blast
  moreover have "q \<notin> allocated (nodes l1)" using ins_spec [OF l1 assms(4)] assms(5) by auto
  ultimately have "ll_get q l3 = None" by (auto simp: ll_get_def deref_def allocated_def domIff)
  with l3 show ?thesis by blast
qed

end

text \<open>A list of pending calls: entries are found by key and removed by address.\<close>

locale call_table = growing_table get key_is ins mk accepts + remove_ptr_list remp
  for get :: "'d ll option \<Rightarrow> 'k \<Rightarrow> (ptr \<times> 'd ll option) option"
    and key_is :: "'k \<Rightarrow> 'd \<Rightarrow> bool"
    and ins :: "'d ll \<Rightarrow> 'x \<Rightarrow> (ptr \<times> 'd ll) option"
    and mk :: "'x \<Rightarrow> 'd"
    and accepts :: "(ptr \<times> 'd) list \<Rightarrow> 'x \<Rightarrow> bool"
    and remp :: "'d ll \<Rightarrow> ptr \<Rightarrow> (bool \<times> 'd ll) option"
begin

text \<open>
  A call's entry can be removed however its data changed in between, and what is left is
  the list without it.
\<close>

lemma insert_update_remove:
  assumes "rep l1 ((p, d) # r)"
  shows "\<exists>l2. remp l1 p = Some (True, l2) \<and> rep l2 r \<and>
    allocated (nodes l2) = allocated (nodes l1) - {p}"
proof -
  have "p \<notin> fst ` set r" using rep_unlocked_distinct [OF assms] by auto
  then show ?thesis using remp_found [OF assms, of p d] by (auto simp: delete_not_key)
qed

lemma insert_remove_ptr:
  assumes "rep l r" and "accepts r x" and "ins l x = Some (p, l1)"
  shows "\<exists>l2. remp l1 p = Some (True, l2) \<and> rep l2 r \<and> allocated (nodes l2) = allocated (nodes l)"
proof -
  from ins_spec [OF assms(1,2)] assms(3) have l1: "rep l1 ((p, mk x) # r)"
    "p \<notin> allocated (nodes l)" "allocated (nodes l1) = insert p (allocated (nodes l))" by auto
  with insert_update_remove [OF l1(1)] show ?thesis by auto
qed

end

text \<open>A list without a lookup of its own: entries are inserted, removed by key and popped.\<close>

locale discovery_table = insert_list ins mk accepts + remove_list rem key_is
  for ins :: "'d ll \<Rightarrow> 'x \<Rightarrow> (ptr \<times> 'd ll) option"
    and mk :: "'x \<Rightarrow> 'd"
    and accepts :: "(ptr \<times> 'd) list \<Rightarrow> 'x \<Rightarrow> bool"
    and rem :: "'d ll \<Rightarrow> 'k \<Rightarrow> 'd ll option"
    and key_is :: "'k \<Rightarrow> 'd \<Rightarrow> bool" +
  fixes pop :: "'d ll \<Rightarrow> (ptr \<times> 'd ll) option"
  assumes pop_empty: "rep l [] \<Longrightarrow> pop l = Some (NULL, l)"
    and pop_spec: "rep l ((p, d) # r) \<Longrightarrow>
      \<exists>l'. pop l = Some (p, l') \<and> rep l' r \<and> allocated (nodes l') = allocated (nodes l) \<and>
        (\<forall>q. ll_get q l' = ll_get q l)"
begin

lemma insert_pop:
  assumes "rep l r" and "accepts r x" and "ins l x = Some (p, l1)"
  shows "\<exists>l2. pop l1 = Some (p, l2) \<and> rep l2 r \<and> ll_get p l2 = Some (mk x)"
proof -
  from ins_spec [OF assms(1,2)] assms(3) have l1: "rep l1 ((p, mk x) # r)" by auto
  moreover have "ll_get p l1 = Some (mk x)" using l1 by (auto intro: rep_get)
  ultimately show ?thesis using pop_spec [OF l1] by auto
qed

text \<open>Walking the list from the head and removing each entry by its key empties it.\<close>

lemma remove_head:
  assumes "rep l ((p, d) # r)" and "key_is k d"
  shows "\<exists>l'. rem l k = Some l' \<and> rep l' r \<and> allocated (nodes l') = allocated (nodes l) - {p} \<and>
    (\<forall>q. q \<noteq> p \<longrightarrow> ll_get q l' = ll_get q l)"
proof -
  have "p \<noteq> NULL" "p \<notin> fst ` set r"
    using rep_not_NULL [OF assms(1)] rep_unlocked_distinct [OF assms(1)] by auto
  then show ?thesis using rem_found [OF assms(1), of k p] assms(2) by (auto simp: delete_not_key)
qed

end

end
