(* ===== verification/BacnetTypes.thy ===== *)
theory BacnetTypes
  imports CPrelude
begin

text \<open>
  The data the sources pass around. \<open>BACNET_ADDRESS\<close> carries the members the code uses;
  the two arrays are lists, so that reading past their end can be told from reading inside.
  An application value is its tag and the member of the union that the tag selects; floats
  are kept as their bit patterns.
\<close>

record bacnet_address =
  mac_len :: u8
  mac :: "u8 list"
  net :: u16
  len :: u8
  adr :: "u8 list"

text \<open>Both arrays have \<open>MAX_MAC_LEN\<close> elements in the stack; \<open>len\<close> never exceeds that.\<close>

definition address_wf :: "bacnet_address \<Rightarrow> bool" where
  "address_wf a \<longleftrightarrow> unat (len a) \<le> length (adr a) \<and> 6 \<le> length (mac a)"

definition zero_address :: bacnet_address where
  "zero_address = \<lparr>mac_len = 0, mac = replicate 7 0, net = 0, len = 0, adr = replicate 7 0\<rparr>"

lemma zero_address_wf [simp]: "address_wf zero_address"
  by (simp add: address_wf_def zero_address_def)

lemma mac_len_zero_address [simp]: "mac_len zero_address = 0"
  by (simp add: zero_address_def)

text \<open>\<open>BACNET_APPLICATION_DATA_VALUE\<close>: the tag and the union member it selects.\<close>

datatype app_value =
    TAG_NULL
  | TAG_BOOLEAN bool
  | TAG_UNSIGNED_INT u32
  | TAG_SIGNED_INT u32
  | TAG_REAL u32
  | TAG_DOUBLE u64
  | TAG_CHARACTER_STRING string
  | TAG_OTHER u8 "u8 list"

text \<open>
  \<open>iot_data_t\<close>: the tags the sources switch on, with the value each accessor returns. Signed
  values are words of their width, read with \<open>sint\<close>.
\<close>

datatype iot_data =
    IOT_DATA_BOOL bool
  | IOT_DATA_STRING string
  | IOT_DATA_UINT8 u8
  | IOT_DATA_UINT16 u16
  | IOT_DATA_UINT32 u32
  | IOT_DATA_UINT64 u64
  | IOT_DATA_INT8 u8
  | IOT_DATA_INT16 u16
  | IOT_DATA_INT32 u32
  | IOT_DATA_INT64 u64
  | IOT_DATA_FLOAT32 u32
  | IOT_DATA_FLOAT64 u64
  | IOT_DATA_OTHER string

text \<open>\<open>bacnet_attributes_t\<close> of driver.h and \<open>bacnet_address_t\<close> of main.c.\<close>

record bacnet_attributes_t =
  attr_instance :: u32
  attr_property :: u32
  attr_type :: u32
  attr_index :: u32

record bacnet_address_t =
  addr_port :: u16
  addr_deviceInstance :: u32

text \<open>The two builds: BACnet/IP and BACnet/MSTP.\<close>

datatype datalink = BACDL_BIP | BACDL_MSTP

text \<open>
  What \<open>bacnet_getaddress\<close> hands to EdgeX: a \<open>bacnet_address_t\<close> in the build for BACnet/IP, a path
  string (or NULL) in the build for BACnet/MSTP. The handlers read the members of a
  \<open>bacnet_address_t\<close> in both builds; reading a string or NULL that way is undefined.
\<close>

datatype device_address = Ip_Address bacnet_address_t | Mstp_Path "string option"

fun as_bacnet_address :: "device_address \<Rightarrow> bacnet_address_t option" where
  "as_bacnet_address (Ip_Address a) = Some a"
| "as_bacnet_address (Mstp_Path path) = None"

end
