(* ===== verification/AddressEntry.thy ===== *)
theory AddressEntry
  imports ListInterfaces BacnetTypes
begin

unbundle bit_operations_syntax

text \<open>
  address_entry.c: the table of devices that answered a Who-Is. The list object is the one of
  \<open>LinkedList\<close>; the remaining fields of \<open>address_entry_t\<close> are the record below.
\<close>

record address_entry =
  ae_flags :: u8
  ae_device_id :: u32
  ae_max_apdu :: u32
  ae_address :: bacnet_address

type_synonym address_entry_ll = "address_entry ll"

definition BAC_ADDRESS_MULT :: u8 where
  "BAC_ADDRESS_MULT = 1"

section \<open>Operations\<close>

text \<open>The element loop: an index past either array is undefined.\<close>

fun adr_matches :: "u8 list \<Rightarrow> u8 list \<Rightarrow> nat \<Rightarrow> bool option" where
  "adr_matches xs ys 0 = Some True"
| "adr_matches (x # xs) (y # ys) (Suc n) = (if x \<noteq> y then Some False else adr_matches xs ys n)"
| "adr_matches _ _ (Suc n) = None"

definition bacnet_address_matches :: "bacnet_address \<Rightarrow> bacnet_address \<Rightarrow> bool option" where
  "bacnet_address_matches a1 a2 =
     (if net a1 \<noteq> net a2 then Some False
      else if len a1 \<noteq> len a2 then Some False
      else adr_matches (adr a1) (adr a2) (unat (len a1)))"

definition address_entry_get_locked :: "address_entry_ll \<Rightarrow> u32 \<Rightarrow> ptr option" where
  "address_entry_get_locked list device_id =
     ll_search (nodes list) (\<lambda>current. ae_device_id current = device_id) (first list)"

definition address_entry_alloc :: address_entry_ll where
  "address_entry_alloc = ll_alloc"

definition address_entry_free :: "address_entry_ll \<Rightarrow> address_entry node heap option" where
  "address_entry_free list = ll_free_from (nodes list) (first list)"

definition address_entry_set ::
    "address_entry_ll \<Rightarrow> u32 \<Rightarrow> u32 \<Rightarrow> bacnet_address \<Rightarrow> (ptr \<times> address_entry_ll) option" where
  "address_entry_set list device_id max_apdu src = do {
     list \<leftarrow> ll_lock list;
     entry \<leftarrow> address_entry_get_locked list device_id;
     exists \<leftarrow>
       (if entry \<noteq> NULL then do {
          e \<leftarrow> ll_get entry list;
          m \<leftarrow> bacnet_address_matches (ae_address e) src;
          Some (m \<or> device_id = ae_device_id e)
        }
        else Some False);
     if exists then do {
       list \<leftarrow> ll_unlock list;
       Some (NULL, list)
     }
     else do {
       let flags = 0 OR BAC_ADDRESS_MULT;
       (value, list) \<leftarrow> ll_push \<lparr>ae_flags = flags, ae_device_id = device_id,
                                ae_max_apdu = max_apdu, ae_address = src\<rparr> list;
       list \<leftarrow> ll_unlock list;
       Some (value, list)
     }
   }"

definition address_entry_remove :: "address_entry_ll \<Rightarrow> u32 \<Rightarrow> address_entry_ll option" where
  "address_entry_remove list device_id = do {
     list \<leftarrow> ll_lock list;
     entry \<leftarrow> address_entry_get_locked list device_id;
     if entry = NULL then ll_unlock list
     else do {
       list \<leftarrow> ll_unlink entry list;
       list \<leftarrow> ll_unlock list;
       ll_free_node entry list
     }
   }"

definition address_entry_pop :: "address_entry_ll \<Rightarrow> (ptr \<times> address_entry_ll) option" where
  "address_entry_pop list = do {
     list \<leftarrow> ll_lock list;
     let entry = first list;
     list \<leftarrow> (if entry \<noteq> NULL then ll_unlink_first entry list else Some list);
     list \<leftarrow> ll_unlock list;
     Some (entry, list)
   }"

section \<open>Matching addresses\<close>

lemma adr_matches_spec:
  "n \<le> length xs \<Longrightarrow> n \<le> length ys \<Longrightarrow> adr_matches xs ys n = Some (take n xs = take n ys)"
  by (induction xs ys n rule: adr_matches.induct) auto

lemma bacnet_address_matches_spec:
  "address_wf a1 \<Longrightarrow> address_wf a2 \<Longrightarrow> bacnet_address_matches a1 a2 =
     Some (net a1 = net a2 \<and> len a1 = len a2 \<and>
       take (unat (len a1)) (adr a1) = take (unat (len a2)) (adr a2))"
  by (auto simp: bacnet_address_matches_def address_wf_def adr_matches_spec)

section \<open>Contracts\<close>

abbreviation entry_is :: "u32 \<Rightarrow> address_entry \<Rightarrow> bool" where
  "entry_is device_id \<equiv> (\<lambda>e. ae_device_id e = device_id)"

definition new_entry :: "u32 \<times> u32 \<times> bacnet_address \<Rightarrow> address_entry" where
  "new_entry x = \<lparr>ae_flags = BAC_ADDRESS_MULT, ae_device_id = fst x,
     ae_max_apdu = fst (snd x), ae_address = snd (snd x)\<rparr>"

lemma ae_device_id_new_entry [simp]: "ae_device_id (new_entry (i, m, a)) = i"
  by (simp add: new_entry_def)

definition accepts_entry :: "(ptr \<times> address_entry) list \<Rightarrow> u32 \<times> u32 \<times> bacnet_address \<Rightarrow> bool" where
  "accepts_entry r x \<longleftrightarrow> fst x \<notin> ae_device_id ` snd ` set r"

lemma accepts_entry_match:
  "NULL \<notin> fst ` set r \<Longrightarrow> accepts_entry r x \<longleftrightarrow> first_match (entry_is (fst x)) r = NULL"
  by (force simp: accepts_entry_def first_match_NULL)

lemma address_entry_set_new:
  assumes "rep l r" and "accepts_entry r (device_id, max_apdu, src)"
  shows "\<exists>p l'. address_entry_set l device_id max_apdu src = Some (p, l') \<and>
    rep l' ((p, new_entry (device_id, max_apdu, src)) # r) \<and> p \<noteq> NULL \<and>
    p \<notin> allocated (nodes l) \<and> allocated (nodes l') = insert p (allocated (nodes l)) \<and>
    (\<forall>q. q \<noteq> p \<longrightarrow> ll_get q l' = ll_get q l)"
proof -
  from locked_push [OF assms(1)] obtain l1 p l2 l3 where l: "ll_lock l = Some l1" "rep_locked l1 r"
    "ll_push (new_entry (device_id, max_apdu, src)) l1 = Some (p, l2)" "ll_unlock l2 = Some l3"
    and "rep l3 ((p, new_entry (device_id, max_apdu, src)) # r)" "p \<noteq> NULL"
      "p \<notin> allocated (nodes l)" "allocated (nodes l3) = insert p (allocated (nodes l))"
      "\<forall>q. q \<noteq> p \<longrightarrow> ll_get q l3 = ll_get q l" by metis
  moreover have "address_entry_get_locked l1 device_id = Some NULL"
    using assms rep_locked_search [OF l(2)] accepts_entry_match [OF rep_not_NULL [OF assms(1)]]
    by (simp add: address_entry_get_locked_def)
  ultimately show ?thesis by (simp add: address_entry_set_def new_entry_def)
qed

text \<open>A device that is in the table already is not added again, whatever its address.\<close>

lemma address_entry_set_known:
  assumes "rep l r" and "\<not> accepts_entry r (device_id, max_apdu, src)"
    and "\<forall>(p, e) \<in> set r. address_wf (ae_address e)" and "address_wf src"
  shows "address_entry_set l device_id max_apdu src = Some (NULL, l)"
proof -
  let ?e = "first_match (entry_is device_id) r"
  from rep_lock [OF assms(1)] obtain l1 where
    l1: "ll_lock l = Some l1" "rep_locked l1 r" by blast
  have ne: "?e \<noteq> NULL"
    using assms(2) accepts_entry_match [OF rep_not_NULL [OF assms(1)]] by simp
  from first_match_Some [OF refl ne rep_unlocked_distinct [OF assms(1)]] obtain d where
    d: "map_of r ?e = Some d" "ae_device_id d = device_id" by blast
  moreover have "address_wf (ae_address d)" using d(1) assms(3) by (auto dest: map_of_SomeD)
  ultimately show ?thesis
    using l1 ne rep_locked_search [OF l1(2)] rep_locked_get [OF l1(2) d(1)] assms(4)
      lock_unlock [OF assms(1) l1(1)]
    by (simp add: address_entry_set_def address_entry_get_locked_def bacnet_address_matches_spec)
qed

lemma address_entry_remove_found:
  assumes "rep l r" and "first_match (entry_is device_id) r = p" and "p \<noteq> NULL"
  shows "\<exists>l'. address_entry_remove l device_id = Some l' \<and> rep l' (AList.delete p r) \<and>
    allocated (nodes l') = allocated (nodes l) - {p} \<and> (\<forall>q. q \<noteq> p \<longrightarrow> ll_get q l' = ll_get q l)"
proof -
  from first_match_Some [OF assms(2,3) rep_unlocked_distinct [OF assms(1)]] obtain d where
    "map_of r p = Some d" by blast
  from locked_unlink_free [OF assms(1) this] obtain l1 l2 l3 l4 where
    l: "ll_lock l = Some l1" "rep_locked l1 r" "ll_unlink p l1 = Some l2" "ll_unlock l2 = Some l3"
      "ll_free_node p l3 = Some l4"
    and "rep l4 (AList.delete p r)" "allocated (nodes l4) = allocated (nodes l) - {p}"
      "\<forall>q. q \<noteq> p \<longrightarrow> ll_get q l4 = ll_get q l" by metis
  then show ?thesis using assms(2,3) rep_locked_search [OF l(2)]
    by (simp add: address_entry_remove_def address_entry_get_locked_def)
qed

lemma address_entry_remove_absent:
  assumes "rep l r" and "first_match (entry_is device_id) r = NULL"
  shows "address_entry_remove l device_id = Some l"
proof -
  from rep_lock [OF assms(1)] obtain l1 where
    l1: "ll_lock l = Some l1" "rep_locked l1 r" by blast
  then show ?thesis using assms(2) rep_locked_search [OF l1(2)] lock_unlock [OF assms(1) l1(1)]
    by (simp add: address_entry_remove_def address_entry_get_locked_def)
qed

lemma address_entry_pop_empty: "rep l [] \<Longrightarrow> address_entry_pop l = Some (NULL, l)"
  by (auto simp: address_entry_pop_def rep_def ll_lock_def ll_unlock_def)

lemma address_entry_pop_first:
  assumes "rep l ((p, d) # r)"
  shows "\<exists>l'. address_entry_pop l = Some (p, l') \<and> rep l' r \<and>
    allocated (nodes l') = allocated (nodes l) \<and> (\<forall>q. ll_get q l' = ll_get q l)"
proof -
  from rep_lock [OF assms] obtain l1 where
    l1: "ll_lock l = Some l1" "rep_locked l1 ((p, d) # r)" "nodes l1 = nodes l" by blast
  from ll_unlink_head [OF l1(2)] obtain l2 where
    l2: "ll_unlink_first p l1 = Some l2" "rep_locked l2 r"
      "allocated (nodes l2) = allocated (nodes l1)" "\<forall>q. ll_get q l2 = ll_get q l1" by blast
  from rep_unlock [OF l2(2)] obtain l3 where
    "ll_unlock l2 = Some l3" "rep l3 r" "nodes l3 = nodes l2" by blast
  then show ?thesis using l1 l2 first_in_rep [OF l1(2)] rep_not_NULL [OF assms]
    by (simp add: address_entry_pop_def ll_get_def)
qed

section \<open>The interface\<close>

interpretation ae: discovery_table
  "\<lambda>l (device_id, max_apdu, src). address_entry_set l device_id max_apdu src"
  new_entry accepts_entry address_entry_remove entry_is address_entry_pop
proof (unfold_locales, goal_cases)
  case (1 l r x)
  then show ?case using address_entry_set_new by (cases x) auto
next
  case (2 l r k p)
  then show ?case by (rule address_entry_remove_found)
next
  case (3 l r k)
  then show ?case by (rule address_entry_remove_absent)
next
  case (4 l)
  then show ?case by (rule address_entry_pop_empty)
next
  case (5 l p d r)
  then show ?case by (rule address_entry_pop_first)
qed

section \<open>The table\<close>

text \<open>
  What the table keeps: at most one entry per device, and addresses whose length does not
  exceed the array.
\<close>

definition address_table :: "(ptr \<times> address_entry) list \<Rightarrow> bool" where
  "address_table r \<longleftrightarrow> distinct (map (ae_device_id \<circ> snd) r) \<and>
     (\<forall>(p, e) \<in> set r. address_wf (ae_address e))"

definition table_ok :: "address_entry_ll \<Rightarrow> bool" where
  "table_ok l \<longleftrightarrow> (\<exists>r. rep l r \<and> address_table r)"

lemma table_ok_alloc [simp, intro]: "table_ok address_entry_alloc"
  by (auto simp: table_ok_def address_entry_alloc_def address_table_def)

text \<open>The specification of \<open>address_entry_set\<close> on the abstract contents, both branches.\<close>

lemma address_entry_set_spec:
  assumes "rep l r" and "address_table r" and "address_wf src"
  obtains p l' where "address_entry_set l device_id max_apdu src = Some (p, l')"
    and "device_id \<in> ae_device_id ` snd ` set r \<Longrightarrow> p = NULL \<and> l' = l"
    and "device_id \<notin> ae_device_id ` snd ` set r \<Longrightarrow>
      p \<noteq> NULL \<and> p \<notin> allocated (nodes l) \<and> rep l' ((p, new_entry (device_id, max_apdu, src)) # r) \<and>
      address_table ((p, new_entry (device_id, max_apdu, src)) # r) \<and>
      allocated (nodes l') = insert p (allocated (nodes l)) \<and>
      (\<forall>q. q \<noteq> p \<longrightarrow> ll_get q l' = ll_get q l)"
proof (cases "device_id \<in> ae_device_id ` snd ` set r")
  case True
  then have "address_entry_set l device_id max_apdu src = Some (NULL, l)"
    using address_entry_set_known [OF assms(1) _ _ assms(3)] assms(2)
    by (simp add: accepts_entry_def address_table_def)
  with True that show thesis by blast
next
  case False
  then have "accepts_entry r (device_id, max_apdu, src)" by (simp add: accepts_entry_def)
  from address_entry_set_new [OF assms(1) this] False assms(2,3) that show thesis
    by (fastforce simp: address_table_def new_entry_def image_comp)
qed

lemma address_table_delete: "address_table r \<Longrightarrow> address_table (AList.delete p r)"
  by (auto simp: address_table_def AList.delete_eq distinct_map_filter)

lemma address_table_tl: "address_table (x # r) \<Longrightarrow> address_table r"
  by (auto simp: address_table_def)

end
