(* ===== verification/CStrings.thy ===== *)
theory CStrings
  imports CPrelude
begin

text \<open>
  The C library's string functions as far as the sources use them: printing with \<open>%u\<close> and
  \<open>%d\<close>, \<open>sprintf\<close> into a buffer of known size, \<open>strtoul\<close> in base 10, \<open>strtol\<close> with base
  detection, \<open>strtok\<close> on a fresh string and \<open>inet_pton\<close> for IPv4. A C string is the list of
  its bytes before the terminating NUL; \<open>long\<close> has 64 bits.
\<close>

section \<open>Decimal digits\<close>

definition digit_char :: "nat \<Rightarrow> char" where
  "digit_char n = char_of (48 + n)"

text \<open>The value of a digit in bases up to 36; letters of both cases count from ten.\<close>

definition digit_value :: "char \<Rightarrow> nat option" where
  "digit_value c =
     (let n = of_char c :: nat in
      if 48 \<le> n \<and> n \<le> 57 then Some (n - 48)
      else if 97 \<le> n \<and> n \<le> 122 then Some (n - 87)
      else if 65 \<le> n \<and> n \<le> 90 then Some (n - 55)
      else None)"

definition digit_in :: "nat \<Rightarrow> char \<Rightarrow> bool" where
  "digit_in base c = (case digit_value c of None \<Rightarrow> False | Some d \<Rightarrow> d < base)"

lemma digit_value_digit_char [simp]: "d < 10 \<Longrightarrow> digit_value (digit_char d) = Some d"
  by (simp add: digit_value_def digit_char_def)

lemma digit_in_digit_char [simp]: "d < 10 \<Longrightarrow> d < base \<Longrightarrow> digit_in base (digit_char d)"
  by (simp add: digit_in_def)

lemma digit_char_0: "digit_char 0 = CHR ''0''"
  unfolding digit_char_def by code_simp

lemma digit_char_numerals:
  "digit_char 1 = CHR ''1''" "digit_char 2 = CHR ''2''" "digit_char 3 = CHR ''3''"
  "digit_char 4 = CHR ''4''" "digit_char 5 = CHR ''5''" "digit_char 6 = CHR ''6''"
  "digit_char 7 = CHR ''7''" "digit_char 8 = CHR ''8''" "digit_char 9 = CHR ''9''"
  unfolding digit_char_def by code_simp+

lemma digit_char_inj: "digit_char a = digit_char b \<Longrightarrow> a < 10 \<Longrightarrow> b < 10 \<Longrightarrow> a = b"
  by (metis digit_value_digit_char option.inject)

text \<open>\<open>%u\<close> of an unsigned value, \<open>%d\<close> of a non-negative one.\<close>

fun print_dec :: "nat \<Rightarrow> string" where
  "print_dec n = (if n < 10 then [digit_char n] else print_dec (n div 10) @ [digit_char (n mod 10)])"

declare print_dec.simps [simp del]

text \<open>Evaluates \<open>print_dec\<close> on a numeral.\<close>

lemmas print_dec_eval = print_dec.simps digit_char_0 digit_char_numerals digit_char_numerals(1) [simplified]

lemma print_dec_not_Nil [simp]: "print_dec n \<noteq> []"
  by (subst print_dec.simps) simp

lemma print_dec_digits: "c \<in> set (print_dec n) \<Longrightarrow> \<exists>d < 10. c = digit_char d"
proof (induction n rule: print_dec.induct)
  case (1 n)
  show ?case
  proof (cases "n < 10")
    case True
    with 1(2) show ?thesis by (subst (asm) print_dec.simps) auto
  next
    case False
    with 1(2) have "c \<in> set (print_dec (n div 10)) \<or> c = digit_char (n mod 10)"
      by (subst (asm) print_dec.simps) auto
    moreover have "n mod 10 < 10" by simp
    ultimately show ?thesis using 1(1) [OF False] by blast
  qed
qed

text \<open>The digits of a number below \<open>10 ^ k\<close> fit in \<open>k\<close> characters.\<close>

lemma print_dec_length: "n < 10 ^ k \<Longrightarrow> 0 < k \<Longrightarrow> length (print_dec n) \<le> k"
proof (induction k arbitrary: n)
  case (Suc k)
  show ?case
  proof (cases "n < 10")
    case True
    then show ?thesis by (subst print_dec.simps) simp
  next
    case False
    with Suc.prems have "n div 10 < 10 ^ k" and "0 < k" by (auto intro!: Suc_leI gr0I)
    with Suc.IH False show ?thesis by (subst print_dec.simps) simp
  qed
qed simp

section \<open>Printing into a buffer\<close>

text \<open>
  \<open>sprintf\<close> into a buffer of \<open>bufsize\<close> bytes writes the characters and a NUL. Writing past the
  end is undefined.
\<close>

definition sprintf_into :: "nat \<Rightarrow> string \<Rightarrow> string option" where
  "sprintf_into bufsize s = (if length s < bufsize then Some s else None)"

lemma sprintf_into_fits [simp]: "length s < n \<Longrightarrow> sprintf_into n s = Some s"
  by (simp add: sprintf_into_def)

section \<open>Scanning numbers\<close>

definition is_space :: "char \<Rightarrow> bool" where
  "is_space c = (let n = of_char c :: nat in n = 32 \<or> (9 \<le> n \<and> n \<le> 13))"

definition scan_digits :: "nat \<Rightarrow> string \<Rightarrow> nat" where
  "scan_digits base s =
     foldl (\<lambda>v c. case digit_value c of None \<Rightarrow> v | Some d \<Rightarrow> v * base + d) 0 (takeWhile (digit_in base) s)"

definition scan_sign :: "string \<Rightarrow> bool \<times> string" where
  "scan_sign s = (case s of
       [] \<Rightarrow> (False, [])
     | c # r \<Rightarrow> if c = CHR ''-'' then (True, r) else if c = CHR ''+'' then (False, r) else (False, s))"

text \<open>
  \<open>strtoul(s, NULL, 10)\<close>: spaces, a sign, digits; the value saturates at \<open>ULONG_MAX\<close>, a minus
  sign negates it modulo \<open>2 ^ 64\<close>; no digits give 0.
\<close>

definition ULONG_MAX :: nat where "ULONG_MAX = 2 ^ 64 - 1"

definition strtoul10 :: "string \<Rightarrow> u64" where
  "strtoul10 s =
     (let (neg, r) = scan_sign (dropWhile is_space s); v = scan_digits 10 r
      in if ULONG_MAX < v then word_of_nat ULONG_MAX
         else if neg then - word_of_nat v else word_of_nat v)"

text \<open>
  \<open>strtol(s, NULL, 0)\<close>: a prefix \<open>0x\<close> followed by a hexadecimal digit selects base 16, a
  leading 0 base 8, anything else base 10; the value saturates at the range of \<open>long\<close>.
\<close>

definition detect_base :: "string \<Rightarrow> nat \<times> string" where
  "detect_base s = (case s of
       z # x # h # r \<Rightarrow>
         if z = CHR ''0'' \<and> (x = CHR ''x'' \<or> x = CHR ''X'') \<and> digit_in 16 h then (16, h # r)
         else if z = CHR ''0'' then (8, s) else (10, s)
     | z # r \<Rightarrow> if z = CHR ''0'' then (8, s) else (10, s)
     | [] \<Rightarrow> (10, []))"

definition LONG_MAX :: int where "LONG_MAX = 2 ^ 63 - 1"
definition LONG_MIN :: int where "LONG_MIN = - (2 ^ 63)"

definition strtol0 :: "string \<Rightarrow> int" where
  "strtol0 s =
     (let (neg, r) = scan_sign (dropWhile is_space s); (base, t) = detect_base r;
          v = int (scan_digits base t)
      in if neg then max LONG_MIN (- v) else min LONG_MAX v)"

section \<open>Round trips\<close>

lemma takeWhile_all: "(\<And>c. c \<in> set s \<Longrightarrow> P c) \<Longrightarrow> takeWhile P s = s"
  by (simp add: takeWhile_eq_all_conv)

lemma scan_print_dec: "scan_digits 10 (print_dec n) = n"
proof (induction n rule: print_dec.induct)
  case (1 n)
  have all: "takeWhile (digit_in 10) (print_dec m) = print_dec m" for m
    by (rule takeWhile_all) (auto dest: print_dec_digits)
  show ?case
  proof (cases "n < 10")
    case True
    then show ?thesis by (simp add: print_dec.simps [of n] scan_digits_def)
  next
    case False
    have "scan_digits 10 (print_dec n) =
      scan_digits 10 (print_dec (n div 10)) * 10 + n mod 10"
      unfolding scan_digits_def all using False by (subst print_dec.simps) simp
    also have "\<dots> = n" using 1 [OF False] by simp
    finally show ?thesis .
  qed
qed

lemma digit_char_not_space [simp]: "d < 10 \<Longrightarrow> \<not> is_space (digit_char d)"
  by (simp add: is_space_def digit_char_def)

lemma digit_char_neq:
  "d < 10 \<Longrightarrow> digit_value c = None \<Longrightarrow> digit_char d \<noteq> c"
  by (metis digit_value_digit_char option.distinct(1))

lemma digit_value_signs [simp]:
  "digit_value CHR ''-'' = None" "digit_value CHR ''+'' = None" "digit_value CHR ''.'' = None"
  "digit_value CHR ''_'' = None"
  by (simp_all add: digit_value_def)

lemma print_dec_hd: obtains d r where "print_dec n = digit_char d # r" and "d < 10"
proof -
  obtain c r where cr: "print_dec n = c # r" by (cases "print_dec n") auto
  then have "c \<in> set (print_dec n)" by simp
  with print_dec_digits [of c n] that cr show thesis by blast
qed

lemma scan_sign_print_dec [simp]:
  "scan_sign (dropWhile is_space (print_dec n)) = (False, print_dec n)"
proof -
  obtain d r where "print_dec n = digit_char d # r" "d < 10" by (rule print_dec_hd)
  then show ?thesis by (simp add: scan_sign_def digit_char_neq)
qed

lemma strtoul10_print_dec: "n \<le> ULONG_MAX \<Longrightarrow> strtoul10 (print_dec n) = word_of_nat n"
  by (simp add: strtoul10_def scan_print_dec)

text \<open>Only the number zero is printed with a leading zero.\<close>

lemma print_dec_leading_zero: "hd (print_dec n) = digit_char 0 \<Longrightarrow> n = 0"
proof (induction n rule: print_dec.induct)
  case (1 n)
  show ?case
  proof (cases "n < 10")
    case True
    with 1(2) show ?thesis by (simp add: print_dec.simps [of n]) (metis digit_char_inj zero_less_numeral)
  next
    case False
    with 1(2) have "hd (print_dec (n div 10)) = digit_char 0"
      by (simp add: print_dec.simps [of n])
    with 1(1) [OF False] False show ?thesis by simp
  qed
qed

lemma detect_base_print_dec: "0 < n \<Longrightarrow> detect_base (print_dec n) = (10, print_dec n)"
proof -
  assume n: "0 < n"
  obtain d r where cr: "print_dec n = digit_char d # r" "d < 10" by (rule print_dec_hd)
  with cr n print_dec_leading_zero [of n] digit_char_0 have "digit_char d \<noteq> CHR ''0''" by auto
  with cr show ?thesis by (auto simp: detect_base_def split: list.splits)
qed

lemma strtol0_print_dec: "int n \<le> LONG_MAX \<Longrightarrow> strtol0 (print_dec n) = int n"
proof (cases "n = 0")
  case True
  have "detect_base (print_dec 0) = (8, print_dec 0)"
    by (simp add: detect_base_def print_dec.simps digit_char_0)
  moreover have "scan_digits 8 (print_dec 0) = 0"
    by (simp add: print_dec.simps scan_digits_def)
  ultimately show ?thesis using True by (simp add: strtol0_def LONG_MAX_def)
next
  case False
  assume "int n \<le> LONG_MAX"
  with False show ?thesis by (simp add: strtol0_def detect_base_print_dec scan_print_dec)
qed

text \<open>A number followed by a character that is no digit: the scan stops there.\<close>

lemma scan_digits_stop:
  "digit_value c = None \<Longrightarrow> scan_digits 10 (print_dec n @ c # r) = n"
proof -
  assume c: "digit_value c = None"
  have all: "\<And>x. x \<in> set (print_dec n) \<Longrightarrow> digit_in 10 x" by (auto dest!: print_dec_digits)
  then have "takeWhile (digit_in 10) (print_dec n @ c # r) = takeWhile (digit_in 10) (print_dec n)"
    using c by (simp add: takeWhile_append2 digit_in_def [of _ c] takeWhile_all)
  then show ?thesis using scan_print_dec [of n] by (simp add: scan_digits_def)
qed

lemma strtol0_stop:
  assumes "digit_value c = None" and "int n \<le> LONG_MAX"
  shows "strtol0 (print_dec n @ c # r) = int n"
proof -
  obtain d s where ds: "print_dec n = digit_char d # s" "d < 10" by (rule print_dec_hd)
  have x: "c \<noteq> CHR ''x''" "c \<noteq> CHR ''X''" using assms(1) by (auto simp: digit_value_def)
  have sign: "scan_sign (dropWhile is_space (print_dec n @ c # r)) = (False, print_dec n @ c # r)"
    using ds by (simp add: scan_sign_def digit_char_neq)
  show ?thesis
  proof (cases "n = 0")
    case True
    then have p: "print_dec n = ''0''" by (simp add: print_dec.simps digit_char_0)
    have "detect_base (print_dec n @ c # r) = (8, print_dec n @ c # r)"
      using x unfolding p by (simp add: detect_base_def split: list.split)
    moreover have "scan_digits 8 (print_dec n @ c # r) = 0"
      unfolding p using assms(1) by (simp add: scan_digits_def digit_in_def digit_value_def)
    ultimately show ?thesis using sign True by (simp add: strtol0_def LONG_MAX_def)
  next
    case False
    with ds print_dec_leading_zero [of n] digit_char_0 have "digit_char d \<noteq> CHR ''0''" by auto
    with ds have "detect_base (print_dec n @ c # r) = (10, print_dec n @ c # r)"
      by (auto simp: detect_base_def split: list.splits)
    with sign scan_digits_stop [OF assms(1), of n r] assms(2) show ?thesis by (simp add: strtol0_def)
  qed
qed

section \<open>Tokens\<close>

text \<open>The first call of \<open>strtok\<close> with one delimiter: None is NULL, no token.\<close>

definition strtok_first :: "char \<Rightarrow> string \<Rightarrow> string option" where
  "strtok_first delim s =
     (let t = dropWhile (\<lambda>c. c = delim) s
      in if t = [] then None else Some (takeWhile (\<lambda>c. c \<noteq> delim) t))"

lemma strtok_first_None: "strtok_first delim s = None \<longleftrightarrow> set s \<subseteq> {delim}"
  by (auto simp: strtok_first_def Let_def)

lemma strtok_first_Some:
  assumes "strtok_first delim s = Some t"
  shows "t \<noteq> [] \<and> delim \<notin> set t \<and> set t \<subseteq> set s"
proof -
  from assms have t: "t = takeWhile (\<lambda>c. c \<noteq> delim) (dropWhile (\<lambda>c. c = delim) s)"
    and ne: "dropWhile (\<lambda>c. c = delim) s \<noteq> []" by (auto simp: strtok_first_def Let_def split: if_splits)
  have "hd (dropWhile (\<lambda>c. c = delim) s) \<noteq> delim" using hd_dropWhile [OF ne] by simp
  with t ne have "t \<noteq> []" by (cases "dropWhile (\<lambda>c. c = delim) s") auto
  moreover have "delim \<notin> set t" "set t \<subseteq> set s"
    unfolding t by (auto dest!: set_takeWhileD set_dropWhileD)
  ultimately show ?thesis by simp
qed

section \<open>IPv4 addresses\<close>

fun split_on :: "char \<Rightarrow> string \<Rightarrow> string list" where
  "split_on d [] = [[]]"
| "split_on d (c # s) =
     (if c = d then [] # split_on d s
      else (case split_on d s of [] \<Rightarrow> [[c]] | t # ts \<Rightarrow> (c # t) # ts))"

definition octet :: "string \<Rightarrow> bool" where
  "octet s \<longleftrightarrow> s \<noteq> [] \<and> length s \<le> 3 \<and> list_all (digit_in 10) s \<and>
     (1 < length s \<longrightarrow> hd s \<noteq> CHR ''0'') \<and> scan_digits 10 s \<le> 255"

text \<open>\<open>inet_pton(AF_INET, s, \<dots>)\<close>: whether \<open>s\<close> is an IPv4 address in dotted notation.\<close>

definition inet_pton4 :: "string \<Rightarrow> bool" where
  "inet_pton4 s = (case split_on CHR ''.'' s of [a, b, c, d] \<Rightarrow> octet a \<and> octet b \<and> octet c \<and> octet d | _ \<Rightarrow> False)"

text \<open>The format \<open>%d.%d.%d.%d\<close> applied to four bytes.\<close>

definition print_ip :: "u8 \<Rightarrow> u8 \<Rightarrow> u8 \<Rightarrow> u8 \<Rightarrow> string" where
  "print_ip a b c d =
     print_dec (unat a) @ ''.'' @ print_dec (unat b) @ ''.'' @ print_dec (unat c) @ ''.'' @ print_dec (unat d)"

lemma split_on_not_Nil [simp]: "split_on d s \<noteq> []"
  by (induction s) (auto split: list.splits)

lemma split_on_no_delim: "d \<notin> set s \<Longrightarrow> split_on d s = [s]"
  by (induction s) auto

lemma split_on_append: "d \<notin> set s \<Longrightarrow> split_on d (s @ d # t) = s # split_on d t"
  by (induction s) auto

lemma print_dec_no_dot [simp]: "CHR ''.'' \<notin> set (print_dec n)"
  by (auto dest!: print_dec_digits simp: digit_char_neq [symmetric])

lemma split_print_ip:
  "split_on CHR ''.'' (print_ip a b c d) =
     [print_dec (unat a), print_dec (unat b), print_dec (unat c), print_dec (unat d)]"
  by (simp add: print_ip_def split_on_append split_on_no_delim)

lemma u8_less: "unat (x :: u8) < 256"
  using unsigned_less [of x, where ?'a = nat] by simp

lemma u8_length: "length (print_dec (unat (x :: u8))) \<le> 3"
  using u8_less [of x] by (intro print_dec_length) auto

lemma octet_print_dec: "octet (print_dec (unat (x :: u8)))"
proof -
  have "hd (print_dec (unat x)) \<noteq> CHR ''0''" if "1 < length (print_dec (unat x))"
  proof
    assume "hd (print_dec (unat x)) = CHR ''0''"
    then have "unat x = 0" by (intro print_dec_leading_zero) (simp add: digit_char_0)
    with that show False by (simp add: print_dec.simps)
  qed
  then show ?thesis
    using u8_length [of x] u8_less [of x]
    by (auto simp: octet_def scan_print_dec list_all_iff dest!: print_dec_digits)
qed

lemma inet_pton4_print_ip: "inet_pton4 (print_ip a b c d)"
  by (simp add: inet_pton4_def split_print_ip octet_print_dec)

lemma inet_pton4_print_dec: "\<not> inet_pton4 (print_dec n)"
  by (simp add: inet_pton4_def split_on_no_delim)

lemma print_ip_inj: "print_ip a b c d = print_ip a' b' c' d' \<Longrightarrow> a = a' \<and> b = b' \<and> c = c' \<and> d = d'"
  by (metis list.inject scan_print_dec split_print_ip unsigned_word_eqI)

lemma print_ip_not_print_dec: "print_ip a b c d \<noteq> print_dec n"
  by (metis inet_pton4_print_dec inet_pton4_print_ip)

lemma print_ip_length: "length (print_ip a b c d) \<le> 15"
  using u8_length [of a] u8_length [of b] u8_length [of c] u8_length [of d]
  by (simp add: print_ip_def)

lemma u32_length: "length (print_dec (unat (x :: u32))) \<le> 10"
  using unsigned_less [of x, where ?'a = nat] by (intro print_dec_length) auto

lemma u16_length: "length (print_dec (unat (x :: u16))) \<le> 5"
  using unsigned_less [of x, where ?'a = nat] by (intro print_dec_length) auto

end
