(* ===== verification/AddressInstanceMap.thy ===== *)
theory AddressInstanceMap
  imports ListInterfaces CStrings
begin

text \<open>
  address_instance_map.c: the mapping from IP addresses to device instances that
  \<open>ip_to_instance\<close> fills. The address string may be NULL in principle, and the lookup checks
  for that; \<open>address_instance_map_set\<close> always stores a copy of its argument.
\<close>

record address_instance =
  aim_address :: "string option"
  aim_instance :: u32

type_synonym address_instance_map_ll = "address_instance ll"

section \<open>Operations\<close>

definition address_instance_map_get_locked :: "address_instance_map_ll \<Rightarrow> string \<Rightarrow> ptr option" where
  "address_instance_map_get_locked list address =
     ll_search (nodes list)
       (\<lambda>current. case aim_address current of None \<Rightarrow> False | Some a \<Rightarrow> a = address) (first list)"

definition address_instance_map_alloc :: address_instance_map_ll where
  "address_instance_map_alloc = ll_alloc"

definition address_instance_map_free :: "address_instance_map_ll \<Rightarrow> address_instance node heap option" where
  "address_instance_map_free list = ll_free_from (nodes list) (first list)"

definition address_instance_map_get ::
    "address_instance_map_ll option \<Rightarrow> string \<Rightarrow> (ptr \<times> address_instance_map_ll option) option" where
  "address_instance_map_get list address =
     (case list of
        None \<Rightarrow> Some (NULL, None)
      | Some list \<Rightarrow> do {
          list \<leftarrow> ll_lock list;
          aim \<leftarrow> address_instance_map_get_locked list address;
          list \<leftarrow> ll_unlock list;
          Some (aim, Some list)
        })"

definition address_instance_map_set ::
    "address_instance_map_ll \<Rightarrow> string \<Rightarrow> string \<Rightarrow> address_instance_map_ll option" where
  "address_instance_map_set list address inst = do {
     let value = \<lparr>aim_address = Some address, aim_instance = ucast (strtoul10 inst)\<rparr>;
     list \<leftarrow> ll_lock list;
     (_, list) \<leftarrow> ll_push value list;
     ll_unlock list
   }"

section \<open>Contracts\<close>

abbreviation aim_is :: "string \<Rightarrow> address_instance \<Rightarrow> bool" where
  "aim_is address \<equiv> (\<lambda>c. case aim_address c of None \<Rightarrow> False | Some a \<Rightarrow> a = address)"

definition new_aim :: "string \<times> string \<Rightarrow> address_instance" where
  "new_aim x = \<lparr>aim_address = Some (fst x), aim_instance = ucast (strtoul10 (snd x))\<rparr>"

lemma aim_is_new [simp]: "aim_is k (new_aim (a, i)) = (a = k)"
  by (simp add: new_aim_def)

lemma aim_instance_new [simp]: "aim_instance (new_aim (a, i)) = ucast (strtoul10 i)"
  by (simp add: new_aim_def)

lemma aim_address_new [simp]: "aim_address (new_aim (a, i)) = Some a"
  by (simp add: new_aim_def)

lemma address_instance_map_get_spec:
  assumes "rep l r"
  shows "address_instance_map_get (Some l) k = Some (first_match (aim_is k) r, Some l)"
proof -
  from rep_lock [OF assms] obtain l1 where l1: "ll_lock l = Some l1" "rep_locked l1 r" by blast
  then show ?thesis using rep_locked_search [OF l1(2)] lock_unlock [OF assms l1(1)]
    by (simp add: address_instance_map_get_def address_instance_map_get_locked_def)
qed

text \<open>The insertion, with the address of the new node, as the interface wants it.\<close>

definition aim_insert :: "address_instance_map_ll \<Rightarrow> string \<times> string \<Rightarrow> (ptr \<times> address_instance_map_ll) option" where
  "aim_insert list x =
     map_option (\<lambda>list'. (first list', list')) (address_instance_map_set list (fst x) (snd x))"

lemma address_instance_map_set_spec:
  assumes "rep l r"
  obtains p l' where "address_instance_map_set l a i = Some l'" and "first l' = p"
    and "rep l' ((p, new_aim (a, i)) # r)"
    and "p \<noteq> NULL" and "p \<notin> allocated (nodes l)"
    and "allocated (nodes l') = insert p (allocated (nodes l))"
    and "\<forall>q. q \<noteq> p \<longrightarrow> ll_get q l' = ll_get q l"
proof -
  from locked_push [OF assms, of "new_aim (a, i)"] obtain l1 p l2 l3 where
    l: "ll_lock l = Some l1" "ll_push (new_aim (a, i)) l1 = Some (p, l2)" "ll_unlock l2 = Some l3"
      "rep l3 ((p, new_aim (a, i)) # r)" "p \<noteq> NULL" "p \<notin> allocated (nodes l)"
      "allocated (nodes l3) = insert p (allocated (nodes l))"
      "\<forall>q. q \<noteq> p \<longrightarrow> ll_get q l3 = ll_get q l" by metis
  moreover have "first l3 = p" using l(4) by (simp add: rep_def)
  ultimately show thesis using that [of l3 p]
    by (simp add: address_instance_map_set_def new_aim_def Let_def)
qed

interpretation aim: growing_table address_instance_map_get aim_is aim_insert new_aim "\<lambda>_ _. True"
proof (unfold_locales, goal_cases)
  case (1 k)
  then show ?case by (simp add: address_instance_map_get_def)
next
  case (2 l r k)
  then show ?case by (rule address_instance_map_get_spec)
next
  case (3 l r x)
  from address_instance_map_set_spec [OF 3(1), of "fst x" "snd x"] obtain p l' where
    "address_instance_map_set l (fst x) (snd x) = Some l'" "first l' = p"
    "rep l' ((p, new_aim x) # r)" "p \<noteq> NULL" "p \<notin> allocated (nodes l)"
    "allocated (nodes l') = insert p (allocated (nodes l))"
    "\<forall>q. q \<noteq> p \<longrightarrow> ll_get q l' = ll_get q l" by (metis prod.collapse)
  then show ?case by (simp add: aim_insert_def)
qed

section \<open>Lookup after insertion\<close>

text \<open>An instance printed with \<open>%u\<close> is stored as it was.\<close>

lemma stored_instance: "aim_instance (new_aim (a, print_dec (unat (i :: u32)))) = i"
proof -
  have "unat i < 2 ^ 32" using unsigned_less [of i, where ?'a = nat] by simp
  then have "strtoul10 (print_dec (unat i)) = word_of_nat (unat i)"
    by (intro strtoul10_print_dec) (simp add: ULONG_MAX_def)
  also have "\<dots> = ucast i" by simp
  finally have "aim_instance (new_aim (a, print_dec (unat i))) = ucast (ucast i :: u64)" by simp
  also have "\<dots> = i" by (rule bit_word_eqI) (auto simp: bit_simps)
  finally show ?thesis .
qed

lemma set_then_get:
  assumes "rep l r" and "address_instance_map_set l a (print_dec (unat i)) = Some l'"
  shows "\<exists>p. address_instance_map_get (Some l') a = Some (p, Some l') \<and> p \<noteq> NULL \<and>
    map_option aim_instance (ll_get p l') = Some i"
proof -
  from address_instance_map_set_spec [OF assms(1), of a "print_dec (unat i)"] assms(2) obtain p where
    p: "rep l' ((p, new_aim (a, print_dec (unat i))) # r)" "p \<noteq> NULL" by (metis option.inject)
  have "ll_get p l' = Some (new_aim (a, print_dec (unat i)))" using rep_get [OF p(1), of p] by simp
  moreover have "address_instance_map_get (Some l') a = Some (p, Some l')"
    using address_instance_map_get_spec [OF p(1), of a] by simp
  ultimately show ?thesis using p(2) stored_instance [of a i] by simp
qed

end
