(* ===== verification/DeviceConditionMap.thy ===== *)
theory DeviceConditionMap
  imports ListInterfaces BacnetTypes
begin

text \<open>
  device_condition_map.c: one entry per thread that waits for the I-Am of a device. The
  condition variable is the record of whether it was signalled; \<open>dcm_address\<close> is the
  \<open>BACNET_ADDRESS\<close> the pointer refers to (None for NULL), the zeroed local variable of
  \<open>find_and_bind\<close> that nothing writes to.
\<close>

record device_condition =
  dcm_device_id :: u32
  dcm_condition :: bool
  dcm_mutex :: bool
  dcm_address :: "bacnet_address option"

type_synonym device_condition_map_ll = "device_condition ll"

section \<open>Operations\<close>

definition device_condition_map_get_locked :: "device_condition_map_ll \<Rightarrow> u32 \<Rightarrow> ptr option" where
  "device_condition_map_get_locked list device_id =
     ll_search (nodes list)
       (\<lambda>current. dcm_address current \<noteq> None \<and> dcm_device_id current = device_id) (first list)"

definition device_condition_map_alloc :: device_condition_map_ll where
  "device_condition_map_alloc = ll_alloc"

definition device_condition_map_free ::
    "device_condition_map_ll \<Rightarrow> device_condition node heap option" where
  "device_condition_map_free list = ll_free_from (nodes list) (first list)"

definition device_condition_map_get ::
    "device_condition_map_ll option \<Rightarrow> u32 \<Rightarrow> (ptr \<times> device_condition_map_ll option) option" where
  "device_condition_map_get list device_id =
     (case list of
        None \<Rightarrow> Some (NULL, None)
      | Some list \<Rightarrow> do {
          list \<leftarrow> ll_lock list;
          dcm \<leftarrow> device_condition_map_get_locked list device_id;
          list \<leftarrow> ll_unlock list;
          Some (dcm, Some list)
        })"

definition device_condition_map_set ::
    "device_condition_map_ll \<Rightarrow> u32 \<Rightarrow> bacnet_address option \<Rightarrow> device_condition_map_ll option" where
  "device_condition_map_set list device_id address = do {
     let value = \<lparr>dcm_device_id = device_id, dcm_condition = False, dcm_mutex = False,
                  dcm_address = address\<rparr>;
     list \<leftarrow> ll_lock list;
     (_, list) \<leftarrow> ll_push value list;
     ll_unlock list
   }"

definition device_condition_map_remove ::
    "device_condition_map_ll \<Rightarrow> u32 \<Rightarrow> (bool \<times> device_condition_map_ll) option" where
  "device_condition_map_remove list device_id = do {
     list \<leftarrow> ll_lock list;
     dcm \<leftarrow> device_condition_map_get_locked list device_id;
     if dcm = NULL then do {
       list \<leftarrow> ll_unlock list;
       Some (False, list)
     }
     else do {
       list \<leftarrow> ll_unlink dcm list;
       list \<leftarrow> ll_unlock list;
       list \<leftarrow> ll_free_node dcm list;
       Some (True, list)
     }
   }"

section \<open>Contracts\<close>

abbreviation dcm_is :: "u32 \<Rightarrow> device_condition \<Rightarrow> bool" where
  "dcm_is device_id \<equiv> (\<lambda>c. dcm_address c \<noteq> None \<and> dcm_device_id c = device_id)"

definition new_dcm :: "u32 \<times> bacnet_address option \<Rightarrow> device_condition" where
  "new_dcm x = \<lparr>dcm_device_id = fst x, dcm_condition = False, dcm_mutex = False, dcm_address = snd x\<rparr>"

lemma new_dcm_simps [simp]:
  "dcm_device_id (new_dcm (i, a)) = i" "dcm_address (new_dcm (i, a)) = a"
  "dcm_mutex (new_dcm (i, a)) = False" "dcm_condition (new_dcm (i, a)) = False"
  by (simp_all add: new_dcm_def)

lemma device_condition_map_get_spec:
  assumes "rep l r"
  shows "device_condition_map_get (Some l) k = Some (first_match (dcm_is k) r, Some l)"
proof -
  from rep_lock [OF assms] obtain l1 where l1: "ll_lock l = Some l1" "rep_locked l1 r" by blast
  then show ?thesis using rep_locked_search [OF l1(2)] lock_unlock [OF assms l1(1)]
    by (simp add: device_condition_map_get_def device_condition_map_get_locked_def)
qed

lemma device_condition_map_set_spec:
  assumes "rep l r"
  obtains p l' where "device_condition_map_set l i a = Some l'" and "first l' = p"
    and "rep l' ((p, new_dcm (i, a)) # r)"
    and "p \<noteq> NULL" and "p \<notin> allocated (nodes l)"
    and "allocated (nodes l') = insert p (allocated (nodes l))"
    and "\<forall>q. q \<noteq> p \<longrightarrow> ll_get q l' = ll_get q l"
proof -
  from locked_push [OF assms, of "new_dcm (i, a)"] obtain l1 p l2 l3 where
    l: "ll_lock l = Some l1" "ll_push (new_dcm (i, a)) l1 = Some (p, l2)" "ll_unlock l2 = Some l3"
      "rep l3 ((p, new_dcm (i, a)) # r)" "p \<noteq> NULL" "p \<notin> allocated (nodes l)"
      "allocated (nodes l3) = insert p (allocated (nodes l))"
      "\<forall>q. q \<noteq> p \<longrightarrow> ll_get q l3 = ll_get q l" by metis
  moreover have "first l3 = p" using l(4) by (simp add: rep_def)
  ultimately show thesis using that [of l3 p]
    by (simp add: device_condition_map_set_def new_dcm_def Let_def)
qed

lemma device_condition_map_remove_found:
  assumes "rep l r" and "first_match (dcm_is k) r = p" and "p \<noteq> NULL"
  shows "\<exists>l'. device_condition_map_remove l k = Some (True, l') \<and> rep l' (AList.delete p r) \<and>
    allocated (nodes l') = allocated (nodes l) - {p} \<and> (\<forall>q. q \<noteq> p \<longrightarrow> ll_get q l' = ll_get q l)"
proof -
  from first_match_Some [OF assms(2,3) rep_unlocked_distinct [OF assms(1)]] obtain d where
    "map_of r p = Some d" by blast
  from locked_unlink_free [OF assms(1) this] obtain l1 l2 l3 l4 where
    l: "ll_lock l = Some l1" "rep_locked l1 r" "ll_unlink p l1 = Some l2" "ll_unlock l2 = Some l3"
      "ll_free_node p l3 = Some l4"
    and "rep l4 (AList.delete p r)" "allocated (nodes l4) = allocated (nodes l) - {p}"
      "\<forall>q. q \<noteq> p \<longrightarrow> ll_get q l4 = ll_get q l" by metis
  then show ?thesis using assms(2,3) rep_locked_search [OF l(2)]
    by (simp add: device_condition_map_remove_def device_condition_map_get_locked_def)
qed

lemma device_condition_map_remove_absent:
  assumes "rep l r" and "first_match (dcm_is k) r = NULL"
  shows "device_condition_map_remove l k = Some (False, l)"
proof -
  from rep_lock [OF assms(1)] obtain l1 where l1: "ll_lock l = Some l1" "rep_locked l1 r" by blast
  then show ?thesis using assms(2) rep_locked_search [OF l1(2)] lock_unlock [OF assms(1) l1(1)]
    by (simp add: device_condition_map_remove_def device_condition_map_get_locked_def)
qed

definition dcm_insert :: "device_condition_map_ll \<Rightarrow> u32 \<times> bacnet_address option \<Rightarrow>
    (ptr \<times> device_condition_map_ll) option" where
  "dcm_insert list x =
     map_option (\<lambda>list'. (first list', list')) (device_condition_map_set list (fst x) (snd x))"

interpretation dcm: keyed_table device_condition_map_get dcm_is dcm_insert new_dcm "\<lambda>_ _. True"
  "\<lambda>l k. map_option snd (device_condition_map_remove l k)"
proof (unfold_locales, goal_cases)
  case (1 k)
  then show ?case by (simp add: device_condition_map_get_def)
next
  case (2 l r k)
  then show ?case by (rule device_condition_map_get_spec)
next
  case (3 l r x)
  from device_condition_map_set_spec [OF 3(1), of "fst x" "snd x"] obtain p l' where
    "device_condition_map_set l (fst x) (snd x) = Some l'" "first l' = p"
    "rep l' ((p, new_dcm x) # r)" "p \<noteq> NULL" "p \<notin> allocated (nodes l)"
    "allocated (nodes l') = insert p (allocated (nodes l))"
    "\<forall>q. q \<noteq> p \<longrightarrow> ll_get q l' = ll_get q l" by (metis prod.collapse)
  then show ?case by (simp add: dcm_insert_def)
next
  case (4 l r k p)
  from device_condition_map_remove_found [OF this] show ?case by auto
next
  case (5 l r k)
  then show ?case by (simp add: device_condition_map_remove_absent)
qed

end
