(* ===== verification/ReturnData.thy ===== *)
theory ReturnData
  imports ListInterfaces BacnetTypes
begin

text \<open>
  return_data.c: the list of calls that wait for a reply. \<open>rd_value\<close> points to the
  application value the reply carried (NULL until then), in the heap of such values.

  \<open>return_data_set\<close> clears \<open>sizeof (BACNET_READ_ACCESS_DATA)\<close> bytes from the address of the
  member \<open>value\<close>. That structure has at least the four members the sources use, an
  enumeration, a \<open>uint32_t\<close> and two pointers, so it is longer than the pointer \<open>value\<close>, and
  the member \<open>requestInvokeID\<close>, which follows \<open>value\<close> directly, is cleared with it. The
  further members are zero already.
\<close>

record return_data =
  rd_value :: ptr
  rd_requestInvokeID :: u8
  rd_targetAddress :: bacnet_address
  rd_errorDetected :: bool
  rd_condition :: bool
  rd_mutex :: bool

type_synonym return_data_ll = "return_data ll"

definition sizeof_pointer :: nat where "sizeof_pointer = 8"

definition sizeof_READ_ACCESS_DATA :: nat where
  "sizeof_READ_ACCESS_DATA = 4 + 4 + 2 * sizeof_pointer"

definition zero_return_data :: return_data where
  "zero_return_data = \<lparr>rd_value = NULL, rd_requestInvokeID = 0, rd_targetAddress = zero_address,
     rd_errorDetected = False, rd_condition = False, rd_mutex = False\<rparr>"

text \<open>
  \<open>memset (&value->value, 0, n)\<close> on a structure whose other members are zero: \<open>value\<close> lies at
  offset 0, \<open>requestInvokeID\<close> at offset \<open>sizeof_pointer\<close>.
\<close>

definition memset_value :: "nat \<Rightarrow> return_data \<Rightarrow> return_data" where
  "memset_value n d =
     d\<lparr>rd_value := (if 0 < n then NULL else rd_value d),
       rd_requestInvokeID := (if sizeof_pointer < n then 0 else rd_requestInvokeID d)\<rparr>"

section \<open>Operations\<close>

definition return_data_get_locked :: "return_data_ll \<Rightarrow> u8 \<Rightarrow> ptr option" where
  "return_data_get_locked list invoke_id =
     ll_search (nodes list) (\<lambda>current. rd_requestInvokeID current = invoke_id) (first list)"

definition return_data_remove_by_ptr_locked ::
    "return_data_ll \<Rightarrow> ptr \<Rightarrow> (bool \<times> return_data_ll) option" where
  "return_data_remove_by_ptr_locked list p =
     (if p = NULL then Some (False, list)
      else do {
        list \<leftarrow> ll_unlink p list;
        list \<leftarrow> ll_free_node p list;
        Some (True, list)
      })"

definition return_data_alloc :: return_data_ll where
  "return_data_alloc = ll_alloc"

definition return_data_free :: "return_data_ll \<Rightarrow> return_data node heap option" where
  "return_data_free list = ll_free_from (nodes list) (first list)"

definition return_data_get ::
    "return_data_ll option \<Rightarrow> u8 \<Rightarrow> (ptr \<times> return_data_ll option) option" where
  "return_data_get list invoke_id =
     (case list of
        None \<Rightarrow> Some (NULL, None)
      | Some list \<Rightarrow> do {
          list \<leftarrow> ll_lock list;
          entry \<leftarrow> return_data_get_locked list invoke_id;
          list \<leftarrow> ll_unlock list;
          Some (entry, Some list)
        })"

definition return_data_set :: "return_data_ll \<Rightarrow> u8 \<Rightarrow> (ptr \<times> return_data_ll) option" where
  "return_data_set list invoke_id = do {
     list \<leftarrow> ll_lock list;
     let value = zero_return_data\<lparr>rd_requestInvokeID := invoke_id\<rparr>;
     let value = memset_value sizeof_READ_ACCESS_DATA value;
     let value = value\<lparr>rd_condition := False, rd_mutex := False, rd_errorDetected := False\<rparr>;
     (p, list) \<leftarrow> ll_push value list;
     list \<leftarrow> ll_unlock list;
     Some (p, list)
   }"

definition return_data_remove_by_ptr ::
    "return_data_ll \<Rightarrow> ptr \<Rightarrow> (bool \<times> return_data_ll) option" where
  "return_data_remove_by_ptr list p = do {
     list \<leftarrow> ll_lock list;
     (ret, list) \<leftarrow> return_data_remove_by_ptr_locked list p;
     list \<leftarrow> ll_unlock list;
     Some (ret, list)
   }"

section \<open>Contracts\<close>

abbreviation rd_is :: "u8 \<Rightarrow> return_data \<Rightarrow> bool" where
  "rd_is invoke_id \<equiv> (\<lambda>d. rd_requestInvokeID d = invoke_id)"

lemma zero_return_data_simps [simp]:
  "rd_value zero_return_data = NULL" "rd_requestInvokeID zero_return_data = 0"
  "rd_targetAddress zero_return_data = zero_address" "rd_errorDetected zero_return_data = False"
  "rd_condition zero_return_data = False" "rd_mutex zero_return_data = False"
  by (simp_all add: zero_return_data_def)

text \<open>Every new entry is all zero: the invoke ID that was asked for is lost.\<close>

lemma set_value_zero:
  "(memset_value sizeof_READ_ACCESS_DATA (zero_return_data\<lparr>rd_requestInvokeID := i\<rparr>))
     \<lparr>rd_condition := False, rd_mutex := False, rd_errorDetected := False\<rparr> = zero_return_data"
  by (simp add: memset_value_def sizeof_READ_ACCESS_DATA_def sizeof_pointer_def zero_return_data_def)

lemma return_data_get_spec:
  assumes "rep l r"
  shows "return_data_get (Some l) k = Some (first_match (rd_is k) r, Some l)"
proof -
  from rep_lock [OF assms] obtain l1 where l1: "ll_lock l = Some l1" "rep_locked l1 r" by blast
  then show ?thesis using rep_locked_search [OF l1(2)] lock_unlock [OF assms l1(1)]
    by (simp add: return_data_get_def return_data_get_locked_def)
qed

lemma return_data_set_spec:
  assumes "rep l r"
  shows "\<exists>p l'. return_data_set l i = Some (p, l') \<and> rep l' ((p, zero_return_data) # r) \<and>
    p \<noteq> NULL \<and> p \<notin> allocated (nodes l) \<and> allocated (nodes l') = insert p (allocated (nodes l)) \<and>
    (\<forall>q. q \<noteq> p \<longrightarrow> ll_get q l' = ll_get q l)"
proof -
  from locked_push [OF assms, of zero_return_data] obtain l1 p l2 l3 where
    l: "ll_lock l = Some l1" "ll_push zero_return_data l1 = Some (p, l2)" "ll_unlock l2 = Some l3"
      "rep l3 ((p, zero_return_data) # r)" "p \<noteq> NULL" "p \<notin> allocated (nodes l)"
      "allocated (nodes l3) = insert p (allocated (nodes l))"
      "\<forall>q. q \<noteq> p \<longrightarrow> ll_get q l3 = ll_get q l" by metis
  then show ?thesis by (simp add: return_data_set_def set_value_zero Let_def)
qed

lemma return_data_remove_by_ptr_found:
  assumes "rep l r" and "map_of r p = Some d"
  shows "\<exists>l'. return_data_remove_by_ptr l p = Some (True, l') \<and> rep l' (AList.delete p r) \<and>
    allocated (nodes l') = allocated (nodes l) - {p} \<and> (\<forall>q. q \<noteq> p \<longrightarrow> ll_get q l' = ll_get q l)"
proof -
  have "p \<noteq> NULL" using rep_not_NULL [OF assms(1)] assms(2) by (force dest: map_of_SomeD)
  from locked_unlink_free_inside [OF assms] obtain l1 l2 l3 l4 where
    "ll_lock l = Some l1" "ll_unlink p l1 = Some l2" "ll_free_node p l2 = Some l3"
    "ll_unlock l3 = Some l4" "rep l4 (AList.delete p r)"
    "allocated (nodes l4) = allocated (nodes l) - {p}" "\<forall>q. q \<noteq> p \<longrightarrow> ll_get q l4 = ll_get q l" by metis
  with \<open>p \<noteq> NULL\<close> show ?thesis
    by (simp add: return_data_remove_by_ptr_def return_data_remove_by_ptr_locked_def)
qed

lemma return_data_remove_by_ptr_NULL:
  assumes "rep l r"
  shows "return_data_remove_by_ptr l NULL = Some (False, l)"
proof -
  from rep_lock [OF assms] obtain l1 where "ll_lock l = Some l1" "rep_locked l1 r" by blast
  then show ?thesis using lock_unlock [OF assms]
    by (simp add: return_data_remove_by_ptr_def return_data_remove_by_ptr_locked_def)
qed

interpretation rd: call_table return_data_get rd_is return_data_set "\<lambda>_. zero_return_data" "\<lambda>_ _. True"
  return_data_remove_by_ptr
proof (unfold_locales, goal_cases)
  case (1 k)
  then show ?case by (simp add: return_data_get_def)
next
  case (2 l r k)
  then show ?case by (rule return_data_get_spec)
next
  case (3 l r x)
  then show ?case using return_data_set_spec by blast
next
  case (4 l r p d)
  then show ?case by (rule return_data_remove_by_ptr_found)
next
  case (5 l r)
  then show ?case by (rule return_data_remove_by_ptr_NULL)
qed

end
