(* ===== verification/ListProperties.thy ===== *)
theory ListProperties
  imports AddressEntry AddressInstanceMap DeviceConditionMap ReturnData
begin

text \<open>
  The properties of the four list modules, over whole sequences of their operations where that
  is what the driver relies on.
\<close>

section \<open>The table of discovered devices\<close>

datatype ae_op = Ae_Set u32 u32 bacnet_address | Ae_Remove u32 | Ae_Pop

fun ae_op_wf :: "ae_op \<Rightarrow> bool" where
  "ae_op_wf (Ae_Set d m a) = address_wf a"
| "ae_op_wf _ = True"

fun ae_step :: "ae_op \<Rightarrow> address_entry_ll \<Rightarrow> address_entry_ll option" where
  "ae_step (Ae_Set d m a) l = map_option snd (address_entry_set l d m a)"
| "ae_step (Ae_Remove d) l = address_entry_remove l d"
| "ae_step Ae_Pop l = map_option snd (address_entry_pop l)"

fun ae_run :: "ae_op list \<Rightarrow> address_entry_ll \<Rightarrow> address_entry_ll option" where
  "ae_run [] l = Some l"
| "ae_run (x # xs) l = do { l \<leftarrow> ae_step x l; ae_run xs l }"

lemma ae_step_ok:
  assumes "table_ok l" and "ae_op_wf x"
  shows "\<exists>l'. ae_step x l = Some l' \<and> table_ok l'"
proof -
  from assms(1) obtain r where r: "rep l r" "address_table r" by (auto simp: table_ok_def)
  show ?thesis
  proof (cases x)
    case (Ae_Set d m a)
    with assms(2) have "address_wf a" by simp
    from address_entry_set_spec [OF r this, of d m] obtain p l' where
      s: "address_entry_set l d m a = Some (p, l')"
      and known: "d \<in> ae_device_id ` snd ` set r \<Longrightarrow> l' = l"
      and new: "d \<notin> ae_device_id ` snd ` set r \<Longrightarrow>
        rep l' ((p, new_entry (d, m, a)) # r) \<and> address_table ((p, new_entry (d, m, a)) # r)" by metis
    have "table_ok l'"
      using known new assms(1) by (cases "d \<in> ae_device_id ` snd ` set r") (auto simp: table_ok_def)
    with s Ae_Set show ?thesis by simp
  next
    case (Ae_Remove d)
    show ?thesis
    proof (cases "first_match (entry_is d) r = NULL")
      case True
      with ae.rem_absent [OF r(1)] Ae_Remove assms(1) show ?thesis by simp
    next
      case False
      from ae.rem_found [OF r(1) refl False] address_table_delete [OF r(2)] Ae_Remove show ?thesis
        by (fastforce simp: table_ok_def)
    qed
  next
    case Ae_Pop
    show ?thesis
    proof (cases r)
      case Nil
      with ae.pop_empty [of l] r(1) Ae_Pop assms(1) show ?thesis by simp
    next
      case (Cons y ys)
      with r ae.pop_spec [of l "fst y" "snd y" ys] Ae_Pop address_table_tl [of y ys] show ?thesis
        by (fastforce simp: table_ok_def)
    qed
  qed
qed

lemma ae_run_ok:
  "table_ok l \<Longrightarrow> list_all ae_op_wf xs \<Longrightarrow> \<exists>l'. ae_run xs l = Some l' \<and> table_ok l'"
proof (induction xs arbitrary: l)
  case (Cons x xs)
  from ae_step_ok [OF Cons.prems(1), of x] Cons.prems(2) obtain l1 where
    "ae_step x l = Some l1" "table_ok l1" by auto
  with Cons.IH [of l1] Cons.prems(2) show ?case by simp
qed simp

text \<open>
  C33. Adding a discovered device: a device that is in the table already is not added again,
  whatever its address is now, and the table and its nodes are untouched; a new device becomes
  the first entry, in a fresh node, with the flag that marks it as found by several addresses.
\<close>

theorem address_entry_set_branches:
  assumes "rep l r" and "address_table r" and "address_wf src"
  shows "\<exists>p l'. address_entry_set l device_id max_apdu src = Some (p, l') \<and>
    (if device_id \<in> ae_device_id ` snd ` set r then p = NULL \<and> l' = l
     else p \<noteq> NULL \<and> p \<notin> allocated (nodes l) \<and>
       rep l' ((p, \<lparr>ae_flags = 1, ae_device_id = device_id, ae_max_apdu = max_apdu, ae_address = src\<rparr>) # r))"
proof -
  from address_entry_set_spec [OF assms, of device_id max_apdu] obtain p l' where
    "address_entry_set l device_id max_apdu src = Some (p, l')"
    "device_id \<in> ae_device_id ` snd ` set r \<Longrightarrow> p = NULL \<and> l' = l"
    "device_id \<notin> ae_device_id ` snd ` set r \<Longrightarrow> p \<noteq> NULL \<and> p \<notin> allocated (nodes l) \<and>
      rep l' ((p, new_entry (device_id, max_apdu, src)) # r)" by metis
  then show ?thesis
    by (intro exI [of _ p] exI [of _ l']) (simp add: new_entry_def BAC_ADDRESS_MULT_def)
qed

lemma address_entry_set_branches_witness:
  "\<exists>p l'. address_entry_set address_entry_alloc 5 1476 zero_address = Some (p, l') \<and> p \<noteq> NULL \<and>
    rep l' [(p, \<lparr>ae_flags = 1, ae_device_id = 5, ae_max_apdu = 1476, ae_address = zero_address\<rparr>)]"
  using address_entry_set_branches [of address_entry_alloc "[]" zero_address 5 1476]
  by (fastforce simp: address_entry_alloc_def address_table_def)

text \<open>
  C16. Whatever sequence of insertions, removals and pops is run on the table, no operation
  dereferences an invalid pointer, frees twice or blocks on the list mutex, and the result is a
  well-formed list with no device in it twice.
\<close>

theorem address_table_invariant:
  assumes "table_ok l" and "list_all ae_op_wf xs"
  shows "\<exists>l'. ae_run xs l = Some l' \<and> table_ok l'"
  using assms by (rule ae_run_ok)

lemma address_table_invariant_witness:
  "\<exists>l'. ae_run [Ae_Set 5 1476 zero_address, Ae_Set 6 480 zero_address, Ae_Set 5 50 zero_address,
      Ae_Remove 6, Ae_Pop, Ae_Pop, Ae_Remove 5] address_entry_alloc = Some l' \<and> table_ok l'"
  by (rule address_table_invariant) simp_all

text \<open>Popping \<open>n\<close> times, as discovery does until it gets NULL: the entries obtained.\<close>

fun ae_pops :: "nat \<Rightarrow> address_entry_ll \<Rightarrow> (address_entry option list \<times> address_entry_ll) option" where
  "ae_pops 0 l = Some ([], l)"
| "ae_pops (Suc n) l = do {
     (p, l) \<leftarrow> address_entry_pop l;
     let e = ll_get p l;
     (es, l) \<leftarrow> ae_pops n l;
     Some (e # es, l)
   }"

lemma ae_pops_all:
  "rep l r \<Longrightarrow> \<exists>l'. ae_pops (Suc (length r)) l = Some (map (Some \<circ> snd) r @ [None], l') \<and> rep l' [] \<and>
     (\<forall>q. ll_get q l' = ll_get q l)"
proof (induction r arbitrary: l)
  case Nil
  have "ll_get NULL l = None" by (simp add: ll_get_def deref_def)
  with ae.pop_empty [OF Nil] Nil show ?case by simp
next
  case (Cons x r)
  obtain p d where x: "x = (p, d)" by (cases x)
  from ae.pop_spec [of l p d r] Cons.prems x obtain l1 where
    l1: "address_entry_pop l = Some (p, l1)" "rep l1 r" "\<forall>q. ll_get q l1 = ll_get q l" by blast
  from Cons.IH [OF l1(2)] obtain l2 where
    l2: "ae_pops (Suc (length r)) l1 = Some (map (Some \<circ> snd) r @ [None], l2)" "rep l2 []"
    "\<forall>q. ll_get q l2 = ll_get q l1" by blast
  have "ll_get p l = Some d" using rep_get [OF Cons.prems, of p] x by simp
  then have "ae_pops (Suc (Suc (length r))) l = Some (Some d # map (Some \<circ> snd) r @ [None], l2)"
    using l1(1,3) l2(1) unfolding ae_pops.simps(2) [of "Suc (length r)"] by (simp del: ae_pops.simps)
  with l1(3) l2(2,3) x show ?case by simp
qed

fun ae_insert_all :: "(u32 \<times> u32 \<times> bacnet_address) list \<Rightarrow> address_entry_ll \<Rightarrow> address_entry_ll option" where
  "ae_insert_all [] l = Some l"
| "ae_insert_all ((d, m, a) # xs) l = do { (_, l) \<leftarrow> address_entry_set l d m a; ae_insert_all xs l }"

lemma ae_insert_all_new:
  "rep l r \<Longrightarrow> distinct (map fst xs) \<Longrightarrow> fst ` set xs \<inter> ae_device_id ` snd ` set r = {} \<Longrightarrow>
   \<exists>l' r'. ae_insert_all xs l = Some l' \<and> rep l' r' \<and> map snd r' = rev (map new_entry xs) @ map snd r"
proof (induction xs arbitrary: l r)
  case (Cons x xs)
  obtain d m a where x: "x = (d, m, a)" by (cases x)
  from address_entry_set_new [OF Cons.prems(1), of d m a] Cons.prems(3) x obtain p l1 where
    l1: "address_entry_set l d m a = Some (p, l1)" "rep l1 ((p, new_entry x) # r)"
    by (force simp: accepts_entry_def)
  have dist: "distinct (map fst xs)" using Cons.prems(2) by simp
  have "fst ` set xs \<inter> ae_device_id ` snd ` set ((p, new_entry x) # r) = {}"
    using Cons.prems(2,3) x by auto
  from Cons.IH [OF l1(2) dist this] obtain l2 r2 where
    "ae_insert_all xs l1 = Some l2" "rep l2 r2"
    "map snd r2 = rev (map new_entry xs) @ new_entry x # map snd r" by auto
  with l1(1) x show ?case by (intro exI [of _ l2] exI [of _ r2]) simp
qed auto

text \<open>
  Discovery drains the table completely and in a fixed order: after the I-Ams of any
  different devices, as many pops return the entries newest first with the data they were
  inserted with, the next pop returns NULL, and the table is empty then.
\<close>

lemma address_table_drained:
  assumes "distinct (map fst xs)"
  shows "\<exists>l l'. ae_insert_all xs address_entry_alloc = Some l \<and>
    ae_pops (Suc (length xs)) l = Some (rev (map (Some \<circ> new_entry) xs) @ [None], l') \<and> rep l' []"
proof -
  from ae_insert_all_new [of address_entry_alloc "[]" xs] assms obtain l r where
    l: "ae_insert_all xs address_entry_alloc = Some l" "rep l r" "map snd r = rev (map new_entry xs)"
    by (auto simp: address_entry_alloc_def)
  have "length r = length xs" using arg_cong [OF l(3), of length] by simp
  moreover have "map (Some \<circ> snd) r = rev (map (Some \<circ> new_entry) xs)"
    using arg_cong [OF l(3), of "map Some"] by (simp add: rev_map)
  ultimately show ?thesis using ae_pops_all [OF l(2)] l(1) by auto
qed

lemma address_table_drained_sample:
  "\<exists>l l'. ae_insert_all [(5, 1476, zero_address), (6, 480, zero_address)] address_entry_alloc = Some l \<and>
    ae_pops 3 l = Some ([Some (new_entry (6, 480, zero_address)), Some (new_entry (5, 1476, zero_address)), None], l') \<and>
    rep l' []"
  using address_table_drained [of "[(5, 1476, zero_address), (6, 480, zero_address)]"]
  by (simp add: numeral_3_eq_3)

section \<open>The pending calls\<close>

text \<open>
  C36. \<open>return_data_set\<close> does not keep the invoke ID it is given: the new entry, which becomes
  the first one, carries invoke ID 0, so it is the entry found for 0, and a lookup of any other
  invoke ID gives what it gave before the insertion.
\<close>

theorem return_data_set_loses_id:
  assumes "rep l r"
  shows "\<exists>p l'. return_data_set l i = Some (p, l') \<and> p \<noteq> NULL \<and>
    map_option rd_requestInvokeID (ll_get p l') = Some 0 \<and>
    return_data_get (Some l') 0 = Some (p, Some l') \<and>
    (\<forall>j. j \<noteq> 0 \<longrightarrow> map_option fst (return_data_get (Some l') j) = map_option fst (return_data_get (Some l) j))"
proof -
  from return_data_set_spec [OF assms, of i] obtain p l' where
    s: "return_data_set l i = Some (p, l')" and r: "rep l' ((p, zero_return_data) # r)" "p \<noteq> NULL" by blast
  have "ll_get p l' = Some zero_return_data" using rep_get [OF r(1)] by simp
  with s r rd.get_spec [OF r(1)] rd.get_spec [OF assms] show ?thesis by fastforce
qed

lemma return_data_set_loses_id_witness:
  "\<exists>p l'. return_data_set return_data_alloc 255 = Some (p, l') \<and> p \<noteq> NULL \<and>
    return_data_get (Some l') 0 = Some (p, Some l') \<and>
    map_option fst (return_data_get (Some l') 255) = map_option fst (return_data_get (Some return_data_alloc) 255)"
  using return_data_set_loses_id [of return_data_alloc "[]" 255]
  by (fastforce simp: return_data_alloc_def)

text \<open>
  C35. Removing a pending call by its address, wherever it is in the list and whatever happened
  to its data, takes out exactly that entry and keeps the order of the rest; its node is freed,
  so that a later access through the old pointer and a second removal are both undefined.
\<close>

theorem return_data_remove_exact:
  assumes "rep l r" and "map_of r p = Some d"
  shows "\<exists>l'. return_data_remove_by_ptr l p = Some (True, l') \<and> rep l' (AList.delete p r) \<and>
    ll_get p l' = None \<and> (\<forall>q. q \<noteq> p \<longrightarrow> ll_get q l' = ll_get q l) \<and>
    return_data_remove_by_ptr l' p = None"
proof -
  from rd.remp_found [OF assms] obtain l' where
    l': "return_data_remove_by_ptr l p = Some (True, l')" "rep l' (AList.delete p r)"
    "allocated (nodes l') = allocated (nodes l) - {p}" "\<forall>q. q \<noteq> p \<longrightarrow> ll_get q l' = ll_get q l" by blast
  have d: "deref (nodes l') p = None" using l'(3) by (auto simp: deref_def allocated_def domIff)
  have "p \<noteq> NULL" using rep_not_NULL [OF assms(1)] assms(2) by (force dest: map_of_SomeD)
  from rep_lock [OF l'(2)] obtain l1 where l1: "ll_lock l' = Some l1" "nodes l1 = nodes l'" by blast
  have "ll_unlink p l1 = None"
    using d l1(2) by (cases "p = first l1") (simp_all add: ll_unlink_def ll_unlink_first_def)
  with l' d l1 \<open>p \<noteq> NULL\<close> show ?thesis
    by (auto simp: ll_get_def return_data_remove_by_ptr_def return_data_remove_by_ptr_locked_def)
qed

lemma return_data_remove_exact_witness:
  "\<exists>p l1 l2. return_data_set return_data_alloc 1 = Some (p, l1) \<and>
    return_data_remove_by_ptr l1 p = Some (True, l2) \<and> rep l2 [] \<and> return_data_remove_by_ptr l2 p = None"
proof -
  from return_data_set_spec [of return_data_alloc "[]" 1] obtain p l1 where
    l1: "return_data_set return_data_alloc 1 = Some (p, l1)" "rep l1 [(p, zero_return_data)]"
    by (auto simp: return_data_alloc_def)
  from return_data_remove_exact [OF l1(2), of p] l1(1) show ?thesis by auto
qed

section \<open>The waiting bindings\<close>

text \<open>
  Two threads that wait for the same device: removal by device number, by whichever thread,
  takes out the entry that was added last and frees it, and the older entry stays. So the thread
  that started to wait first removes the other thread's entry, whose condition variable that
  thread is still waiting on.
\<close>

lemma device_condition_remove_newest:
  assumes "rep l r" and "device_condition_map_set l i (Some a) = Some l1"
    and "device_condition_map_set l1 i (Some b) = Some l2"
  shows "\<exists>l3. device_condition_map_remove l2 i = Some (True, l3) \<and>
    rep l3 ((first l1, \<lparr>dcm_device_id = i, dcm_condition = False, dcm_mutex = False, dcm_address = Some a\<rparr>) # r) \<and>
    ll_get (first l2) l3 = None"
proof -
  from device_condition_map_set_spec [OF assms(1), of i "Some a"] assms(2)
  have r1: "rep l1 ((first l1, new_dcm (i, Some a)) # r)" by auto
  have i1: "dcm_insert l (i, Some a) = Some (first l1, l1)" "dcm_insert l1 (i, Some b) = Some (first l2, l2)"
    using assms(2,3) by (simp_all add: dcm_insert_def)
  from dcm.remove_takes_newest [OF assms(1) _ i1(1) _ i1(2), of i] obtain l3 where
    l3: "map_option snd (device_condition_map_remove l2 i) = Some l3"
    "rep l3 ((first l1, new_dcm (i, Some a)) # r)" "ll_get (first l2) l3 = None" by auto
  from device_condition_map_set_spec [OF r1, of i "Some b"] assms(3)
  have r2: "rep l2 ((first l2, new_dcm (i, Some b)) # (first l1, new_dcm (i, Some a)) # r)"
    and p: "first l2 \<noteq> NULL" by auto
  from device_condition_map_remove_found [OF r2, of i "first l2"] p l3
  show ?thesis by (auto simp: new_dcm_def)
qed

section \<open>The map from addresses to instances\<close>

text \<open>
  C32. An IP address and a device instance, printed as \<open>ip_to_instance\<close> prints them and stored,
  are found again under that address: the entry found carries the same instance, for every
  32-bit instance, through \<open>sprintf\<close> with \<open>%u\<close> and \<open>strtoul\<close>. Lookups of the other IP addresses
  are not affected.
\<close>

theorem address_instance_round_trip:
  assumes "rep m r"
  shows "\<exists>m' p. address_instance_map_set m (print_ip a b c d) (print_dec (unat i)) = Some m' \<and>
    address_instance_map_get (Some m') (print_ip a b c d) = Some (p, Some m') \<and> p \<noteq> NULL \<and>
    map_option aim_instance (ll_get p m') = Some i \<and>
    (\<forall>e f g h. (e, f, g, h) \<noteq> (a, b, c, d) \<longrightarrow>
       map_option fst (address_instance_map_get (Some m') (print_ip e f g h)) =
       map_option fst (address_instance_map_get (Some m) (print_ip e f g h)))"
proof -
  from address_instance_map_set_spec [OF assms, of "print_ip a b c d" "print_dec (unat i)"] obtain p m' where
    m': "address_instance_map_set m (print_ip a b c d) (print_dec (unat i)) = Some m'"
    "rep m' ((p, new_aim (print_ip a b c d, print_dec (unat i))) # r)" by metis
  have "\<forall>e f g h. (e, f, g, h) \<noteq> (a, b, c, d) \<longrightarrow>
       map_option fst (address_instance_map_get (Some m') (print_ip e f g h)) =
       map_option fst (address_instance_map_get (Some m) (print_ip e f g h))"
    using address_instance_map_get_spec [OF m'(2)] address_instance_map_get_spec [OF assms] print_ip_inj
    by (simp; fastforce)
  with set_then_get [OF assms m'(1)] m'(1) show ?thesis by blast
qed

lemma address_instance_round_trip_witness:
  "\<exists>m' p. address_instance_map_set address_instance_map_alloc (print_ip 10 0 0 7) (print_dec (unat (7 :: u32)))
      = Some m' \<and>
    address_instance_map_get (Some m') (print_ip 10 0 0 7) = Some (p, Some m') \<and> p \<noteq> NULL \<and>
    map_option aim_instance (ll_get p m') = Some 7"
  using address_instance_round_trip [of address_instance_map_alloc "[]" 10 0 0 7 7]
  by (fastforce simp: address_instance_map_alloc_def)

section \<open>Releasing the lists\<close>



end
