(* ===== verification/World.thy ===== *)
theory World
  imports AddressEntry DeviceConditionMap ReturnData CStrings
begin

text \<open>
  The state the driver's threads share, and the BACnet stack behind it.

  The stack is not part of the repository. Its functions that driver.c calls are the fields of
  \<open>bacnet_stack\<close>, a parameter of every definition that uses one of them; the stack's own state
  (address cache, transaction table, sockets) is an opaque type \<open>'k\<close> that they thread through.

  The globals of driver.c are NULL (None) until \<open>init_bacnet_driver\<close> has run.
\<close>

section \<open>The BACnet stack\<close>

record 'k bacnet_stack =
  address_match :: "bacnet_address \<Rightarrow> bacnet_address \<Rightarrow> bool"
  \<comment> \<open>decoded length (positive on success) and application data of a ReadProperty ACK\<close>
  rp_ack_decode_service_request :: "u8 list \<Rightarrow> int \<times> u8 list"
  \<comment> \<open>application data, its length cut to 8 bits\<close>
  bacapp_decode_application_data :: "u8 list \<Rightarrow> u8 \<Rightarrow> app_value"
  \<comment> \<open>length (-1 on failure), device, maximum APDU\<close>
  iam_decode_service_request :: "u8 list \<Rightarrow> int \<times> u32 \<times> u32"
  address_add_binding :: "u32 \<Rightarrow> u32 \<Rightarrow> bacnet_address \<Rightarrow> 'k \<Rightarrow> 'k"
  \<comment> \<open>None when the device is not bound; then the two results are not written\<close>
  address_bind_request :: "u32 \<Rightarrow> 'k \<Rightarrow> (u32 \<times> bacnet_address) option \<times> 'k"
  Send_WhoIs :: "u32 \<Rightarrow> u32 \<Rightarrow> 'k \<Rightarrow> 'k"
  Send_WhoIs_To_Network :: "bacnet_address \<Rightarrow> int \<Rightarrow> int \<Rightarrow> 'k \<Rightarrow> 'k"
  Send_Read_Property_Request :: "u32 \<Rightarrow> u32 \<Rightarrow> u32 \<Rightarrow> u32 \<Rightarrow> u32 \<Rightarrow> 'k \<Rightarrow> u8 \<times> 'k"
  Send_Write_Property_Request :: "u32 \<Rightarrow> u32 \<Rightarrow> u32 \<Rightarrow> u32 \<Rightarrow> app_value \<Rightarrow> u8 \<Rightarrow> u32 \<Rightarrow> 'k \<Rightarrow> u8 \<times> 'k"
  tsm_invoke_id_free :: "u8 \<Rightarrow> 'k \<Rightarrow> bool"
  tsm_invoke_id_failed :: "u8 \<Rightarrow> 'k \<Rightarrow> bool"
  tsm_free_invoke_id :: "u8 \<Rightarrow> 'k \<Rightarrow> 'k"
  apdu_timeout :: u16
  apdu_retries :: u8
  bip_set_port :: "u16 \<Rightarrow> 'k \<Rightarrow> 'k"
  datalink_get_broadcast_address :: bacnet_address
  \<comment> \<open>what a character string holds after it was set to a string\<close>
  characterstring_init_ansi :: "string \<Rightarrow> string"
  BACNET_MAX_INSTANCE :: u32
  PROP_PRESENT_VALUE :: u32
  PROP_OBJECT_NAME :: u32
  OBJECT_ANALOG_INPUT :: u32
  OBJECT_ANALOG_OUTPUT :: u32
  OBJECT_ANALOG_VALUE :: u32
  OBJECT_BINARY_INPUT :: u32
  OBJECT_BINARY_OUTPUT :: u32
  OBJECT_BINARY_VALUE :: u32
  OBJECT_DEVICE :: u32
  \<comment> \<open>a bit of a value read as a bit string\<close>
  bitstring_bit :: "app_value \<Rightarrow> u8 \<Rightarrow> bool"
  PROP_PROTOCOL_SERVICES_SUPPORTED :: u32
  SERVICE_SUPPORTED_READ_PROP_MULTIPLE :: u8
  SERVICE_SUPPORTED_WRITE_PROPERTY :: u8
  SERVICE_SUPPORTED_WRITE_PROP_MULTIPLE :: u8
  \<comment> \<open>selecting the serial interface, and the stack's initialisation\<close>
  RS485_Set_Interface :: "string \<Rightarrow> 'k \<Rightarrow> 'k"
  Device_Init :: "'k \<Rightarrow> 'k"
  Device_Set_Object_Instance_Number :: "u32 \<Rightarrow> 'k \<Rightarrow> 'k"
  address_init :: "'k \<Rightarrow> 'k"
  dlenv_init :: "'k \<Rightarrow> int \<times> 'k"
  datalink_cleanup :: "'k \<Rightarrow> 'k"
  datalink :: datalink

section \<open>The shared state\<close>

text \<open>An application value on the heap, with the link the list of results uses.\<close>

record value_cell =
  value_next :: ptr
  value_data :: app_value

record 'k world =
  returnDataHead :: "return_data ll option"
  deviceCondtionMapHead :: "device_condition ll option"
  addressEntryHead :: "address_entry ll option"
  app_values :: "value_cell heap"
  stk :: 'k

text \<open>A function of the stack that changes only its own state.\<close>

definition stack_call :: "('k \<Rightarrow> 'k) \<Rightarrow> 'k world \<Rightarrow> 'k world" where
  "stack_call f w = w\<lparr>stk := f (stk w)\<rparr>"

section \<open>Access to the pending calls\<close>

text \<open>Member reads and assignments through a \<open>return_data_t\<close> pointer.\<close>

definition rd_read :: "ptr \<Rightarrow> 'k world \<Rightarrow> return_data option" where
  "rd_read p w = do { l \<leftarrow> returnDataHead w; ll_get p l }"

definition rd_write :: "ptr \<Rightarrow> (return_data \<Rightarrow> return_data) \<Rightarrow> 'k world \<Rightarrow> 'k world option" where
  "rd_write p f w = do {
     l \<leftarrow> returnDataHead w;
     l \<leftarrow> ll_put p f l;
     Some (w\<lparr>returnDataHead := Some l\<rparr>)
   }"

text \<open>The entry's mutex and condition variable.\<close>

definition rd_lock :: "ptr \<Rightarrow> 'k world \<Rightarrow> 'k world option" where
  "rd_lock p w = do {
     d \<leftarrow> rd_read p w;
     if rd_mutex d then None else rd_write p (rd_mutex_update (\<lambda>_. True)) w
   }"

definition rd_unlock :: "ptr \<Rightarrow> 'k world \<Rightarrow> 'k world option" where
  "rd_unlock p w = do {
     d \<leftarrow> rd_read p w;
     if rd_mutex d then rd_write p (rd_mutex_update (\<lambda>_. False)) w else None
   }"

definition rd_signal :: "ptr \<Rightarrow> 'k world \<Rightarrow> 'k world option" where
  "rd_signal p = rd_write p (rd_condition_update (\<lambda>_. True))"

text \<open>The calls of the list module on the global list.\<close>

definition rd_get_world :: "u8 \<Rightarrow> 'k world \<Rightarrow> (ptr \<times> 'k world) option" where
  "rd_get_world invoke_id w = do {
     (p, l) \<leftarrow> return_data_get (returnDataHead w) invoke_id;
     Some (p, w\<lparr>returnDataHead := l\<rparr>)
   }"

definition rd_set_world :: "u8 \<Rightarrow> 'k world \<Rightarrow> (ptr \<times> 'k world) option" where
  "rd_set_world invoke_id w = do {
     l \<leftarrow> returnDataHead w;
     (p, l) \<leftarrow> return_data_set l invoke_id;
     Some (p, w\<lparr>returnDataHead := Some l\<rparr>)
   }"

definition rd_remove_world :: "ptr \<Rightarrow> 'k world \<Rightarrow> 'k world option" where
  "rd_remove_world p w = do {
     l \<leftarrow> returnDataHead w;
     (_, l) \<leftarrow> return_data_remove_by_ptr l p;
     Some (w\<lparr>returnDataHead := Some l\<rparr>)
   }"

definition rd_list_lock :: "'k world \<Rightarrow> 'k world option" where
  "rd_list_lock w = do {
     l \<leftarrow> returnDataHead w;
     l \<leftarrow> ll_lock l;
     Some (w\<lparr>returnDataHead := Some l\<rparr>)
   }"

definition rd_list_unlock :: "'k world \<Rightarrow> 'k world option" where
  "rd_list_unlock w = do {
     l \<leftarrow> returnDataHead w;
     l \<leftarrow> ll_unlock l;
     Some (w\<lparr>returnDataHead := Some l\<rparr>)
   }"

section \<open>Access to the waiting bindings\<close>

definition dcm_read :: "ptr \<Rightarrow> 'k world \<Rightarrow> device_condition option" where
  "dcm_read p w = do { l \<leftarrow> deviceCondtionMapHead w; ll_get p l }"

definition dcm_write :: "ptr \<Rightarrow> (device_condition \<Rightarrow> device_condition) \<Rightarrow> 'k world \<Rightarrow> 'k world option" where
  "dcm_write p f w = do {
     l \<leftarrow> deviceCondtionMapHead w;
     l \<leftarrow> ll_put p f l;
     Some (w\<lparr>deviceCondtionMapHead := Some l\<rparr>)
   }"

definition dcm_lock :: "ptr \<Rightarrow> 'k world \<Rightarrow> 'k world option" where
  "dcm_lock p w = do {
     d \<leftarrow> dcm_read p w;
     if dcm_mutex d then None else dcm_write p (dcm_mutex_update (\<lambda>_. True)) w
   }"

definition dcm_unlock :: "ptr \<Rightarrow> 'k world \<Rightarrow> 'k world option" where
  "dcm_unlock p w = do {
     d \<leftarrow> dcm_read p w;
     if dcm_mutex d then dcm_write p (dcm_mutex_update (\<lambda>_. False)) w else None
   }"

definition dcm_signal :: "ptr \<Rightarrow> 'k world \<Rightarrow> 'k world option" where
  "dcm_signal p = dcm_write p (dcm_condition_update (\<lambda>_. True))"

definition dcm_get_world :: "u32 \<Rightarrow> 'k world \<Rightarrow> (ptr \<times> 'k world) option" where
  "dcm_get_world device_id w = do {
     (p, l) \<leftarrow> device_condition_map_get (deviceCondtionMapHead w) device_id;
     Some (p, w\<lparr>deviceCondtionMapHead := l\<rparr>)
   }"

definition dcm_set_world :: "u32 \<Rightarrow> bacnet_address option \<Rightarrow> 'k world \<Rightarrow> 'k world option" where
  "dcm_set_world device_id a w = do {
     l \<leftarrow> deviceCondtionMapHead w;
     l \<leftarrow> device_condition_map_set l device_id a;
     Some (w\<lparr>deviceCondtionMapHead := Some l\<rparr>)
   }"

definition dcm_remove_world :: "u32 \<Rightarrow> 'k world \<Rightarrow> 'k world option" where
  "dcm_remove_world device_id w = do {
     l \<leftarrow> deviceCondtionMapHead w;
     (_, l) \<leftarrow> device_condition_map_remove l device_id;
     Some (w\<lparr>deviceCondtionMapHead := Some l\<rparr>)
   }"

definition ae_set_world :: "u32 \<Rightarrow> u32 \<Rightarrow> bacnet_address \<Rightarrow> 'k world \<Rightarrow> 'k world option" where
  "ae_set_world device_id max_apdu src w = do {
     l \<leftarrow> addressEntryHead w;
     (_, l) \<leftarrow> address_entry_set l device_id max_apdu src;
     Some (w\<lparr>addressEntryHead := Some l\<rparr>)
   }"

section \<open>The abstract state\<close>

text \<open>
  What the lists contain: pending calls and waiting bindings with their addresses, the devices
  discovered so far, newest first. A call in progress may hold its own entry's mutex.
\<close>

record 'k view =
  calls :: "(ptr \<times> return_data) list"
  waits :: "(ptr \<times> device_condition) list"
  table :: "address_entry list"
  vals :: "value_cell heap"
  vstk :: 'k

definition table_wf :: "address_entry list \<Rightarrow> bool" where
  "table_wf t \<longleftrightarrow> distinct (map ae_device_id t) \<and> (\<forall>e \<in> set t. address_wf (ae_address e))"

lemma table_wf_Nil [simp]: "table_wf []"
  by (simp add: table_wf_def)

lemma table_wf_iff: "table_wf (map snd r) = address_table r"
  by (auto simp: table_wf_def address_table_def)

text \<open>
  \<open>sim w A\<close>: the lists of \<open>w\<close> hold the entries of \<open>A\<close> and no list mutex is held. Every node of
  a pending call or a waiting binding that is allocated is on its list.
\<close>

definition sim :: "'k world \<Rightarrow> 'k view \<Rightarrow> bool" where
  "sim w A \<longleftrightarrow>
     (\<exists>l1 l2 l3 r3. returnDataHead w = Some l1 \<and> rep l1 (calls A) \<and>
        allocated (nodes l1) = fst ` set (calls A) \<and>
        deviceCondtionMapHead w = Some l2 \<and> rep l2 (waits A) \<and>
        allocated (nodes l2) = fst ` set (waits A) \<and>
        addressEntryHead w = Some l3 \<and> rep l3 r3 \<and> map snd r3 = table A \<and> table_wf (table A) \<and>
        app_values w = vals A \<and> heap_ok (vals A) \<and> stk w = vstk A)"

lemma sim_calls: "sim w A \<Longrightarrow>
    \<exists>l. returnDataHead w = Some l \<and> rep l (calls A) \<and> allocated (nodes l) = fst ` set (calls A)"
  by (auto simp: sim_def)

lemma sim_waits: "sim w A \<Longrightarrow>
    \<exists>l. deviceCondtionMapHead w = Some l \<and> rep l (waits A) \<and> allocated (nodes l) = fst ` set (waits A)"
  by (auto simp: sim_def)

lemma sim_set_calls: "sim w A \<Longrightarrow> rep l r \<Longrightarrow> allocated (nodes l) = fst ` set r \<Longrightarrow>
    sim (w\<lparr>returnDataHead := Some l\<rparr>) (A\<lparr>calls := r\<rparr>)"
  by (fastforce simp: sim_def)

lemma sim_set_waits: "sim w A \<Longrightarrow> rep l r \<Longrightarrow> allocated (nodes l) = fst ` set r \<Longrightarrow>
    sim (w\<lparr>deviceCondtionMapHead := Some l\<rparr>) (A\<lparr>waits := r\<rparr>)"
  by (fastforce simp: sim_def)

lemma sim_distinct: "sim w A \<Longrightarrow> distinct (map fst (calls A)) \<and> distinct (map fst (waits A))"
  by (auto simp: sim_def dest: rep_unlocked_distinct)

lemma sim_not_NULL: "sim w A \<Longrightarrow> NULL \<notin> fst ` set (calls A) \<and> NULL \<notin> fst ` set (waits A)"
  by (auto simp: sim_def dest: rep_not_NULL)

lemma sim_stack_call: "sim w A \<Longrightarrow> sim (stack_call f w) (A\<lparr>vstk := f (vstk A)\<rparr>)"
  by (fastforce simp: sim_def stack_call_def)

section \<open>The operations on the abstract state\<close>

lemma rd_read_sim: "sim w A \<Longrightarrow> map_of (calls A) p = Some d \<Longrightarrow> rd_read p w = Some d"
  by (auto simp: sim_def rd_read_def intro: rep_get)

lemma rd_write_sim:
  assumes "sim w A" and "map_of (calls A) p = Some d"
  shows "\<exists>w'. rd_write p f w = Some w' \<and> sim w' (A\<lparr>calls := AList.map_entry p f (calls A)\<rparr>)"
proof -
  from sim_calls [OF assms(1)] obtain l where
    l: "returnDataHead w = Some l" "rep l (calls A)" "allocated (nodes l) = fst ` set (calls A)" by blast
  from ll_put_spec [OF rep_heap_ok [OF l(2)] rep_entry_allocated [OF l(2) assms(2)], of f]
  obtain l' where "ll_put p f l = Some l'" "rep l' (AList.map_entry p f (calls A))"
    "allocated (nodes l') = allocated (nodes l)" using l(2) by blast
  with l sim_set_calls [OF assms(1)] show ?thesis by (simp add: rd_write_def)
qed

lemma rd_lock_sim:
  assumes "sim w A" and "map_of (calls A) p = Some d" and "\<not> rd_mutex d"
  shows "\<exists>w'. rd_lock p w = Some w' \<and>
    sim w' (A\<lparr>calls := AList.map_entry p (rd_mutex_update (\<lambda>_. True)) (calls A)\<rparr>)"
  using assms rd_write_sim [OF assms(1,2)] by (simp add: rd_lock_def rd_read_sim)

lemma rd_unlock_sim:
  assumes "sim w A" and "map_of (calls A) p = Some d" and "rd_mutex d"
  shows "\<exists>w'. rd_unlock p w = Some w' \<and>
    sim w' (A\<lparr>calls := AList.map_entry p (rd_mutex_update (\<lambda>_. False)) (calls A)\<rparr>)"
  using assms rd_write_sim [OF assms(1,2)] by (simp add: rd_unlock_def rd_read_sim)

lemma rd_signal_sim:
  assumes "sim w A" and "map_of (calls A) p = Some d"
  shows "\<exists>w'. rd_signal p w = Some w' \<and>
    sim w' (A\<lparr>calls := AList.map_entry p (rd_condition_update (\<lambda>_. True)) (calls A)\<rparr>)"
  using rd_write_sim [OF assms] by (simp add: rd_signal_def)

lemma rd_get_sim:
  assumes "sim w A"
  shows "rd_get_world i w = Some (first_match (rd_is i) (calls A), w)"
  using assms return_data_get_spec by (fastforce simp: sim_def rd_get_world_def)

lemma rd_set_sim:
  assumes "sim w A"
  shows "\<exists>p w'. rd_set_world i w = Some (p, w') \<and> sim w' (A\<lparr>calls := (p, zero_return_data) # calls A\<rparr>) \<and>
    p \<noteq> NULL \<and> p \<notin> fst ` set (calls A)"
proof -
  from sim_calls [OF assms] obtain l where
    l: "returnDataHead w = Some l" "rep l (calls A)" "allocated (nodes l) = fst ` set (calls A)" by blast
  from return_data_set_spec [OF l(2), of i] obtain p l' where
    "return_data_set l i = Some (p, l')" "rep l' ((p, zero_return_data) # calls A)"
    "allocated (nodes l') = insert p (allocated (nodes l))"
    "p \<noteq> NULL" "p \<notin> allocated (nodes l)" by blast
  with l sim_set_calls [OF assms] show ?thesis by (simp add: rd_set_world_def)
qed

lemma rd_remove_sim:
  assumes "sim w A" and "map_of (calls A) p = Some d"
  shows "\<exists>w'. rd_remove_world p w = Some w' \<and> sim w' (A\<lparr>calls := AList.delete p (calls A)\<rparr>)"
proof -
  from sim_calls [OF assms(1)] obtain l where
    l: "returnDataHead w = Some l" "rep l (calls A)" "allocated (nodes l) = fst ` set (calls A)" by blast
  from return_data_remove_by_ptr_found [OF l(2) assms(2)] obtain l' where
    "return_data_remove_by_ptr l p = Some (True, l')" "rep l' (AList.delete p (calls A))"
    "allocated (nodes l') = allocated (nodes l) - {p}" by blast
  with l sim_set_calls [OF assms(1)] show ?thesis by (auto simp: rd_remove_world_def fst_delete)
qed

lemma dcm_read_sim: "sim w A \<Longrightarrow> map_of (waits A) p = Some d \<Longrightarrow> dcm_read p w = Some d"
  by (auto simp: sim_def dcm_read_def intro: rep_get)

lemma dcm_write_sim:
  assumes "sim w A" and "map_of (waits A) p = Some d"
  shows "\<exists>w'. dcm_write p f w = Some w' \<and> sim w' (A\<lparr>waits := AList.map_entry p f (waits A)\<rparr>)"
proof -
  from sim_waits [OF assms(1)] obtain l where
    l: "deviceCondtionMapHead w = Some l" "rep l (waits A)" "allocated (nodes l) = fst ` set (waits A)" by blast
  from ll_put_spec [OF rep_heap_ok [OF l(2)] rep_entry_allocated [OF l(2) assms(2)], of f]
  obtain l' where "ll_put p f l = Some l'" "rep l' (AList.map_entry p f (waits A))"
    "allocated (nodes l') = allocated (nodes l)" using l(2) by blast
  with l sim_set_waits [OF assms(1)] show ?thesis by (simp add: dcm_write_def)
qed

lemma dcm_lock_sim:
  assumes "sim w A" and "map_of (waits A) p = Some d" and "\<not> dcm_mutex d"
  shows "\<exists>w'. dcm_lock p w = Some w' \<and>
    sim w' (A\<lparr>waits := AList.map_entry p (dcm_mutex_update (\<lambda>_. True)) (waits A)\<rparr>)"
  using assms dcm_write_sim [OF assms(1,2)] by (simp add: dcm_lock_def dcm_read_sim)

lemma dcm_unlock_sim:
  assumes "sim w A" and "map_of (waits A) p = Some d" and "dcm_mutex d"
  shows "\<exists>w'. dcm_unlock p w = Some w' \<and>
    sim w' (A\<lparr>waits := AList.map_entry p (dcm_mutex_update (\<lambda>_. False)) (waits A)\<rparr>)"
  using assms dcm_write_sim [OF assms(1,2)] by (simp add: dcm_unlock_def dcm_read_sim)

lemma dcm_signal_sim:
  assumes "sim w A" and "map_of (waits A) p = Some d"
  shows "\<exists>w'. dcm_signal p w = Some w' \<and>
    sim w' (A\<lparr>waits := AList.map_entry p (dcm_condition_update (\<lambda>_. True)) (waits A)\<rparr>)"
  using dcm_write_sim [OF assms] by (simp add: dcm_signal_def)

lemma dcm_get_sim:
  assumes "sim w A"
  shows "dcm_get_world i w = Some (first_match (dcm_is i) (waits A), w)"
  using assms device_condition_map_get_spec by (fastforce simp: sim_def dcm_get_world_def)

lemma dcm_set_sim:
  assumes "sim w A"
  shows "\<exists>p w'. dcm_set_world i a w = Some w' \<and> sim w' (A\<lparr>waits := (p, new_dcm (i, a)) # waits A\<rparr>) \<and>
    p \<noteq> NULL \<and> p \<notin> fst ` set (waits A)"
proof -
  from sim_waits [OF assms] obtain l where
    l: "deviceCondtionMapHead w = Some l" "rep l (waits A)" "allocated (nodes l) = fst ` set (waits A)" by blast
  from device_condition_map_set_spec [OF l(2), of i a] obtain p l' where
    "device_condition_map_set l i a = Some l'" "rep l' ((p, new_dcm (i, a)) # waits A)"
    "allocated (nodes l') = insert p (allocated (nodes l))"
    "p \<noteq> NULL" "p \<notin> allocated (nodes l)" by metis
  with l sim_set_waits [OF assms] show ?thesis by (auto simp: dcm_set_world_def intro!: exI [of _ p])
qed

lemma dcm_remove_sim:
  assumes "sim w A" and "first_match (dcm_is i) (waits A) = p" and "p \<noteq> NULL"
  shows "\<exists>w'. dcm_remove_world i w = Some w' \<and> sim w' (A\<lparr>waits := AList.delete p (waits A)\<rparr>)"
proof -
  from sim_waits [OF assms(1)] obtain l where
    l: "deviceCondtionMapHead w = Some l" "rep l (waits A)" "allocated (nodes l) = fst ` set (waits A)" by blast
  from device_condition_map_remove_found [OF l(2) assms(2,3)] obtain l' where
    "device_condition_map_remove l i = Some (True, l')" "rep l' (AList.delete p (waits A))"
    "allocated (nodes l') = allocated (nodes l) - {p}" by blast
  with l sim_set_waits [OF assms(1)] show ?thesis by (auto simp: dcm_remove_world_def fst_delete)
qed

text \<open>The table of discovered devices: a known device is not added again.\<close>

definition table_add :: "u32 \<Rightarrow> u32 \<Rightarrow> bacnet_address \<Rightarrow> address_entry list \<Rightarrow> address_entry list" where
  "table_add i m a t = (if i \<in> ae_device_id ` set t then t else new_entry (i, m, a) # t)"

lemma table_wf_add: "table_wf t \<Longrightarrow> address_wf a \<Longrightarrow> table_wf (table_add i m a t)"
  by (auto simp: table_wf_def table_add_def new_entry_def)

lemma ae_set_sim:
  assumes "sim w A" and "address_wf a"
  shows "\<exists>w'. ae_set_world i m a w = Some w' \<and> sim w' (A\<lparr>table := table_add i m a (table A)\<rparr>)"
proof -
  from assms(1) obtain l r where l: "addressEntryHead w = Some l" "rep l r" "map snd r = table A"
    and wf: "table_wf (table A)" by (auto simp: sim_def)
  then have ta: "address_table r" by (metis table_wf_iff)
  have ids: "ae_device_id ` snd ` set r = ae_device_id ` set (table A)"
    using l(3) [symmetric] by (simp add: image_image)
  from address_entry_set_spec [OF l(2) ta assms(2), of i m] obtain p l' where
    s: "address_entry_set l i m a = Some (p, l')"
      "i \<in> ae_device_id ` snd ` set r \<Longrightarrow> p = NULL \<and> l' = l"
      "i \<notin> ae_device_id ` snd ` set r \<Longrightarrow> rep l' ((p, new_entry (i, m, a)) # r)" by metis
  have "\<exists>r'. rep l' r' \<and> map snd r' = table_add i m a (table A)"
  proof (cases "i \<in> ae_device_id ` snd ` set r")
    case True
    with s(2) l ids show ?thesis by (auto simp: table_add_def)
  next
    case False
    with s(3) l(3) ids show ?thesis by (auto simp: table_add_def intro!: exI [of _ "(p, new_entry (i, m, a)) # r"])
  qed
  with s(1) l(1) assms(1) table_wf_add [OF wf assms(2), of i m] show ?thesis
    by (fastforce simp: sim_def ae_set_world_def)
qed

end
