(* ===== verification/Handlers.thy ===== *)
theory Handlers
  imports World
begin

text \<open>
  The handlers driver.c registers with the stack, which the receive thread runs when a message
  arrives, and their registration. Each handler is a function on the shared state; its
  \<open>view_\<close> counterpart says what it does to the lists' contents, and \<open>handle_sim\<close> is the
  simulation: on a well-formed state no handler runs into undefined behaviour and each one
  changes exactly what its counterpart says. Messages a handler only logs are left out.
\<close>

section \<open>The handlers\<close>

text \<open>What the three failure handlers share after the entry was found.\<close>

definition report_failure ::
    "'k bacnet_stack \<Rightarrow> bacnet_address \<Rightarrow> u8 \<Rightarrow> 'k world \<Rightarrow> 'k world option" where
  "report_failure ops src invoke_id w = do {
     (p, w) \<leftarrow> rd_get_world invoke_id w;
     if p \<noteq> NULL then do {
       d \<leftarrow> rd_read p w;
       w \<leftarrow> (if address_match ops (rd_targetAddress d) src
            then rd_write p (rd_errorDetected_update (\<lambda>_. True)) w else Some w);
       w \<leftarrow> rd_lock p w;
       w \<leftarrow> rd_signal p w;
       rd_unlock p w
     }
     else Some w
   }"

definition MyErrorHandler ::
    "'k bacnet_stack \<Rightarrow> bacnet_address \<Rightarrow> u8 \<Rightarrow> u32 \<Rightarrow> u32 \<Rightarrow> 'k world \<Rightarrow> 'k world option" where
  "MyErrorHandler ops src invoke_id error_class error_code w = report_failure ops src invoke_id w"

definition MyAbortHandler ::
    "'k bacnet_stack \<Rightarrow> bacnet_address \<Rightarrow> u8 \<Rightarrow> u8 \<Rightarrow> bool \<Rightarrow> 'k world \<Rightarrow> 'k world option" where
  "MyAbortHandler ops src invoke_id abort_reason server w = report_failure ops src invoke_id w"

definition MyRejectHandler ::
    "'k bacnet_stack \<Rightarrow> bacnet_address \<Rightarrow> u8 \<Rightarrow> u8 \<Rightarrow> 'k world \<Rightarrow> 'k world option" where
  "MyRejectHandler ops src invoke_id reject_reason w = report_failure ops src invoke_id w"

text \<open>\<open>src\<close> may be NULL (None) in the two acknowledgement handlers, which check for it.\<close>

definition src_matches :: "'k bacnet_stack \<Rightarrow> return_data \<Rightarrow> bacnet_address option \<Rightarrow> bool" where
  "src_matches ops d src =
     (case src of None \<Rightarrow> False | Some a \<Rightarrow> address_match ops (rd_targetAddress d) a)"

text \<open>The value decoded from a ReadProperty ACK, None if the request cannot be decoded.\<close>

definition decode_ack :: "'k bacnet_stack \<Rightarrow> u8 list \<Rightarrow> app_value option" where
  "decode_ack ops service_request =
     (let (len, app) = rp_ack_decode_service_request ops service_request
      in if 0 < len
         then Some (bacapp_decode_application_data ops app (word_of_nat (length app)))
         else None)"

definition My_Read_Property_Ack_Handler ::
    "'k bacnet_stack \<Rightarrow> u8 list \<Rightarrow> bacnet_address option \<Rightarrow> u8 \<Rightarrow> 'k world \<Rightarrow> 'k world option" where
  "My_Read_Property_Ack_Handler ops service_request src invoke_id w = do {
     (ret, w) \<leftarrow> rd_get_world invoke_id w;
     if ret \<noteq> NULL then do {
       d \<leftarrow> rd_read ret w;
       if rd_value d = NULL then do {
         w \<leftarrow> rd_lock ret w;
         w \<leftarrow> (if src_matches ops d src
              then (case decode_ack ops service_request of
                  Some v \<Rightarrow>
                    (let (p, h) = malloc \<lparr>value_next = NULL, value_data = v\<rparr> (app_values w)
                     in rd_write ret (rd_value_update (\<lambda>_. p)) (w\<lparr>app_values := h\<rparr>))
                | None \<Rightarrow> Some w)
              else Some w);
         w \<leftarrow> rd_signal ret w;
         rd_unlock ret w
       }
       else Some w
     }
     else Some w
   }"

definition my_i_am_handler ::
    "'k bacnet_stack \<Rightarrow> u8 list \<Rightarrow> bacnet_address \<Rightarrow> 'k world \<Rightarrow> 'k world option" where
  "my_i_am_handler ops service_request src w =
     (let (len, device_id, max_apdu) = iam_decode_service_request ops service_request
      in if len \<noteq> -1 then do {
           (map, w) \<leftarrow> dcm_get_world device_id w;
           if map \<noteq> NULL then do {
             d \<leftarrow> dcm_read map w;
             a \<leftarrow> dcm_address d;
             let w = (if mac_len a = 0 then stack_call (address_add_binding ops device_id max_apdu src) w
                      else w);
             w \<leftarrow> dcm_lock map w;
             w \<leftarrow> dcm_signal map w;
             dcm_unlock map w
           }
           else ae_set_world device_id max_apdu src w
         }
         else Some w)"

definition MyWritePropertySimpleAckHandler ::
    "'k bacnet_stack \<Rightarrow> bacnet_address option \<Rightarrow> u8 \<Rightarrow> 'k world \<Rightarrow> 'k world option" where
  "MyWritePropertySimpleAckHandler ops src invoke_id w = do {
     (ret, w) \<leftarrow> rd_get_world invoke_id w;
     if ret \<noteq> NULL then do {
       w \<leftarrow> rd_lock ret w;
       w \<leftarrow> rd_signal ret w;
       rd_unlock ret w
     }
     else Some w
   }"

section \<open>Registration\<close>

text \<open>
  The services of the stack, and which handler \<open>init_service_handlers\<close> puts in each slot of
  its tables. Handlers the stack itself provides are named only.
\<close>

datatype service = SERVICE_UNCONFIRMED_I_AM | SERVICE_CONFIRMED_READ_PROPERTY
  | SERVICE_CONFIRMED_WRITE_PROPERTY | SERVICE_OTHER nat

datatype handler = Handler_IAm | Handler_ReadAck | Handler_WriteAck | Handler_Error
  | Handler_Abort | Handler_Reject | Stack_Handler string

record apdu_handlers =
  unrecognized_service_handler :: "handler option"
  unconfirmed_handler :: "service \<Rightarrow> handler option"
  confirmed_handler :: "service \<Rightarrow> handler option"
  confirmed_ack_handler :: "service \<Rightarrow> handler option"
  confirmed_simple_ack_handler :: "service \<Rightarrow> handler option"
  error_handler :: "service \<Rightarrow> handler option"
  abort_handler :: "handler option"
  reject_handler :: "handler option"

definition init_service_handlers :: "apdu_handlers \<Rightarrow> apdu_handlers" where
  "init_service_handlers t =
     t\<lparr>unrecognized_service_handler := Some (Stack_Handler ''handler_unrecognized_service''),
       unconfirmed_handler := (unconfirmed_handler t)(SERVICE_UNCONFIRMED_I_AM \<mapsto> Handler_IAm),
       confirmed_handler := (confirmed_handler t)
         (SERVICE_CONFIRMED_READ_PROPERTY \<mapsto> Stack_Handler ''handler_read_property''),
       confirmed_ack_handler := (confirmed_ack_handler t)
         (SERVICE_CONFIRMED_READ_PROPERTY \<mapsto> Handler_ReadAck),
       confirmed_simple_ack_handler := (confirmed_simple_ack_handler t)
         (SERVICE_CONFIRMED_WRITE_PROPERTY \<mapsto> Handler_WriteAck),
       error_handler := (error_handler t)
         (SERVICE_CONFIRMED_READ_PROPERTY \<mapsto> Handler_Error, SERVICE_CONFIRMED_WRITE_PROPERTY \<mapsto> Handler_Error),
       abort_handler := Some Handler_Abort,
       reject_handler := Some Handler_Reject\<rparr>"

section \<open>Messages\<close>

text \<open>
  A message the stack has taken apart, by the table it looks the handler up in. The stack
  passes the source address of the datagram to every handler, so \<open>src\<close> is never NULL here.
\<close>

datatype event =
    Unconfirmed service "u8 list" bacnet_address
  | Confirmed_Ack service "u8 list" bacnet_address u8
  | Simple_Ack service bacnet_address u8
  | Error_PDU service bacnet_address u8 u32 u32
  | Abort_PDU bacnet_address u8 u8 bool
  | Reject_PDU bacnet_address u8 u8

text \<open>
  Running the registered handler. The kinds of handler have different argument types, so only
  a handler registered in its own table can be called; a slot without one drops the message.
\<close>

fun handle :: "'k bacnet_stack \<Rightarrow> apdu_handlers \<Rightarrow> event \<Rightarrow> 'k world \<Rightarrow> 'k world option" where
  "handle ops t (Unconfirmed s req src) w =
     (if unconfirmed_handler t s = Some Handler_IAm then my_i_am_handler ops req src w else Some w)"
| "handle ops t (Confirmed_Ack s req src i) w =
     (if confirmed_ack_handler t s = Some Handler_ReadAck
      then My_Read_Property_Ack_Handler ops req (Some src) i w else Some w)"
| "handle ops t (Simple_Ack s src i) w =
     (if confirmed_simple_ack_handler t s = Some Handler_WriteAck
      then MyWritePropertySimpleAckHandler ops (Some src) i w else Some w)"
| "handle ops t (Error_PDU s src i c e) w =
     (if error_handler t s = Some Handler_Error then MyErrorHandler ops src i c e w else Some w)"
| "handle ops t (Abort_PDU src i r server) w =
     (if abort_handler t = Some Handler_Abort then MyAbortHandler ops src i r server w else Some w)"
| "handle ops t (Reject_PDU src i r) w =
     (if reject_handler t = Some Handler_Reject then MyRejectHandler ops src i r w else Some w)"

fun handle_all :: "'k bacnet_stack \<Rightarrow> apdu_handlers \<Rightarrow> event list \<Rightarrow> 'k world \<Rightarrow> 'k world option" where
  "handle_all ops t [] w = Some w"
| "handle_all ops t (e # es) w = do { w \<leftarrow> handle ops t e w; handle_all ops t es w }"

text \<open>
  The loop of the receive thread. Every round reads the flag; a datagram is its source and
  bytes, empty when the receive timed out; the events are the calls \<open>npdu_handler\<close> makes for it.
\<close>

fun receive_data :: "'k bacnet_stack \<Rightarrow> apdu_handlers \<Rightarrow> (bacnet_address \<Rightarrow> u8 list \<Rightarrow> event list) \<Rightarrow>
    (bool \<times> bacnet_address \<times> u8 list) list \<Rightarrow> 'k world \<Rightarrow> 'k world option" where
  "receive_data ops t npdu [] w = Some w"
| "receive_data ops t npdu ((running, src, pdu) # rounds) w =
     (if running then do {
        w \<leftarrow> (if pdu \<noteq> [] then handle_all ops t (npdu src pdu) w else Some w);
        receive_data ops t npdu rounds w
      }
      else Some w)"

section \<open>What the handlers do to the contents\<close>

definition upd_call :: "ptr \<Rightarrow> (return_data \<Rightarrow> return_data) \<Rightarrow> 'k view \<Rightarrow> 'k view" where
  "upd_call p f A = A\<lparr>calls := AList.map_entry p f (calls A)\<rparr>"

definition upd_wait :: "ptr \<Rightarrow> (device_condition \<Rightarrow> device_condition) \<Rightarrow> 'k view \<Rightarrow> 'k view" where
  "upd_wait p f A = A\<lparr>waits := AList.map_entry p f (waits A)\<rparr>"

lemma upd_call_simps [simp]:
  "calls (upd_call p f A) = AList.map_entry p f (calls A)" "waits (upd_call p f A) = waits A"
  "table (upd_call p f A) = table A" "vals (upd_call p f A) = vals A" "vstk (upd_call p f A) = vstk A"
  by (simp_all add: upd_call_def)

lemma upd_wait_simps [simp]:
  "waits (upd_wait p f A) = AList.map_entry p f (waits A)" "calls (upd_wait p f A) = calls A"
  "table (upd_wait p f A) = table A" "vals (upd_wait p f A) = vals A" "vstk (upd_wait p f A) = vstk A"
  by (simp_all add: upd_wait_def)

lemma upd_call_comp [simp]: "upd_call p g (upd_call p f A) = upd_call p (\<lambda>d. g (f d)) A"
  by (simp add: upd_call_def)

lemma upd_wait_comp [simp]: "upd_wait p g (upd_wait p f A) = upd_wait p (\<lambda>d. g (f d)) A"
  by (simp add: upd_wait_def)

lemma upd_call_cong: "(\<And>d. map_of (calls A) p = Some d \<Longrightarrow> f d = g d) \<Longrightarrow> upd_call p f A = upd_call p g A"
  by (simp add: upd_call_def cong: map_entry_cong)

lemma upd_wait_cong: "(\<And>d. map_of (waits A) p = Some d \<Longrightarrow> f d = g d) \<Longrightarrow> upd_wait p f A = upd_wait p g A"
  by (simp add: upd_wait_def cong: map_entry_cong)

lemma upd_call_absent: "p \<notin> fst ` set (calls A) \<Longrightarrow> upd_call p f A = A"
  by (simp add: upd_call_def map_entry_not_key)

text \<open>The call or the waiting binding a message is for.\<close>

abbreviation call_for :: "u8 \<Rightarrow> 'k view \<Rightarrow> ptr" where
  "call_for i A \<equiv> first_match (rd_is i) (calls A)"

abbreviation wait_for :: "u32 \<Rightarrow> 'k view \<Rightarrow> ptr" where
  "wait_for i A \<equiv> first_match (dcm_is i) (waits A)"

definition view_failure :: "'k bacnet_stack \<Rightarrow> bacnet_address \<Rightarrow> u8 \<Rightarrow> 'k view \<Rightarrow> 'k view" where
  "view_failure ops src i A =
     upd_call (call_for i A)
       (\<lambda>d. d\<lparr>rd_errorDetected := rd_errorDetected d \<or> address_match ops (rd_targetAddress d) src,
             rd_condition := True\<rparr>) A"

definition view_write_ack :: "u8 \<Rightarrow> 'k view \<Rightarrow> 'k view" where
  "view_write_ack i A = upd_call (call_for i A) (rd_condition_update (\<lambda>_. True)) A"

definition view_read_ack ::
    "'k bacnet_stack \<Rightarrow> u8 list \<Rightarrow> bacnet_address \<Rightarrow> u8 \<Rightarrow> 'k view \<Rightarrow> 'k view" where
  "view_read_ack ops req src i A =
     (case map_of (calls A) (call_for i A) of
        None \<Rightarrow> A
      | Some d \<Rightarrow>
          if rd_value d \<noteq> NULL then A
          else (case (if address_match ops (rd_targetAddress d) src then decode_ack ops req else None) of
              None \<Rightarrow> upd_call (call_for i A) (rd_condition_update (\<lambda>_. True)) A
            | Some v \<Rightarrow>
                (let (p, h) = malloc \<lparr>value_next = NULL, value_data = v\<rparr> (vals A)
                 in (upd_call (call_for i A) (\<lambda>d. d\<lparr>rd_value := p, rd_condition := True\<rparr>) A)\<lparr>vals := h\<rparr>)))"

definition view_i_am :: "'k bacnet_stack \<Rightarrow> u8 list \<Rightarrow> bacnet_address \<Rightarrow> 'k view \<Rightarrow> 'k view" where
  "view_i_am ops req src A =
     (let (len, device_id, max_apdu) = iam_decode_service_request ops req
      in if len = -1 then A
         else (case map_of (waits A) (wait_for device_id A) of
             None \<Rightarrow> A\<lparr>table := table_add device_id max_apdu src (table A)\<rparr>
           | Some d \<Rightarrow>
               (upd_wait (wait_for device_id A) (dcm_condition_update (\<lambda>_. True)) A)
               \<lparr>vstk := (if mac_len (the (dcm_address d)) = 0
                        then address_add_binding ops device_id max_apdu src (vstk A) else vstk A)\<rparr>))"

fun view_handle :: "'k bacnet_stack \<Rightarrow> apdu_handlers \<Rightarrow> event \<Rightarrow> 'k view \<Rightarrow> 'k view" where
  "view_handle ops t (Unconfirmed s req src) A =
     (if unconfirmed_handler t s = Some Handler_IAm then view_i_am ops req src A else A)"
| "view_handle ops t (Confirmed_Ack s req src i) A =
     (if confirmed_ack_handler t s = Some Handler_ReadAck then view_read_ack ops req src i A else A)"
| "view_handle ops t (Simple_Ack s src i) A =
     (if confirmed_simple_ack_handler t s = Some Handler_WriteAck then view_write_ack i A else A)"
| "view_handle ops t (Error_PDU s src i c e) A =
     (if error_handler t s = Some Handler_Error then view_failure ops src i A else A)"
| "view_handle ops t (Abort_PDU src i r server) A =
     (if abort_handler t = Some Handler_Abort then view_failure ops src i A else A)"
| "view_handle ops t (Reject_PDU src i r) A =
     (if reject_handler t = Some Handler_Reject then view_failure ops src i A else A)"

definition view_handle_all :: "'k bacnet_stack \<Rightarrow> apdu_handlers \<Rightarrow> event list \<Rightarrow> 'k view \<Rightarrow> 'k view" where
  "view_handle_all ops t es A = fold (view_handle ops t) es A"

lemma view_handle_all_simps [simp]:
  "view_handle_all ops t [] A = A"
  "view_handle_all ops t (e # es) A = view_handle_all ops t es (view_handle ops t e A)"
  by (simp_all add: view_handle_all_def)

text \<open>The receive thread takes an entry's mutex: nobody may hold one for good.\<close>

definition quiet :: "'k view \<Rightarrow> bool" where
  "quiet A \<longleftrightarrow> (\<forall>(p, d) \<in> set (calls A). \<not> rd_mutex d) \<and> (\<forall>(p, d) \<in> set (waits A). \<not> dcm_mutex d)"

text \<open>The datalink layer hands over well-formed source addresses.\<close>

fun event_wf :: "event \<Rightarrow> bool" where
  "event_wf (Unconfirmed s req src) = address_wf src"
| "event_wf _ = True"

section \<open>Simulation\<close>

lemma quiet_call: "quiet A \<Longrightarrow> map_of (calls A) p = Some d \<Longrightarrow> \<not> rd_mutex d"
  by (auto simp: quiet_def dest: map_of_SomeD)

lemma quiet_wait: "quiet A \<Longrightarrow> map_of (waits A) p = Some d \<Longrightarrow> \<not> dcm_mutex d"
  by (auto simp: quiet_def dest: map_of_SomeD)

lemma quiet_upd_call:
  "quiet A \<Longrightarrow> (\<And>d. \<not> rd_mutex d \<Longrightarrow> \<not> rd_mutex (f d)) \<Longrightarrow> quiet (upd_call p f A)"
  by (fastforce simp: quiet_def dest!: set_map_entry map_of_SomeD)

lemma quiet_upd_wait:
  "quiet A \<Longrightarrow> (\<And>d. \<not> dcm_mutex d \<Longrightarrow> \<not> dcm_mutex (f d)) \<Longrightarrow> quiet (upd_wait p f A)"
  by (fastforce simp: quiet_def dest!: set_map_entry map_of_SomeD)

lemma quiet_other [simp]:
  "quiet (A\<lparr>vals := h\<rparr>) = quiet A" "quiet (A\<lparr>vstk := k\<rparr>) = quiet A" "quiet (A\<lparr>table := t\<rparr>) = quiet A"
  by (simp_all add: quiet_def)

lemma call_for_cases:
  assumes "sim w A"
  obtains "call_for i A = NULL" and "map_of (calls A) NULL = None" and "NULL \<notin> fst ` set (calls A)"
  | d where "call_for i A \<noteq> NULL" and "map_of (calls A) (call_for i A) = Some d"
      and "rd_requestInvokeID d = i"
proof (cases "call_for i A = NULL")
  case True
  have "NULL \<notin> fst ` set (calls A)" using sim_not_NULL [OF assms] by simp
  with True that(1) show thesis by (metis map_of_eq_None_iff)
next
  case False
  with first_match_Some [OF refl False] sim_distinct [OF assms] that(2) show thesis by blast
qed

lemma wait_for_cases:
  assumes "sim w A"
  obtains "wait_for i A = NULL" and "map_of (waits A) NULL = None"
  | d a where "wait_for i A \<noteq> NULL" and "map_of (waits A) (wait_for i A) = Some d"
      and "dcm_device_id d = i" and "dcm_address d = Some a"
proof (cases "wait_for i A = NULL")
  case True
  have "NULL \<notin> fst ` set (waits A)" using sim_not_NULL [OF assms] by simp
  with True that(1) show thesis by (metis map_of_eq_None_iff)
next
  case False
  with first_match_Some [OF refl False] sim_distinct [OF assms] that(2) show thesis by auto
qed

text \<open>Lock, signal, unlock: the only lasting effect is the signal.\<close>

lemma rd_notify_sim:
  assumes "sim w A" and "map_of (calls A) p = Some d" and "\<not> rd_mutex d"
  shows "\<exists>w1 w2 w3. rd_lock p w = Some w1 \<and> rd_signal p w1 = Some w2 \<and> rd_unlock p w2 = Some w3 \<and>
    sim w3 (upd_call p (rd_condition_update (\<lambda>_. True)) A)"
proof -
  from rd_lock_sim [OF assms] obtain w1 where
    w1: "rd_lock p w = Some w1" "sim w1 (upd_call p (rd_mutex_update (\<lambda>_. True)) A)"
    by (auto simp: upd_call_def)
  from rd_signal_sim [OF w1(2), of p] assms(2) obtain w2 where
    w2: "rd_signal p w1 = Some w2"
      "sim w2 (upd_call p (\<lambda>d. d\<lparr>rd_mutex := True, rd_condition := True\<rparr>) A)"
    by (auto simp: upd_call_def)
  from rd_unlock_sim [OF w2(2), of p] assms(2) obtain w3 where
    w3: "rd_unlock p w2 = Some w3"
      "sim w3 (upd_call p (\<lambda>d. d\<lparr>rd_condition := True, rd_mutex := False\<rparr>) A)"
    by (auto simp: upd_call_def)
  moreover have "upd_call p (\<lambda>d. d\<lparr>rd_condition := True, rd_mutex := False\<rparr>) A =
    upd_call p (rd_condition_update (\<lambda>_. True)) A"
    using assms(2,3) by (intro upd_call_cong) simp
  ultimately show ?thesis using w1 w2 by auto
qed

lemma dcm_notify_sim:
  assumes "sim w A" and "map_of (waits A) p = Some d" and "\<not> dcm_mutex d"
  shows "\<exists>w1 w2 w3. dcm_lock p w = Some w1 \<and> dcm_signal p w1 = Some w2 \<and> dcm_unlock p w2 = Some w3 \<and>
    sim w3 (upd_wait p (dcm_condition_update (\<lambda>_. True)) A)"
proof -
  from dcm_lock_sim [OF assms] obtain w1 where
    w1: "dcm_lock p w = Some w1" "sim w1 (upd_wait p (dcm_mutex_update (\<lambda>_. True)) A)"
    by (auto simp: upd_wait_def)
  from dcm_signal_sim [OF w1(2), of p] assms(2) obtain w2 where
    w2: "dcm_signal p w1 = Some w2"
      "sim w2 (upd_wait p (\<lambda>d. d\<lparr>dcm_mutex := True, dcm_condition := True\<rparr>) A)"
    by (auto simp: upd_wait_def)
  from dcm_unlock_sim [OF w2(2), of p] assms(2) obtain w3 where
    w3: "dcm_unlock p w2 = Some w3"
      "sim w3 (upd_wait p (\<lambda>d. d\<lparr>dcm_condition := True, dcm_mutex := False\<rparr>) A)"
    by (auto simp: upd_wait_def)
  moreover have "upd_wait p (\<lambda>d. d\<lparr>dcm_condition := True, dcm_mutex := False\<rparr>) A =
    upd_wait p (dcm_condition_update (\<lambda>_. True)) A"
    using assms(2,3) by (intro upd_wait_cong) simp
  ultimately show ?thesis using w1 w2 by auto
qed

lemma report_failure_sim:
  assumes "sim w A" and "quiet A"
  shows "\<exists>w'. report_failure ops src i w = Some w' \<and> sim w' (view_failure ops src i A)"
proof (cases rule: call_for_cases [OF assms(1), of i])
  case 1
  then show ?thesis using assms(1) rd_get_sim [OF assms(1), of i]
    by (simp add: report_failure_def view_failure_def upd_call_absent)
next
  case (2 d)
  let ?p = "call_for i A" and ?m = "address_match ops (rd_targetAddress d) src"
  let ?A1 = "if ?m then upd_call ?p (rd_errorDetected_update (\<lambda>_. True)) A else A"
  have "\<exists>w1. (if ?m then rd_write ?p (rd_errorDetected_update (\<lambda>_. True)) w else Some w) = Some w1 \<and>
    sim w1 ?A1"
    using rd_write_sim [OF assms(1) 2(2)] assms(1) by (auto simp: upd_call_def)
  then obtain w1 where w1: "(if ?m then rd_write ?p (rd_errorDetected_update (\<lambda>_. True)) w else Some w) = Some w1"
    "sim w1 ?A1" by blast
  have "map_of (calls ?A1) ?p = Some (if ?m then d\<lparr>rd_errorDetected := True\<rparr> else d)"
    using 2(2) by simp
  moreover have "\<not> rd_mutex (if ?m then d\<lparr>rd_errorDetected := True\<rparr> else d)"
    using quiet_call [OF assms(2) 2(2)] by simp
  ultimately obtain w2 w3 w4 where
    "rd_lock ?p w1 = Some w2" "rd_signal ?p w2 = Some w3" "rd_unlock ?p w3 = Some w4"
    "sim w4 (upd_call ?p (rd_condition_update (\<lambda>_. True)) ?A1)"
    using rd_notify_sim [OF w1(2)] by blast
  moreover have "upd_call ?p (rd_condition_update (\<lambda>_. True)) ?A1 = view_failure ops src i A"
    using 2(2) by (auto simp: view_failure_def intro!: upd_call_cong)
  ultimately show ?thesis using 2 w1(1) rd_get_sim [OF assms(1), of i] rd_read_sim [OF assms(1) 2(2)]
    by (simp add: report_failure_def)
qed

lemma write_ack_sim:
  assumes "sim w A" and "quiet A"
  shows "\<exists>w'. MyWritePropertySimpleAckHandler ops src i w = Some w' \<and> sim w' (view_write_ack i A)"
proof (cases rule: call_for_cases [OF assms(1), of i])
  case 1
  then show ?thesis using assms(1) rd_get_sim [OF assms(1), of i]
    by (simp add: MyWritePropertySimpleAckHandler_def view_write_ack_def upd_call_absent)
next
  case (2 d)
  from rd_notify_sim [OF assms(1) 2(2) quiet_call [OF assms(2) 2(2)]] show ?thesis
    using 2 rd_get_sim [OF assms(1), of i]
    by (auto simp: MyWritePropertySimpleAckHandler_def view_write_ack_def)
qed

lemma sim_vals: "sim w A \<Longrightarrow> heap_ok h \<Longrightarrow> sim (w\<lparr>app_values := h\<rparr>) (A\<lparr>vals := h\<rparr>)"
  by (fastforce simp: sim_def)

lemma sim_app_values: "sim w A \<Longrightarrow> app_values w = vals A \<and> heap_ok (vals A)"
  by (auto simp: sim_def)

lemma upd_call_vals [simp]: "upd_call p f (A\<lparr>vals := h\<rparr>) = (upd_call p f A)\<lparr>vals := h\<rparr>"
  by (simp add: upd_call_def)

text \<open>The same with a new value stored in between.\<close>

lemma rd_store_sim:
  assumes "sim w A" and d: "map_of (calls A) p = Some d" and free: "\<not> rd_mutex d" and "heap_ok h"
  obtains w1 w3 w4 w5 where "rd_lock p w = Some w1" and "app_values w1 = vals A"
    and "rd_write p (rd_value_update (\<lambda>_. q)) (w1\<lparr>app_values := h\<rparr>) = Some w3"
    and "rd_signal p w3 = Some w4" and "rd_unlock p w4 = Some w5"
    and "sim w5 ((upd_call p (\<lambda>d. d\<lparr>rd_value := q, rd_condition := True\<rparr>) A)\<lparr>vals := h\<rparr>)"
proof -
  from rd_lock_sim [OF assms(1-3)] obtain w1 where
    w1: "rd_lock p w = Some w1" "sim w1 (upd_call p (rd_mutex_update (\<lambda>_. True)) A)"
    by (auto simp: upd_call_def)
  let ?A2 = "(upd_call p (rd_mutex_update (\<lambda>_. True)) A)\<lparr>vals := h\<rparr>"
  from sim_vals [OF w1(2) assms(4)] have s2: "sim (w1\<lparr>app_values := h\<rparr>) ?A2" .
  have c2: "map_of (calls ?A2) p = Some (d\<lparr>rd_mutex := True\<rparr>)" using d by simp
  let ?A3 = "upd_call p (rd_value_update (\<lambda>_. q)) ?A2"
  from rd_write_sim [OF s2 c2, of "rd_value_update (\<lambda>_. q)"] obtain w3 where
    w3: "rd_write p (rd_value_update (\<lambda>_. q)) (w1\<lparr>app_values := h\<rparr>) = Some w3" "sim w3 ?A3"
    unfolding upd_call_def by blast
  have c3: "map_of (calls ?A3) p = Some (d\<lparr>rd_value := q, rd_mutex := True\<rparr>)" using d by simp
  let ?A4 = "upd_call p (rd_condition_update (\<lambda>_. True)) ?A3"
  from rd_signal_sim [OF w3(2) c3] obtain w4 where w4: "rd_signal p w3 = Some w4" "sim w4 ?A4"
    unfolding upd_call_def by blast
  have c4: "map_of (calls ?A4) p = Some (d\<lparr>rd_value := q, rd_condition := True, rd_mutex := True\<rparr>)"
    using d by simp
  from rd_unlock_sim [OF w4(2) c4] obtain w5 where
    w5: "rd_unlock p w4 = Some w5" "sim w5 (upd_call p (rd_mutex_update (\<lambda>_. False)) ?A4)"
    unfolding upd_call_def by auto
  moreover have "upd_call p (rd_mutex_update (\<lambda>_. False)) ?A4 =
      (upd_call p (\<lambda>d. d\<lparr>rd_value := q, rd_condition := True\<rparr>) A)\<lparr>vals := h\<rparr>"
    using d free by (auto intro!: upd_call_cong arg_cong [where f = "vals_update (\<lambda>_. h)"])
  ultimately show thesis using that w1 w3(1) w4(1) sim_app_values [OF w1(2)] by simp
qed

lemma read_ack_sim:
  assumes "sim w A" and "quiet A"
  shows "\<exists>w'. My_Read_Property_Ack_Handler ops req (Some src) i w = Some w' \<and>
    sim w' (view_read_ack ops req src i A)"
proof (cases rule: call_for_cases [OF assms(1), of i])
  case 1
  then show ?thesis using assms(1) rd_get_sim [OF assms(1), of i]
    by (simp add: My_Read_Property_Ack_Handler_def view_read_ack_def)
next
  case (2 d)
  let ?p = "call_for i A"
  let ?v = "if address_match ops (rd_targetAddress d) src then decode_ack ops req else None"
  note get = rd_get_sim [OF assms(1), of i] rd_read_sim [OF assms(1) 2(2)]
  note free = quiet_call [OF assms(2) 2(2)]
  consider "rd_value d \<noteq> NULL" | "rd_value d = NULL" "?v = None"
    | v where "rd_value d = NULL" "?v = Some v" by (cases ?v) auto
  then show ?thesis
  proof cases
    case 1
    with 2 get assms(1) show ?thesis
      by (simp add: My_Read_Property_Ack_Handler_def view_read_ack_def)
  next
    case _: 2
    from rd_notify_sim [OF assms(1) 2(2) free] show ?thesis
      using 2 get \<open>rd_value d = NULL\<close> \<open>?v = None\<close>
      by (auto simp: My_Read_Property_Ack_Handler_def view_read_ack_def src_matches_def
          split: if_splits)
  next
    case (3 v)
    obtain q h where m: "malloc \<lparr>value_next = NULL, value_data = v\<rparr> (vals A) = (q, h)" by fastforce
    have ok: "heap_ok h" using heap_ok_malloc [OF _ m] sim_app_values [OF assms(1)] by simp
    have dec: "address_match ops (rd_targetAddress d) src" "decode_ack ops req = Some v"
      using 3(2) by (auto split: if_splits)
    have view: "view_read_ack ops req src i A =
        (upd_call ?p (\<lambda>d. d\<lparr>rd_value := q, rd_condition := True\<rparr>) A)\<lparr>vals := h\<rparr>"
      using 2(2) 3(1) dec m by (simp add: view_read_ack_def)
    from rd_store_sim [OF assms(1) 2(2) free ok, of q] obtain w1 w3 w4 w5 where
      "rd_lock ?p w = Some w1" "app_values w1 = vals A"
      "rd_write ?p (rd_value_update (\<lambda>_. q)) (w1\<lparr>app_values := h\<rparr>) = Some w3"
      "rd_signal ?p w3 = Some w4" "rd_unlock ?p w4 = Some w5"
      "sim w5 (view_read_ack ops req src i A)" unfolding view .
    then show ?thesis
      using 2(1) get 3(1) dec m by (simp add: My_Read_Property_Ack_Handler_def src_matches_def)
  qed
qed

lemma i_am_sim:
  assumes "sim w A" and "quiet A" and "address_wf src"
  shows "\<exists>w'. my_i_am_handler ops req src w = Some w' \<and> sim w' (view_i_am ops req src A)"
proof -
  obtain len i m where dec: "iam_decode_service_request ops req = (len, i, m)" by (metis prod_cases3)
  show ?thesis
  proof (cases "len = -1")
    case True
    with dec assms(1) show ?thesis by (simp add: my_i_am_handler_def view_i_am_def)
  next
    case False
    note get = dcm_get_sim [OF assms(1), of i]
    show ?thesis
    proof (cases rule: wait_for_cases [OF assms(1), of i])
      case 1
      with ae_set_sim [OF assms(1,3), of i m] get dec False show ?thesis
        by (simp add: my_i_am_handler_def view_i_am_def)
    next
      case (2 d a)
      let ?f = "address_add_binding ops i m src"
      define w1 where "w1 = (if mac_len a = 0 then stack_call ?f w else w)"
      define A1 where "A1 = (if mac_len a = 0 then A\<lparr>vstk := ?f (vstk A)\<rparr> else A)"
      have s1: "sim w1 A1" using assms(1) sim_stack_call [OF assms(1), of ?f]
        by (simp add: w1_def A1_def)
      have "map_of (waits A1) (wait_for i A) = Some d" using 2 by (simp add: A1_def)
      from dcm_notify_sim [OF s1 this quiet_wait [OF assms(2) 2(2)]] obtain w2 w3 w4 where
        "dcm_lock (wait_for i A) w1 = Some w2" "dcm_signal (wait_for i A) w2 = Some w3"
        "dcm_unlock (wait_for i A) w3 = Some w4"
        "sim w4 (upd_wait (wait_for i A) (dcm_condition_update (\<lambda>_. True)) A1)" by blast
      moreover have "upd_wait (wait_for i A) (dcm_condition_update (\<lambda>_. True)) A1 =
          view_i_am ops req src A"
        using 2 dec False by (simp add: view_i_am_def A1_def upd_wait_def)
      ultimately show ?thesis
        using 2 get dec False dcm_read_sim [OF assms(1) 2(2)]
        by (simp add: my_i_am_handler_def w1_def)
    qed
  qed
qed

lemma quiet_view_handle: "quiet A \<Longrightarrow> quiet (view_handle ops t e A)"
proof (cases e)
  case (Unconfirmed s req src)
  assume "quiet A"
  with Unconfirmed show ?thesis
    by (auto simp: view_i_am_def split: prod.splits option.splits intro: quiet_upd_wait)
next
  case (Confirmed_Ack s req src i)
  assume "quiet A"
  with Confirmed_Ack show ?thesis
    by (auto simp: view_read_ack_def malloc_def split: option.splits intro: quiet_upd_call)
qed (auto simp: view_failure_def view_write_ack_def intro: quiet_upd_call)

lemma handle_sim:
  assumes "sim w A" and "quiet A" and "event_wf e"
  shows "\<exists>w'. handle ops t e w = Some w' \<and> sim w' (view_handle ops t e A)"
  using assms report_failure_sim [OF assms(1,2)] write_ack_sim [OF assms(1,2)]
    read_ack_sim [OF assms(1,2)] i_am_sim [OF assms(1,2)]
  by (cases e) (auto simp: MyErrorHandler_def MyAbortHandler_def MyRejectHandler_def)

lemma handle_all_sim:
  "sim w A \<Longrightarrow> quiet A \<Longrightarrow> list_all event_wf es \<Longrightarrow>
   \<exists>w'. handle_all ops t es w = Some w' \<and> sim w' (view_handle_all ops t es A) \<and>
     quiet (view_handle_all ops t es A)"
proof (induction es arbitrary: w A)
  case (Cons e es)
  from handle_sim [OF Cons.prems(1,2), of e] Cons.prems(3) obtain w1 where
    w1: "handle ops t e w = Some w1" "sim w1 (view_handle ops t e A)" by auto
  with Cons.IH [OF w1(2) quiet_view_handle [OF Cons.prems(2)]] Cons.prems(3) show ?case by simp
qed simp

end
