(* ===== verification/Requests.thy ===== *)
theory Requests
  imports Handlers
begin

text \<open>
  The calls of driver.c that talk to a device: binding to it, reading and writing a property,
  and the Who-Is to all devices.

  A thread that waits on a condition variable gives up the mutex, and the receive thread runs
  handlers meanwhile; which ones is a parameter (\<open>call_env\<close>). The code ignores the result of
  \<open>pthread_cond_timedwait\<close>, so a signal, a spurious wake-up and the timeout look the same to it:
  the events say all that the wait can change. \<open>call_env\<close> also holds the two readings of the
  clock in \<open>find_and_bind\<close>.
\<close>

record call_env =
  bind_events :: "event list"
  reply_events :: "event list"
  last_seconds :: int
  current_seconds :: int

definition htons :: "u16 \<Rightarrow> u16" where
  "htons x = or (push_bit 8 x) (drop_bit 8 x)"

text \<open>\<open>(apdu_timeout () / 1000) * apdu_retries ()\<close>\<close>

definition timeout_seconds :: "'k bacnet_stack \<Rightarrow> int" where
  "timeout_seconds ops = (uint (apdu_timeout ops) div 1000) * uint (apdu_retries ops)"

section \<open>Waiting\<close>

definition rd_timedwait ::
    "'k bacnet_stack \<Rightarrow> apdu_handlers \<Rightarrow> event list \<Rightarrow> ptr \<Rightarrow> 'k world \<Rightarrow> 'k world option" where
  "rd_timedwait ops t es p w = do {
     w \<leftarrow> rd_unlock p w;
     w \<leftarrow> handle_all ops t es w;
     rd_lock p w
   }"

definition dcm_timedwait ::
    "'k bacnet_stack \<Rightarrow> apdu_handlers \<Rightarrow> event list \<Rightarrow> ptr \<Rightarrow> 'k world \<Rightarrow> 'k world option" where
  "dcm_timedwait ops t es p w = do {
     w \<leftarrow> dcm_unlock p w;
     w \<leftarrow> handle_all ops t es w;
     dcm_lock p w
   }"

section \<open>Binding\<close>

text \<open>\<open>address_bind_request (deviceInstance, &max_apdu, &data->targetAddress)\<close>\<close>

definition bind_request :: "'k bacnet_stack \<Rightarrow> u32 \<Rightarrow> ptr \<Rightarrow> 'k world \<Rightarrow> (bool \<times> 'k world) option" where
  "bind_request ops deviceInstance data w =
     (let (found, k) = address_bind_request ops deviceInstance (stk w); w = w\<lparr>stk := k\<rparr>
      in case found of
           None \<Rightarrow> Some (False, w)
         | Some (max_apdu, a) \<Rightarrow> do {
             w \<leftarrow> rd_write data (rd_targetAddress_update (\<lambda>_. a)) w;
             Some (True, w)
           })"

text \<open>What \<open>find_and_bind\<close> does after the wait, with the time that went by until the Who-Is.\<close>

definition rebind ::
    "'k bacnet_stack \<Rightarrow> int \<Rightarrow> ptr \<Rightarrow> u32 \<Rightarrow> 'k world \<Rightarrow> (bool \<times> 'k world) option" where
  "rebind ops elapsed data deviceInstance w = do {
     (found, w) \<leftarrow> bind_request ops deviceInstance data w;
     d \<leftarrow> rd_read data w;
     let i = rd_requestInvokeID d;
     if found then
       (if i = 0 then Some (True, w)
        else if tsm_invoke_id_free ops i (stk w) then Some (False, w)
        else if tsm_invoke_id_failed ops i (stk w) then do {
          w \<leftarrow> rd_write data (rd_errorDetected_update (\<lambda>_. True))
                (stack_call (tsm_free_invoke_id ops i) w);
          Some (False, w)
        }
        else Some (False, w))
     else
       (if timeout_seconds ops < elapsed then do {
          w \<leftarrow> rd_write data (rd_errorDetected_update (\<lambda>_. True)) w;
          Some (False, w)
        }
        else Some (False, w))
   }"

definition find_and_bind ::
    "'k bacnet_stack \<Rightarrow> apdu_handlers \<Rightarrow> call_env \<Rightarrow> ptr \<Rightarrow> u16 \<Rightarrow> u32 \<Rightarrow> 'k world \<Rightarrow>
     (bool \<times> 'k world) option" where
  "find_and_bind ops t env data port deviceInstance w =
     (if BACNET_MAX_INSTANCE ops < deviceInstance then Some (False, w)
      else do {
        let w = (if datalink ops = BACDL_BIP then stack_call (bip_set_port ops (htons port)) w else w);
        (found, w) \<leftarrow> bind_request ops deviceInstance data w;
        if found then Some (True, w)
        else do {
          w \<leftarrow> dcm_set_world deviceInstance (Some zero_address) w;
          (m, w) \<leftarrow> dcm_get_world deviceInstance w;
          w \<leftarrow> dcm_lock m w;
          let w = stack_call (Send_WhoIs ops deviceInstance deviceInstance) w;
          w \<leftarrow> dcm_timedwait ops t (bind_events env) m w;
          w \<leftarrow> dcm_unlock m w;
          w \<leftarrow> dcm_remove_world deviceInstance w;
          d \<leftarrow> rd_read data w;
          if rd_errorDetected d then Some (False, w)
          else rebind ops (current_seconds env - last_seconds env) data deviceInstance w
        }
      })"

section \<open>Waiting for the reply\<close>

text \<open>The caller holds the entry's mutex; the local clock variables are never set.\<close>

definition wait_for_data ::
    "'k bacnet_stack \<Rightarrow> apdu_handlers \<Rightarrow> call_env \<Rightarrow> ptr \<Rightarrow> 'k world \<Rightarrow> (bool \<times> 'k world) option" where
  "wait_for_data ops t env data w = do {
     let current = (0 :: int);
     let last = (0 :: int);
     let elapsed = (0 :: int);
     w \<leftarrow> rd_timedwait ops t (reply_events env) data w;
     w \<leftarrow> rd_unlock data w;
     d \<leftarrow> rd_read data w;
     if rd_errorDetected d then Some (False, w)
     else do {
       let elapsed = elapsed + (current - last);
       if timeout_seconds ops < elapsed then do {
         w \<leftarrow> rd_write data (rd_errorDetected_update (\<lambda>_. True)) w;
         Some (False, w)
       }
       else Some (True, w)
     }
   }"

section \<open>Reading and writing a property\<close>

definition bacnetReadProperty ::
    "'k bacnet_stack \<Rightarrow> apdu_handlers \<Rightarrow> call_env \<Rightarrow> u32 \<Rightarrow> u32 \<Rightarrow> u32 \<Rightarrow> u32 \<Rightarrow> u32 \<Rightarrow> u16 \<Rightarrow>
     'k world \<Rightarrow> (ptr \<times> 'k world) option" where
  "bacnetReadProperty ops t env deviceInstance typ inst property index port w = do {
     (data, w) \<leftarrow> rd_set_world 0 w;
     (bound, w) \<leftarrow> find_and_bind ops t env data port deviceInstance w;
     if \<not> bound then do {
       w \<leftarrow> rd_remove_world data w;
       Some (NULL, w)
     }
     else do {
       w \<leftarrow> rd_lock data w;
       w \<leftarrow> rd_list_lock w;
       let (i, k) = Send_Read_Property_Request ops deviceInstance typ inst property index (stk w);
       w \<leftarrow> rd_write data (rd_requestInvokeID_update (\<lambda>_. i)) (w\<lparr>stk := k\<rparr>);
       w \<leftarrow> rd_list_unlock w;
       (_, w) \<leftarrow> wait_for_data ops t env data w;
       d \<leftarrow> rd_read data w;
       let ret = rd_value d;
       w \<leftarrow> rd_remove_world data w;
       Some (ret, w)
     }
   }"

definition bacnetWriteProperty ::
    "'k bacnet_stack \<Rightarrow> apdu_handlers \<Rightarrow> call_env \<Rightarrow> u32 \<Rightarrow> u32 \<Rightarrow> u32 \<Rightarrow> u32 \<Rightarrow> u32 \<Rightarrow> u16 \<Rightarrow> u8 \<Rightarrow>
     app_value \<Rightarrow> 'k world \<Rightarrow> (int \<times> 'k world) option" where
  "bacnetWriteProperty ops t env deviceInstance typ inst property index port priority val w = do {
     (data, w) \<leftarrow> rd_set_world 0 w;
     w \<leftarrow> rd_write data (rd_errorDetected_update (\<lambda>_. False)) w;
     (bound, w) \<leftarrow> find_and_bind ops t env data port deviceInstance w;
     if \<not> bound then do {
       w \<leftarrow> rd_remove_world data w;
       Some (1, w)
     }
     else do {
       w \<leftarrow> rd_lock data w;
       w \<leftarrow> rd_list_lock w;
       let (i, k) = Send_Write_Property_Request ops deviceInstance typ inst property val priority index
                      (stk w);
       w \<leftarrow> rd_write data (rd_requestInvokeID_update (\<lambda>_. i)) (w\<lparr>stk := k\<rparr>);
       w \<leftarrow> rd_list_unlock w;
       (ok, w) \<leftarrow> wait_for_data ops t env data w;
       if \<not> ok then Some (1, w)
       else do {
         w \<leftarrow> rd_remove_world data w;
         Some (0, w)
       }
     }
   }"

text \<open>Who-Is to every device. The result is the global table itself.\<close>

definition bacnetWhoIs ::
    "'k bacnet_stack \<Rightarrow> apdu_handlers \<Rightarrow> call_env \<Rightarrow> 'k world \<Rightarrow>
     (address_entry ll option \<times> 'k world) option" where
  "bacnetWhoIs ops t env w = do {
     (data, w) \<leftarrow> rd_set_world 255 w;
     w \<leftarrow> rd_write data (rd_errorDetected_update (\<lambda>_. False)) w;
     let dest = datalink_get_broadcast_address ops;
     let w = (if datalink ops = BACDL_BIP then stack_call (bip_set_port ops (htons 0xBAC0)) w else w);
     w \<leftarrow> rd_lock data w;
     let w = stack_call (Send_WhoIs_To_Network ops dest (-1) (-1)) w;
     w \<leftarrow> rd_timedwait ops t (reply_events env) data w;
     w \<leftarrow> rd_unlock data w;
     w \<leftarrow> rd_remove_world data w;
     Some (addressEntryHead w, w)
   }"

section \<open>What handlers leave alone\<close>

text \<open>
  Handlers never add or remove a call, and never change the invoke ID or the address a call
  is matched by; the same for waiting bindings.
\<close>

definition call_key :: "return_data \<Rightarrow> u8 \<times> bacnet_address" where
  "call_key d = (rd_requestInvokeID d, rd_targetAddress d)"

definition wait_key :: "device_condition \<Rightarrow> u32 \<times> bacnet_address option" where
  "wait_key d = (dcm_device_id d, dcm_address d)"

abbreviation call_keys :: "'k view \<Rightarrow> (ptr \<times> u8 \<times> bacnet_address) list" where
  "call_keys A \<equiv> map (\<lambda>(p, d). (p, call_key d)) (calls A)"

abbreviation wait_keys :: "'k view \<Rightarrow> (ptr \<times> u32 \<times> bacnet_address option) list" where
  "wait_keys A \<equiv> map (\<lambda>(p, d). (p, wait_key d)) (waits A)"

lemma map_key_map_entry:
  "(\<And>d. key (f d) = key d) \<Longrightarrow>
   map (\<lambda>(p, d). (p, key d)) (AList.map_entry q f r) = map (\<lambda>(p, d). (p, key d)) r"
  by (induction r) auto

lemma call_keys_view_handle: "call_keys (view_handle ops t e A) = call_keys A"
  by (cases e) (auto simp: view_i_am_def view_read_ack_def view_failure_def view_write_ack_def
      call_key_def malloc_def map_key_map_entry split: prod.splits option.splits)

lemma wait_keys_view_handle: "wait_keys (view_handle ops t e A) = wait_keys A"
  by (cases e) (auto simp: view_i_am_def view_read_ack_def view_failure_def view_write_ack_def
      wait_key_def malloc_def map_key_map_entry split: prod.splits option.splits)

lemma call_keys_view_handle_all: "call_keys (view_handle_all ops t es A) = call_keys A"
  by (induction es arbitrary: A) (simp_all add: call_keys_view_handle)

lemma wait_keys_view_handle_all: "wait_keys (view_handle_all ops t es A) = wait_keys A"
  by (induction es arbitrary: A) (simp_all add: wait_keys_view_handle)

lemma keys_map_of:
  assumes "map (\<lambda>(p, d). (p, key d)) r = map (\<lambda>(p, d). (p, key d)) r'"
  shows "map_option key (map_of r p) = map_option key (map_of r' p)"
proof -
  have "map_of (map (\<lambda>(p, d). (p, key d)) r) p = map_of (map (\<lambda>(p, d). (p, key d)) r') p"
    by (simp only: assms)
  then show ?thesis by (simp add: map_of_map)
qed

lemma keys_fst:
  assumes "map (\<lambda>(p, d). (p, key d)) r = map (\<lambda>(p, d). (p, key d)) r'"
  shows "map fst r = map fst r'"
proof -
  have "map fst (map (\<lambda>(p, d). (p, key d)) r) = map fst (map (\<lambda>(p, d). (p, key d)) r')"
    by (simp only: assms)
  then show ?thesis by (simp add: comp_def case_prod_unfold)
qed

text \<open>A search by key finds the same address before and after.\<close>

lemma keys_first_match:
  "map (\<lambda>(p, d). (p, key d)) r = map (\<lambda>(p, d). (p, key d)) r' \<Longrightarrow>
   first_match (\<lambda>d. P (key d)) r = first_match (\<lambda>d. P (key d)) r'"
proof (induction r arbitrary: r')
  case (Cons x r)
  then show ?case by (cases x; cases r') auto
qed simp

section \<open>Binding, on the contents\<close>

definition view_bind_request :: "'k bacnet_stack \<Rightarrow> u32 \<Rightarrow> ptr \<Rightarrow> 'k view \<Rightarrow> bool \<times> 'k view" where
  "view_bind_request ops dev p A =
     (let (found, k) = address_bind_request ops dev (vstk A); A = A\<lparr>vstk := k\<rparr>
      in case found of
           None \<Rightarrow> (False, A)
         | Some (m, a) \<Rightarrow> (True, upd_call p (rd_targetAddress_update (\<lambda>_. a)) A))"

text \<open>What a Who-Is for one device does while entry \<open>q\<close> waits: the handlers run, \<open>q\<close> is gone after.\<close>

definition view_whois_one ::
    "'k bacnet_stack \<Rightarrow> apdu_handlers \<Rightarrow> event list \<Rightarrow> u32 \<Rightarrow> ptr \<Rightarrow> 'k view \<Rightarrow> 'k view" where
  "view_whois_one ops t es dev q A =
     (let A = A\<lparr>waits := (q, new_dcm (dev, Some zero_address)) # waits A,
                vstk := Send_WhoIs ops dev dev (vstk A)\<rparr>;
          A = view_handle_all ops t es A
      in A\<lparr>waits := AList.delete q (waits A)\<rparr>)"

definition view_set_port :: "'k bacnet_stack \<Rightarrow> u16 \<Rightarrow> 'k view \<Rightarrow> 'k view" where
  "view_set_port ops port A =
     (if datalink ops = BACDL_BIP then A\<lparr>vstk := bip_set_port ops (htons port) (vstk A)\<rparr> else A)"

definition view_error :: "ptr \<Rightarrow> 'k view \<Rightarrow> 'k view" where
  "view_error p A = upd_call p (rd_errorDetected_update (\<lambda>_. True)) A"

definition has_error :: "ptr \<Rightarrow> 'k view \<Rightarrow> bool" where
  "has_error p A = (case map_of (calls A) p of None \<Rightarrow> False | Some d \<Rightarrow> rd_errorDetected d)"

definition view_find_and_bind ::
    "'k bacnet_stack \<Rightarrow> apdu_handlers \<Rightarrow> call_env \<Rightarrow> ptr \<Rightarrow> u16 \<Rightarrow> u32 \<Rightarrow> ptr \<Rightarrow> 'k view \<Rightarrow> bool \<times> 'k view"
  where
  "view_find_and_bind ops t env p port dev q A =
     (if BACNET_MAX_INSTANCE ops < dev then (False, A)
      else let (found, A) = view_bind_request ops dev p (view_set_port ops port A)
        in if found then (True, A)
           else let A = view_whois_one ops t (bind_events env) dev q A
             in if has_error p A then (False, A)
                else let (found, A) = view_bind_request ops dev p A
                  in if found then (True, A)
                     else if timeout_seconds ops < current_seconds env - last_seconds env
                     then (False, view_error p A) else (False, A))"

lemma upd_call_vstk: "upd_call p f (A\<lparr>vstk := k\<rparr>) = (upd_call p f A)\<lparr>vstk := k\<rparr>"
  by (simp add: upd_call_def)

lemma sim_vstk: "sim w A \<Longrightarrow> stk w = vstk A"
  by (auto simp: sim_def)

lemma sim_set_stk: "sim w A \<Longrightarrow> sim (w\<lparr>stk := k\<rparr>) (A\<lparr>vstk := k\<rparr>)"
  by (fastforce simp: sim_def)

lemma calls_view_bind_request:
  "map_of (calls A) p = Some d \<Longrightarrow>
   map_of (calls (snd (view_bind_request ops dev p A))) p =
     Some (case fst (address_bind_request ops dev (vstk A)) of
         None \<Rightarrow> d | Some (m, a) \<Rightarrow> d\<lparr>rd_targetAddress := a\<rparr>)"
  by (auto simp: view_bind_request_def split: prod.splits option.splits)

lemma quiet_view_bind_request: "quiet A \<Longrightarrow> quiet (snd (view_bind_request ops dev p A))"
  by (auto simp: view_bind_request_def Let_def split: prod.splits option.splits intro!: quiet_upd_call)

lemma bind_request_sim:
  assumes "sim w A" and "map_of (calls A) p = Some d"
  shows "\<exists>w'. bind_request ops dev p w = Some (fst (view_bind_request ops dev p A), w') \<and>
    sim w' (snd (view_bind_request ops dev p A))"
proof -
  obtain found k where b: "address_bind_request ops dev (vstk A) = (found, k)" by fastforce
  show ?thesis
  proof (cases found)
    case None
    with b sim_set_stk [OF assms(1)] sim_vstk [OF assms(1)] show ?thesis
      by (simp add: bind_request_def view_bind_request_def)
  next
    case (Some ma)
    obtain m a where ma: "ma = (m, a)" by fastforce
    have "map_of (calls (A\<lparr>vstk := k\<rparr>)) p = Some d" using assms(2) by simp
    from rd_write_sim [OF sim_set_stk [OF assms(1)] this, of "rd_targetAddress_update (\<lambda>_. a)"]
    show ?thesis using b Some ma sim_vstk [OF assms(1)]
      by (auto simp: bind_request_def view_bind_request_def upd_call_def)
  qed
qed

lemma whois_one_sim:
  assumes "sim w A" and "quiet A" and "list_all event_wf es"
  shows "\<exists>q m w1 w2 w3 w4 w5. q \<noteq> NULL \<and> q \<notin> fst ` set (waits A) \<and>
    dcm_set_world dev (Some zero_address) w = Some w1 \<and> dcm_get_world dev w1 = Some (m, w1) \<and>
    dcm_lock m w1 = Some w2 \<and>
    dcm_timedwait ops t es m (stack_call (Send_WhoIs ops dev dev) w2) = Some w3 \<and>
    dcm_unlock m w3 = Some w4 \<and> dcm_remove_world dev w4 = Some w5 \<and>
    sim w5 (view_whois_one ops t es dev q A) \<and> quiet (view_whois_one ops t es dev q A)"
proof -
  let ?n = "new_dcm (dev, Some zero_address)" and ?send = "Send_WhoIs ops dev dev"
  from dcm_set_sim [OF assms(1), of dev "Some zero_address"] obtain q w1 where
    w1: "dcm_set_world dev (Some zero_address) w = Some w1" "sim w1 (A\<lparr>waits := (q, ?n) # waits A\<rparr>)"
    and q: "q \<noteq> NULL" "q \<notin> fst ` set (waits A)" by blast
  have get: "dcm_get_world dev w1 = Some (q, w1)" using dcm_get_sim [OF w1(2), of dev] by simp
  let ?A1 = "A\<lparr>waits := (q, ?n) # waits A\<rparr>"
  from dcm_lock_sim [OF w1(2), of q ?n] obtain w2 where
    w2: "dcm_lock q w1 = Some w2" "sim w2 (upd_wait q (dcm_mutex_update (\<lambda>_. True)) ?A1)"
    by (auto simp: upd_wait_def)
  let ?A2 = "(upd_wait q (dcm_mutex_update (\<lambda>_. True)) ?A1)\<lparr>vstk := ?send (vstk A)\<rparr>"
  have s2: "sim (stack_call ?send w2) ?A2" using sim_stack_call [OF w2(2), of ?send] by simp
  have c2: "map_of (waits ?A2) q = Some (?n\<lparr>dcm_mutex := True\<rparr>)" by simp
  let ?A3 = "A\<lparr>waits := (q, ?n) # waits A, vstk := ?send (vstk A)\<rparr>"
  have "?n\<lparr>dcm_mutex := False\<rparr> = ?n" by (simp add: new_dcm_def)
  then have A3: "upd_wait q (dcm_mutex_update (\<lambda>_. False)) ?A2 = ?A3"
    by (simp add: upd_wait_def)
  from dcm_unlock_sim [OF s2 c2] obtain w2' where
    w2': "dcm_unlock q (stack_call ?send w2) = Some w2'" "sim w2' ?A3"
    unfolding A3 [symmetric] upd_wait_def by auto
  have q3: "quiet ?A3" using assms(2) by (simp add: quiet_def)
  from handle_all_sim [OF w2'(2) q3 assms(3), of ops t] obtain w2'' where
    w2'': "handle_all ops t es w2' = Some w2''" "sim w2'' (view_handle_all ops t es ?A3)"
      "quiet (view_handle_all ops t es ?A3)" by blast
  let ?A4 = "view_handle_all ops t es ?A3"
  have keys: "wait_keys ?A4 = wait_keys ?A3" by (rule wait_keys_view_handle_all)
  from keys_map_of [OF keys, of q] obtain d4 where d4: "map_of (waits ?A4) q = Some d4"
    by (cases "map_of (waits ?A4) q") auto
  have fm: "first_match (dcm_is dev) (waits ?A4) = q"
    using keys_first_match [OF keys, of "\<lambda>(i, a). a \<noteq> None \<and> i = dev"] by (simp add: wait_key_def)
  from dcm_lock_sim [OF w2''(2) d4 quiet_wait [OF w2''(3) d4]] obtain w3 where
    w3: "dcm_lock q w2'' = Some w3" "sim w3 (upd_wait q (dcm_mutex_update (\<lambda>_. True)) ?A4)"
    by (auto simp: upd_wait_def)
  have "map_of (waits (upd_wait q (dcm_mutex_update (\<lambda>_. True)) ?A4)) q = Some (d4\<lparr>dcm_mutex := True\<rparr>)"
    using d4 by simp
  from dcm_unlock_sim [OF w3(2) this] obtain w4 where
    w4: "dcm_unlock q w3 = Some w4" "sim w4 (upd_wait q (dcm_mutex_update (\<lambda>_. False)) ?A4)"
    by (auto simp: upd_wait_def)
  have "upd_wait q (dcm_mutex_update (\<lambda>_. False)) ?A4 = upd_wait q (\<lambda>d. d) ?A4"
    using d4 quiet_wait [OF w2''(3) d4] by (intro upd_wait_cong) simp
  also have "\<dots> = ?A4" by (simp add: upd_wait_def map_entry_id)
  finally have "sim w4 ?A4" using w4(2) by simp
  from dcm_remove_sim [OF this fm q(1)] obtain w5 where
    w5: "dcm_remove_world dev w4 = Some w5" "sim w5 (?A4\<lparr>waits := AList.delete q (waits ?A4)\<rparr>)" by blast
  have view: "view_whois_one ops t es dev q A = ?A4\<lparr>waits := AList.delete q (waits ?A4)\<rparr>"
    by (simp add: view_whois_one_def Let_def)
  have "quiet (?A4\<lparr>waits := AList.delete q (waits ?A4)\<rparr>)"
    using w2''(3) by (auto simp: quiet_def AList.delete_eq)
  then have "quiet (view_whois_one ops t es dev q A)" unfolding view .
  moreover have "sim w5 (view_whois_one ops t es dev q A)" unfolding view by (rule w5(2))
  moreover have "dcm_timedwait ops t es q (stack_call ?send w2) = Some w3"
    using w2'(1) w2''(1) w3(1) by (simp add: dcm_timedwait_def)
  ultimately show ?thesis using q w1(1) get w2(1) w4(1) w5(1) by blast
qed

lemma set_port_sim:
  assumes "sim w A"
  shows "sim (if datalink ops = BACDL_BIP then stack_call (bip_set_port ops (htons port)) w else w)
    (view_set_port ops port A)"
  using assms sim_stack_call [OF assms, of "bip_set_port ops (htons port)"]
  by (simp add: view_set_port_def)

lemma calls_view_set_port [simp]: "calls (view_set_port ops port A) = calls A"
  by (simp add: view_set_port_def)

lemma quiet_view_set_port [simp]: "quiet (view_set_port ops port A) = quiet A"
  by (simp add: view_set_port_def)

text \<open>What binding leaves of the entry: its mutex and invoke ID are as before.\<close>

lemma view_whois_one_call:
  assumes "map_of (calls A) p = Some d"
  obtains d' where "map_of (calls (view_whois_one ops t es dev q A)) p = Some d'"
    and "call_key d' = call_key d"
proof -
  have "call_keys (view_whois_one ops t es dev q A) = call_keys A"
    by (simp add: view_whois_one_def Let_def call_keys_view_handle_all)
  from keys_map_of [OF this, of p] assms that show thesis by auto
qed

lemma find_and_bind_sim:
  assumes "sim w A" and "quiet A" and "list_all event_wf (bind_events env)"
    and "map_of (calls A) p = Some d" and "rd_requestInvokeID d = 0"
  shows "\<exists>q w'. q \<noteq> NULL \<and> q \<notin> fst ` set (waits A) \<and>
    find_and_bind ops t env p port dev w = Some (fst (view_find_and_bind ops t env p port dev q A), w') \<and>
    sim w' (snd (view_find_and_bind ops t env p port dev q A)) \<and>
    quiet (snd (view_find_and_bind ops t env p port dev q A))"
proof (cases "BACNET_MAX_INSTANCE ops < dev")
  case True
  have "\<exists>q. q \<noteq> NULL \<and> q \<notin> fst ` set (waits A)" by (rule fresh_ptr) simp
  with True assms(1,2) show ?thesis by (auto simp: find_and_bind_def view_find_and_bind_def)
next
  case False
  let ?A0 = "view_set_port ops port A"
  let ?w0 = "if datalink ops = BACDL_BIP then stack_call (bip_set_port ops (htons port)) w else w"
  note s0 = set_port_sim [OF assms(1), of ops port]
  obtain f1 A1 where b1: "view_bind_request ops dev p ?A0 = (f1, A1)" by fastforce
  have c0: "map_of (calls ?A0) p = Some d" using assms(4) by simp
  from bind_request_sim [OF s0 c0, of ops dev] b1 obtain w1 where
    w1: "bind_request ops dev p ?w0 = Some (f1, w1)" "sim w1 A1" by auto
  have q1: "quiet A1" using quiet_view_bind_request [of ?A0 ops dev p] b1 assms(2) by simp
  have waits1: "waits A1 = waits A"
    using b1 by (auto simp: view_bind_request_def view_set_port_def Let_def split: prod.splits option.splits if_splits)
  from calls_view_bind_request [OF c0, of ops dev] b1 obtain d1 where
    d1: "map_of (calls A1) p = Some d1" "rd_requestInvokeID d1 = 0"
    using assms(5) by (auto split: option.splits)
  show ?thesis
  proof (cases f1)
    case True
    have "\<exists>q. q \<noteq> NULL \<and> q \<notin> fst ` set (waits A)" by (rule fresh_ptr) simp
    with True False w1 b1 q1 show ?thesis by (auto simp: find_and_bind_def view_find_and_bind_def Let_def)
  next
    case f1: False
    from whois_one_sim [OF w1(2) q1 assms(3), of dev ops t] waits1 obtain q m v1 v2 v3 v4 v5 where
      q: "q \<noteq> NULL" "q \<notin> fst ` set (waits A)" and v: "dcm_set_world dev (Some zero_address) w1 = Some v1"
      "dcm_get_world dev v1 = Some (m, v1)" "dcm_lock m v1 = Some v2"
      "dcm_timedwait ops t (bind_events env) m (stack_call (Send_WhoIs ops dev dev) v2) = Some v3"
      "dcm_unlock m v3 = Some v4" "dcm_remove_world dev v4 = Some v5"
      and s5: "sim v5 (view_whois_one ops t (bind_events env) dev q A1)"
      and q5: "quiet (view_whois_one ops t (bind_events env) dev q A1)" by auto
    let ?A5 = "view_whois_one ops t (bind_events env) dev q A1"
    obtain d5 where d5: "map_of (calls ?A5) p = Some d5" "rd_requestInvokeID d5 = 0"
      using view_whois_one_call [OF d1(1), of ops t "bind_events env" dev q] d1(2)
      by (metis call_key_def fst_conv)
    obtain f2 A6 where b2: "view_bind_request ops dev p ?A5 = (f2, A6)" by fastforce
    from bind_request_sim [OF s5 d5(1), of ops dev] b2 obtain w6 where
      w6: "bind_request ops dev p v5 = Some (f2, w6)" "sim w6 A6" by auto
    have q6: "quiet A6" using quiet_view_bind_request [OF q5, of ops dev p] b2 by simp
    from calls_view_bind_request [OF d5(1), of ops dev] b2 obtain d6 where
      d6: "map_of (calls A6) p = Some d6" "rd_requestInvokeID d6 = 0"
      using d5(2) by (auto split: option.splits)
    from rd_write_sim [OF w6(2) d6(1), of "rd_errorDetected_update (\<lambda>_. True)"] obtain w7 where
      w7: "rd_write p (rd_errorDetected_update (\<lambda>_. True)) w6 = Some w7" "sim w7 (view_error p A6)"
      by (auto simp: view_error_def upd_call_def)
    have q7: "quiet (view_error p A6)" using q6 by (simp add: view_error_def quiet_upd_call)
    have err: "has_error p ?A5 = rd_errorDetected d5" using d5(1) by (simp add: has_error_def)
    show ?thesis
      using False f1 w1(1) b1 q v s5 q5 err rd_read_sim [OF s5 d5(1)] w6 b2 q6
        rd_read_sim [OF w6(2) d6(1)] d6(2) w7 q7
      by (intro exI [of _ q]) (simp add: find_and_bind_def rebind_def view_find_and_bind_def Let_def)
  qed
qed

section \<open>Sending a request and waiting\<close>

text \<open>The invoke ID is assigned while the list is locked.\<close>

lemma rd_assign_sim:
  assumes "sim w A" and "map_of (calls A) p = Some d"
  shows "\<exists>w1 w2 w3. rd_list_lock w = Some w1 \<and> rd_write p f (w1\<lparr>stk := k\<rparr>) = Some w2 \<and>
    rd_list_unlock w2 = Some w3 \<and> stk w1 = stk w \<and> sim w3 ((upd_call p f A)\<lparr>vstk := k\<rparr>)"
proof -
  from sim_calls [OF assms(1)] obtain l where
    l: "returnDataHead w = Some l" "rep l (calls A)" "allocated (nodes l) = fst ` set (calls A)" by blast
  from ll_put_spec [OF rep_heap_ok [OF l(2)] rep_entry_allocated [OF l(2) assms(2)], of f]
  obtain l' where l': "ll_put p f l = Some l'" "rep l' (AList.map_entry p f (calls A))"
    "allocated (nodes l') = allocated (nodes l)" using l(2) by blast
  have free: "\<not> mutex l" "\<not> mutex l'" using l(2) l'(2) by (simp_all add: rep_def)
  let ?w1 = "w\<lparr>returnDataHead := Some (l\<lparr>mutex := True\<rparr>)\<rparr>"
  let ?w2 = "w\<lparr>returnDataHead := Some (l'\<lparr>mutex := True\<rparr>), stk := k\<rparr>"
  let ?w3 = "w\<lparr>returnDataHead := Some l', stk := k\<rparr>"
  have "rd_list_lock w = Some ?w1" using l free by (simp add: rd_list_lock_def ll_lock_def)
  moreover have "rd_write p f (?w1\<lparr>stk := k\<rparr>) = Some ?w2"
    using l l' by (auto simp: rd_write_def ll_put_def)
  moreover have "rd_list_unlock ?w2 = Some ?w3"
    using free by (simp add: rd_list_unlock_def ll_unlock_def)
  moreover have "sim ?w3 ((upd_call p f A)\<lparr>vstk := k\<rparr>)"
    using sim_set_stk [OF sim_set_calls [OF assms(1) l'(2)], of k] l(3) l'(3) by (simp add: upd_call_def)
  ultimately show ?thesis by fastforce
qed

text \<open>The clock variables are zero, so the wait ends in one of two ways only.\<close>

lemma wait_for_data_eq:
  assumes "0 \<le> timeout_seconds ops"
  shows "wait_for_data ops t env p w = do {
     w \<leftarrow> rd_timedwait ops t (reply_events env) p w;
     w \<leftarrow> rd_unlock p w;
     d \<leftarrow> rd_read p w;
     Some (\<not> rd_errorDetected d, w) }"
proof -
  have "(if b then Some (False, w) else Some (True, w)) = Some (\<not> b, w)" for b and w :: "'a world"
    by simp
  with assms show ?thesis by (simp add: wait_for_data_def cong: if_cong)
qed

lemma timeout_seconds_nonneg [simp]: "0 \<le> timeout_seconds ops"
  by (simp add: timeout_seconds_def pos_imp_zdiv_nonneg_iff)

text \<open>
  A wait by the holder of the entry's mutex: the handlers run, and after the unlock the entry
  is as they left it.
\<close>

lemma timedwait_sim:
  assumes "sim w (upd_call p (rd_mutex_update (\<lambda>_. True)) A)" and "quiet A" and "list_all event_wf es"
    and d: "map_of (calls A) p = Some d"
  obtains w1 w2 d' where "rd_timedwait ops t es p w = Some w1" and "rd_unlock p w1 = Some w2"
    and "sim w2 (view_handle_all ops t es A)" and "quiet (view_handle_all ops t es A)"
    and "map_of (calls (view_handle_all ops t es A)) p = Some d'"
proof -
  let ?lock = "rd_mutex_update (\<lambda>_. True)" and ?unlock = "rd_mutex_update (\<lambda>_. False)"
  let ?B = "view_handle_all ops t es A"
  have undo: "upd_call p ?unlock (upd_call p ?lock A') = A'"
    if "map_of (calls A') p = Some d'" "quiet A'" for A' :: "'a view" and d'
  proof -
    from that(1) quiet_call [OF that(2,1)]
    have "upd_call p ?unlock (upd_call p ?lock A') = upd_call p (\<lambda>d. d) A'"
      unfolding upd_call_comp by (intro upd_call_cong) simp
    then show ?thesis by (simp add: upd_call_def map_entry_id)
  qed
  have "map_of (calls (upd_call p ?lock A)) p = Some (?lock d)" using d by simp
  from rd_unlock_sim [OF assms(1) this] obtain v1 where
    v1: "rd_unlock p w = Some v1" "sim v1 (upd_call p ?unlock (upd_call p ?lock A))"
    by (auto simp: upd_call_def)
  from handle_all_sim [OF v1(2) [unfolded undo [OF d assms(2)]] assms(2,3), of ops t] obtain v2 where
    v2: "handle_all ops t es v1 = Some v2" "sim v2 ?B" "quiet ?B" by blast
  have "call_keys ?B = call_keys A" by (rule call_keys_view_handle_all)
  from keys_map_of [OF this, of p] d obtain d' where d': "map_of (calls ?B) p = Some d'" by auto
  from rd_lock_sim [OF v2(2) d' quiet_call [OF v2(3) d']] obtain w1 where
    w1: "rd_lock p v2 = Some w1" "sim w1 (upd_call p ?lock ?B)" by (auto simp: upd_call_def)
  have "map_of (calls (upd_call p ?lock ?B)) p = Some (?lock d')" using d' by simp
  from rd_unlock_sim [OF w1(2) this] obtain w2 where
    w2: "rd_unlock p w1 = Some w2" "sim w2 (upd_call p ?unlock (upd_call p ?lock ?B))"
    by (auto simp: upd_call_def)
  have "rd_timedwait ops t es p w = Some w1" using v1(1) v2(1) w1(1) by (simp add: rd_timedwait_def)
  with that w2 v2(3) d' undo [OF d' v2(3)] show thesis by simp
qed

lemma await_sim:
  assumes "sim w A" and "quiet A" and "list_all event_wf (reply_events env)"
    and d: "map_of (calls A) p = Some d"
  and B_def: "B = view_handle_all ops t (reply_events env)
      ((upd_call p (rd_requestInvokeID_update (\<lambda>_. i)) A)\<lparr>vstk := k\<rparr>)"
  shows "\<exists>w1 w2 w3 w4 w5. rd_lock p w = Some w1 \<and> rd_list_lock w1 = Some w2 \<and> stk w2 = stk w \<and>
    rd_write p (rd_requestInvokeID_update (\<lambda>_. i)) (w2\<lparr>stk := k\<rparr>) = Some w3 \<and>
    rd_list_unlock w3 = Some w4 \<and>
    wait_for_data ops t env p w4 = Some (\<not> has_error p B, w5) \<and> sim w5 B \<and> quiet B"
proof -
  let ?id = "rd_requestInvokeID_update (\<lambda>_. i)" and ?lock = "rd_mutex_update (\<lambda>_. True)"
  note free = quiet_call [OF assms(2) d]
  from rd_lock_sim [OF assms(1) d free] obtain w1 where
    w1: "rd_lock p w = Some w1" "sim w1 (upd_call p ?lock A)" by (auto simp: upd_call_def)
  have stk: "stk w1 = stk w" using sim_vstk [OF w1(2)] sim_vstk [OF assms(1)] by simp
  have "map_of (calls (upd_call p ?lock A)) p = Some (?lock d)" using d by simp
  from rd_assign_sim [OF w1(2) this, of ?id k] obtain w2 w3 w4 where
    w4: "rd_list_lock w1 = Some w2" "rd_write p ?id (w2\<lparr>stk := k\<rparr>) = Some w3"
    "rd_list_unlock w3 = Some w4" "stk w2 = stk w1"
    "sim w4 ((upd_call p ?id (upd_call p ?lock A))\<lparr>vstk := k\<rparr>)" by blast
  let ?A5 = "(upd_call p ?id A)\<lparr>vstk := k\<rparr>"
  have "(upd_call p ?id (upd_call p ?lock A))\<lparr>vstk := k\<rparr> = upd_call p ?lock ?A5"
    unfolding upd_call_vstk upd_call_comp
    by (intro arg_cong [where f = "vstk_update (\<lambda>_. k)"] upd_call_cong) simp
  with w4(5) have s4: "sim w4 (upd_call p ?lock ?A5)" by simp
  have q5: "quiet ?A5" using assms(2) by (simp add: quiet_upd_call)
  have "map_of (calls ?A5) p = Some (?id d)" using d by simp
  from timedwait_sim [where ops = ops and t = t, OF s4 q5 assms(3) this] obtain w5 w6 d' where
    w6: "rd_timedwait ops t (reply_events env) p w4 = Some w5" "rd_unlock p w5 = Some w6"
    "sim w6 B" "quiet B" "map_of (calls B) p = Some d'" unfolding B_def by metis
  have "wait_for_data ops t env p w4 = Some (\<not> has_error p B, w6)"
    using w6 rd_read_sim [OF w6(3,5)] by (simp add: wait_for_data_eq has_error_def)
  then show ?thesis using w1(1) w4 stk w6(3,4) by auto
qed

end
