(* ===== verification/Samples.thy ===== *)
theory Samples
  imports Handlers
begin

text \<open>
  A concrete stack, which the witnesses run the model on: one device, number 7, is in the address
  cache; requests get invoke ID 1; an acknowledgement's bytes are the value, an I-Am's single
  byte the device number. The shared state is the one \<open>init_bacnet_driver\<close> sets up.
\<close>

definition sample_address :: bacnet_address where
  "sample_address = zero_address\<lparr>mac_len := 6, mac := [10, 0, 0, 7, 186, 192]\<rparr>"

definition simple_stack :: "'k bacnet_stack" where
  "simple_stack = \<lparr>
     address_match = (=),
     rp_ack_decode_service_request = (\<lambda>req. (int (length req), req)),
     bacapp_decode_application_data = (\<lambda>app n. TAG_UNSIGNED_INT (ucast (hd app))),
     iam_decode_service_request = (\<lambda>req. case req of [d] \<Rightarrow> (1, ucast d, 1476) | _ \<Rightarrow> (-1, 0, 0)),
     address_add_binding = (\<lambda>d m a k. k),
     address_bind_request = (\<lambda>d k. (if d = 7 then Some (1476, sample_address) else None, k)),
     Send_WhoIs = (\<lambda>low high k. k),
     Send_WhoIs_To_Network = (\<lambda>a low high k. k),
     Send_Read_Property_Request = (\<lambda>d t i p x k. (1, k)),
     Send_Write_Property_Request = (\<lambda>d t i p v prio x k. (1, k)),
     tsm_invoke_id_free = (\<lambda>i k. False),
     tsm_invoke_id_failed = (\<lambda>i k. False),
     tsm_free_invoke_id = (\<lambda>i k. k),
     apdu_timeout = 3000, apdu_retries = 3,
     bip_set_port = (\<lambda>port k. k),
     datalink_get_broadcast_address = zero_address,
     characterstring_init_ansi = (\<lambda>s. s),
     BACNET_MAX_INSTANCE = 4194303,
     PROP_PRESENT_VALUE = 85,
     PROP_OBJECT_NAME = 77,
     OBJECT_ANALOG_INPUT = 0,
     OBJECT_ANALOG_OUTPUT = 1,
     OBJECT_ANALOG_VALUE = 2,
     OBJECT_BINARY_INPUT = 3,
     OBJECT_BINARY_OUTPUT = 4,
     OBJECT_BINARY_VALUE = 5,
     OBJECT_DEVICE = 8,
     bitstring_bit = (\<lambda>v b. case v of TAG_OTHER tag bits \<Rightarrow> b \<in> set bits | _ \<Rightarrow> False),
     PROP_PROTOCOL_SERVICES_SUPPORTED = 97,
     SERVICE_SUPPORTED_READ_PROP_MULTIPLE = 14,
     SERVICE_SUPPORTED_WRITE_PROPERTY = 15,
     SERVICE_SUPPORTED_WRITE_PROP_MULTIPLE = 16,
     RS485_Set_Interface = (\<lambda>path k. k),
     Device_Init = (\<lambda>k. k),
     Device_Set_Object_Instance_Number = (\<lambda>i k. k),
     address_init = (\<lambda>k. k),
     dlenv_init = (\<lambda>k. (0, k)),
     datalink_cleanup = (\<lambda>k. k),
     datalink = BACDL_BIP\<rparr>"

text \<open>A stack without a state, and one that knows device 7 only after an I-Am of it was added.\<close>

definition sample_stack :: "unit bacnet_stack" where
  "sample_stack = simple_stack"

definition learning_stack :: "bool bacnet_stack" where
  "learning_stack = simple_stack\<lparr>
     address_add_binding := (\<lambda>d m a k. k \<or> d = 7),
     address_bind_request := (\<lambda>d k. (if d = 7 \<and> k then Some (1476, sample_address) else None, k))\<rparr>"

definition sample_handlers :: apdu_handlers where
  "sample_handlers = init_service_handlers
     \<lparr>unrecognized_service_handler = None, unconfirmed_handler = \<lambda>_. None, confirmed_handler = \<lambda>_. None,
      confirmed_ack_handler = \<lambda>_. None, confirmed_simple_ack_handler = \<lambda>_. None,
      error_handler = \<lambda>_. None, abort_handler = None, reject_handler = None\<rparr>"

definition sample_world :: "unit world" where
  "sample_world = \<lparr>returnDataHead = Some ll_alloc, deviceCondtionMapHead = Some ll_alloc,
     addressEntryHead = Some ll_alloc, app_values = empty_heap, stk = ()\<rparr>"

definition learning_world :: "bool world" where
  "learning_world = \<lparr>returnDataHead = Some ll_alloc, deviceCondtionMapHead = Some ll_alloc,
     addressEntryHead = Some ll_alloc, app_values = empty_heap, stk = False\<rparr>"

definition learning_view :: "bool view" where
  "learning_view = \<lparr>calls = [], waits = [], table = [], vals = empty_heap, vstk = False\<rparr>"

definition sample_view :: "unit view" where
  "sample_view = \<lparr>calls = [], waits = [], table = [], vals = empty_heap, vstk = ()\<rparr>"

lemma sample_view_simps [simp]:
  "calls sample_view = []" "waits sample_view = []" "table sample_view = []"
  "vals sample_view = empty_heap" "vstk sample_view = ()"
  by (simp_all add: sample_view_def)

lemma sample_sim [simp]: "sim sample_world sample_view"
  unfolding sim_def sample_world_def
  by (intro exI [of _ ll_alloc] exI [of _ "[]"]) simp

lemma sample_quiet [simp]: "quiet sample_view"
  by (simp add: quiet_def)

lemma learning_view_simps [simp]:
  "calls learning_view = []" "waits learning_view = []" "table learning_view = []"
  "vals learning_view = empty_heap" "vstk learning_view = False"
  by (simp_all add: learning_view_def)

lemma learning_ok [simp]: "sim learning_world learning_view" "quiet learning_view"
proof -
  show "sim learning_world learning_view" unfolding sim_def learning_world_def
    by (intro exI [of _ ll_alloc] exI [of _ "[]"]) simp
qed (simp add: quiet_def)

lemma sample_address_wf [simp]: "address_wf sample_address"
  by (simp add: address_wf_def sample_address_def zero_address_def)

lemma sample_stack_simps [simp]:
  "address_match sample_stack = (=)"
  "rp_ack_decode_service_request sample_stack req = (int (length req), req)"
  "bacapp_decode_application_data sample_stack app n = TAG_UNSIGNED_INT (ucast (hd app))"
  "iam_decode_service_request sample_stack [d] = (1, ucast d, 1476)"
  "address_bind_request sample_stack x k = (if x = 7 then Some (1476, sample_address) else None, k)"
  "Send_Read_Property_Request sample_stack x ty i pr ix k = (1, k)"
  "Send_Write_Property_Request sample_stack x ty i pr v prio ix k = (1, k)"
  "characterstring_init_ansi sample_stack s = s"
  "BACNET_MAX_INSTANCE sample_stack = 4194303"
  "PROP_PRESENT_VALUE sample_stack = 85" "PROP_OBJECT_NAME sample_stack = 77"
  "OBJECT_ANALOG_INPUT sample_stack = 0" "OBJECT_ANALOG_OUTPUT sample_stack = 1"
  "OBJECT_ANALOG_VALUE sample_stack = 2" "OBJECT_BINARY_INPUT sample_stack = 3"
  "OBJECT_BINARY_OUTPUT sample_stack = 4" "OBJECT_BINARY_VALUE sample_stack = 5"
  "OBJECT_DEVICE sample_stack = 8"
  by (simp_all add: sample_stack_def simple_stack_def)

lemma learning_stack_simps [simp]:
  "address_match learning_stack = (=)"
  "rp_ack_decode_service_request learning_stack req = (int (length req), req)"
  "bacapp_decode_application_data learning_stack app n = TAG_UNSIGNED_INT (ucast (hd app))"
  "iam_decode_service_request learning_stack [d] = (1, ucast d, 1476)"
  "address_add_binding learning_stack x m a b = (b \<or> x = 7)"
  "address_bind_request learning_stack x b = (if x = 7 \<and> b then Some (1476, sample_address) else None, b)"
  "Send_WhoIs learning_stack low high b = b"
  "bip_set_port learning_stack port b = b"
  "Send_Read_Property_Request learning_stack x ty i pr ix b = (1, b)"
  "Send_Write_Property_Request learning_stack x ty i pr v prio ix b = (1, b)"
  "characterstring_init_ansi learning_stack s = s"
  "BACNET_MAX_INSTANCE learning_stack = 4194303"
  by (simp_all add: learning_stack_def simple_stack_def)

lemma sample_handlers_simps [simp]:
  "unconfirmed_handler sample_handlers s = (if s = SERVICE_UNCONFIRMED_I_AM then Some Handler_IAm else None)"
  "confirmed_ack_handler sample_handlers s =
     (if s = SERVICE_CONFIRMED_READ_PROPERTY then Some Handler_ReadAck else None)"
  "confirmed_simple_ack_handler sample_handlers s =
     (if s = SERVICE_CONFIRMED_WRITE_PROPERTY then Some Handler_WriteAck else None)"
  "error_handler sample_handlers s =
     (if s \<in> {SERVICE_CONFIRMED_READ_PROPERTY, SERVICE_CONFIRMED_WRITE_PROPERTY} then Some Handler_Error else None)"
  "abort_handler sample_handlers = Some Handler_Abort"
  "reject_handler sample_handlers = Some Handler_Reject"
  by (simp_all add: sample_handlers_def init_service_handlers_def)

end
