(* ===== verification/Receive.thy ===== *)
theory Receive
  imports Requests Samples
begin

text \<open>The properties of the handlers and of the loop of the receive thread.\<close>

section \<open>The receive thread\<close>

text \<open>The messages the loop handles: those of the rounds before the flag is cleared.\<close>

definition delivered ::
    "(bacnet_address \<Rightarrow> u8 list \<Rightarrow> event list) \<Rightarrow> (bool \<times> bacnet_address \<times> u8 list) list \<Rightarrow> event list" where
  "delivered npdu rounds =
     concat (map (\<lambda>(running, src, pdu). if pdu = [] then [] else npdu src pdu) (takeWhile fst rounds))"

lemma view_handle_all_append:
  "view_handle_all ops t (xs @ ys) A = view_handle_all ops t ys (view_handle_all ops t xs A)"
  by (simp add: view_handle_all_def)

lemma receive_data_sim:
  assumes "\<And>src pdu. list_all event_wf (npdu src pdu)"
  shows "sim w A \<Longrightarrow> quiet A \<Longrightarrow> \<exists>w'. receive_data ops t npdu rounds w = Some w' \<and>
    sim w' (view_handle_all ops t (delivered npdu rounds) A) \<and>
    quiet (view_handle_all ops t (delivered npdu rounds) A)"
proof (induction rounds arbitrary: w A)
  case (Cons x rounds)
  obtain running src pdu where x: "x = (running, src, pdu)" by (metis prod_cases3)
  let ?es = "if pdu = [] then [] else npdu src pdu"
  show ?case
  proof (cases running)
    case True
    have "list_all event_wf ?es" using assms by simp
    from handle_all_sim [OF Cons.prems this, of ops t] obtain w1 where
      w1: "handle_all ops t ?es w = Some w1" "sim w1 (view_handle_all ops t ?es A)"
      "quiet (view_handle_all ops t ?es A)" by blast
    have "receive_data ops t npdu (x # rounds) w = receive_data ops t npdu rounds w1"
      using w1(1) x True by auto
    moreover have "delivered npdu (x # rounds) = ?es @ delivered npdu rounds"
      using x True by (simp add: delivered_def)
    ultimately show ?thesis using Cons.IH [OF w1(2,3)] by (simp add: view_handle_all_append)
  next
    case False
    with x Cons.prems show ?thesis by (simp add: delivered_def)
  qed
qed (simp add: delivered_def)

text \<open>
  C1. The receive thread. Whatever datagrams arrive and however many, the loop runs without
  undefined behaviour and without blocking on a mutex, and what it does to the pending calls,
  the waiting bindings, the table of discovered devices, the received values and the stack is
  what the abstract handlers do with the messages that arrived before the flag was cleared.
\<close>

theorem receive_data_refines:
  assumes "sim w A" and "quiet A" and "\<And>src pdu. list_all event_wf (npdu src pdu)"
  shows "\<exists>w'. receive_data ops t npdu rounds w = Some w' \<and>
    sim w' (view_handle_all ops t (delivered npdu rounds) A) \<and>
    quiet (view_handle_all ops t (delivered npdu rounds) A)"
  using receive_data_sim [OF assms(3,1,2)] .

definition sample_npdu :: "bacnet_address \<Rightarrow> u8 list \<Rightarrow> event list" where
  "sample_npdu src pdu = (if address_wf src then [Unconfirmed SERVICE_UNCONFIRMED_I_AM pdu src] else [])"

lemma receive_data_refines_witness:
  "\<exists>w'. receive_data sample_stack sample_handlers sample_npdu
      [(True, sample_address, [9]), (True, sample_address, []), (False, sample_address, [3])] sample_world = Some w' \<and>
    sim w' (sample_view\<lparr>table := [new_entry (9, 1476, sample_address)]\<rparr>)"
  using receive_data_refines [of sample_world sample_view sample_npdu sample_stack sample_handlers
      "[(True, sample_address, [9]), (True, sample_address, []), (False, sample_address, [3])]"]
  by (auto simp: sample_npdu_def delivered_def view_i_am_def table_add_def)

section \<open>Which call a message is for\<close>

text \<open>The messages about the call with invoke ID \<open>i\<close> to the device at \<open>a\<close>.\<close>

fun concerns :: "'k bacnet_stack \<Rightarrow> u8 \<times> bacnet_address \<Rightarrow> event \<Rightarrow> bool" where
  "concerns ops (i, a) (Confirmed_Ack s req src j) = (j = i \<and> address_match ops a src)"
| "concerns ops (i, a) (Error_PDU s src j c x) = (j = i \<and> address_match ops a src)"
| "concerns ops (i, a) (Abort_PDU src j r server) = (j = i \<and> address_match ops a src)"
| "concerns ops (i, a) (Reject_PDU src j r) = (j = i \<and> address_match ops a src)"
| "concerns ops ia _ = False"

text \<open>
  The invoke ID whose first pending call the handler of a message signals, if that call is \<open>d\<close>:
  an acknowledgement of a read is ignored by a call that has its value. The sender is not looked at.
\<close>

fun signals :: "apdu_handlers \<Rightarrow> event \<Rightarrow> return_data \<Rightarrow> u8 option" where
  "signals t (Unconfirmed s req src) d = None"
| "signals t (Confirmed_Ack s req src i) d =
     (if confirmed_ack_handler t s = Some Handler_ReadAck \<and> rd_value d = NULL then Some i else None)"
| "signals t (Simple_Ack s src i) d =
     (if confirmed_simple_ack_handler t s = Some Handler_WriteAck then Some i else None)"
| "signals t (Error_PDU s src i c e) d = (if error_handler t s = Some Handler_Error then Some i else None)"
| "signals t (Abort_PDU src i r server) d = (if abort_handler t = Some Handler_Abort then Some i else None)"
| "signals t (Reject_PDU src i r) d = (if reject_handler t = Some Handler_Reject then Some i else None)"

text \<open>An entry after a message that is not about it: at most its condition was signalled.\<close>

definition rung :: "bool \<Rightarrow> return_data \<Rightarrow> return_data" where
  "rung b d = d\<lparr>rd_condition := rd_condition d \<or> b\<rparr>"

lemma rung_False [simp]: "rung False d = d"
  by (simp add: rung_def)

lemma rung_upd_call:
  assumes "map_of (calls A) p = Some d" and "q = p \<Longrightarrow> f d = rung True d"
  shows "map_of (calls (upd_call q f A)) p = Some (rung (q = p) d)"
  using assms by (cases "q = p") (simp_all add: map_of_map_entry_other)

lemma not_concerned:
  assumes "map_of (calls A) p = Some d" and "p \<noteq> NULL" and "distinct (map fst (calls A))"
    and "\<not> concerns ops (call_key d) e"
  shows "map_of (calls (view_handle ops t e A)) p =
    Some (rung (\<exists>i. signals t e d = Some i \<and> call_for i A = p) d)"
proof -
  note upd = rung_upd_call [OF assms(1)]
  have id: "rd_requestInvokeID d = j" if "call_for j A = p" for j
    using first_match_Some [OF that assms(2,3)] assms(1) by auto
  have fail: "map_of (calls (view_failure ops src j A)) p = Some (rung (call_for j A = p) d)"
    if "\<not> (j = rd_requestInvokeID d \<and> address_match ops (rd_targetAddress d) src)" for src j
    unfolding view_failure_def using that id by (intro upd) (auto simp: rung_def)
  show ?thesis
  proof (cases e)
    case (Confirmed_Ack s req src j)
    have "map_of (calls (view_read_ack ops req src j A)) p =
        Some (rung (rd_value d = NULL \<and> call_for j A = p) d)"
    proof (cases "call_for j A = p")
      case True
      with id [OF True] assms(1,4) Confirmed_Ack show ?thesis
        by (auto simp: view_read_ack_def call_key_def rung_def)
    next
      case False
      with assms(1) show ?thesis
        by (auto simp: view_read_ack_def map_of_map_entry_other split: option.splits prod.splits)
    qed
    with Confirmed_Ack assms(1) show ?thesis by auto
  next
    case (Unconfirmed s req src)
    with assms(1) show ?thesis by (auto simp: view_i_am_def split: prod.splits option.splits)
  next
    case (Simple_Ack s src j)
    have "map_of (calls (view_write_ack j A)) p = Some (rung (call_for j A = p) d)"
      unfolding view_write_ack_def by (intro upd) (simp add: rung_def)
    with Simple_Ack assms(1) show ?thesis by simp
  next
    case (Error_PDU s src j c x)
    with fail [of j src] assms(1,4) show ?thesis by (simp add: call_key_def)
  next
    case (Abort_PDU src j r server)
    with fail [of j src] assms(1,4) show ?thesis by (simp add: call_key_def)
  next
    case (Reject_PDU src j r)
    with fail [of j src] assms(1,4) show ?thesis by (simp add: call_key_def)
  qed
qed

text \<open>
  C10. No crosstalk between calls: a message whose invoke ID is not the one of a pending call, or
  that comes from another address than the one the call was sent to, changes nothing of that call
  (its value, its error flag, what it is matched by) except that it may wake it up. It does so
  exactly when the call is the first on the list with the message's invoke ID, whatever the
  sender: a message of a foreign device ends the wait of the call, without a result.
\<close>

theorem handler_no_crosstalk:
  assumes "sim w A" and "quiet A" and "event_wf e" and "map_of (calls A) p = Some d"
    and "\<not> concerns ops (call_key d) e"
  shows "\<exists>w'. handle ops t e w = Some w' \<and>
    rd_read p w' = Some (rung (\<exists>i. signals t e d = Some i \<and> call_for i A = p) d)"
proof -
  from handle_sim [OF assms(1-3)] obtain w' where
    w': "handle ops t e w = Some w'" "sim w' (view_handle ops t e A)" by blast
  have "p \<noteq> NULL" using sim_not_NULL [OF assms(1)] assms(4) by (force dest: map_of_SomeD)
  from not_concerned [OF assms(4) this _ assms(5), of t] sim_distinct [OF assms(1)]
    rd_read_sim [OF w'(2), of p] w'(1) show ?thesis by simp
qed

text \<open>A state with one call pending, for invoke ID 1 to the sample device.\<close>

definition sample_call :: return_data where
  "sample_call = zero_return_data\<lparr>rd_requestInvokeID := 1, rd_targetAddress := sample_address\<rparr>"

lemma sample_call_sim:
  "\<exists>p w. sim w (sample_view\<lparr>calls := [(p, sample_call)]\<rparr>) \<and> quiet (sample_view\<lparr>calls := [(p, sample_call)]\<rparr>)"
proof -
  from rd_set_sim [OF sample_sim, of 0] obtain p w where
    w: "sim w (sample_view\<lparr>calls := [(p, zero_return_data)]\<rparr>)" by auto
  from rd_write_sim [OF w, of p zero_return_data "\<lambda>_. sample_call"] show ?thesis
    by (auto simp: quiet_def sample_call_def)
qed

lemma handler_no_crosstalk_witness:
  "\<exists>p w w1 w2. rd_read p w = Some sample_call \<and>
    handle sample_stack sample_handlers (Abort_PDU sample_address 2 0 False) w = Some w1 \<and>
    rd_read p w1 = Some sample_call \<and>
    handle sample_stack sample_handlers (Abort_PDU zero_address 1 0 False) w = Some w2 \<and>
    rd_read p w2 = Some (sample_call\<lparr>rd_condition := True\<rparr>)"
proof -
  from sample_call_sim obtain p w where
    w: "sim w (sample_view\<lparr>calls := [(p, sample_call)]\<rparr>)" "quiet (sample_view\<lparr>calls := [(p, sample_call)]\<rparr>)"
    by blast
  have d: "map_of (calls (sample_view\<lparr>calls := [(p, sample_call)]\<rparr>)) p = Some sample_call" by simp
  have "call_key sample_call = (1, sample_address)" by (simp add: call_key_def sample_call_def)
  then have n: "\<not> concerns sample_stack (call_key sample_call) (Abort_PDU sample_address 2 0 False)"
    "\<not> concerns sample_stack (call_key sample_call) (Abort_PDU zero_address 1 0 False)"
    by (simp_all add: sample_address_def zero_address_def)
  have "p \<noteq> NULL" using sim_not_NULL [OF w(1)] by simp
  then have c: "call_for 2 (sample_view\<lparr>calls := [(p, sample_call)]\<rparr>) \<noteq> p"
    "call_for 1 (sample_view\<lparr>calls := [(p, sample_call)]\<rparr>) = p" by (simp_all add: sample_call_def)
  from handler_no_crosstalk [OF w _ d n(1), of sample_handlers] handler_no_crosstalk [OF w _ d n(2), of sample_handlers]
    rd_read_sim [OF w(1), of p] c d show ?thesis by (auto simp: rung_def)
qed

text \<open>
  C19. An I-Am of a device that a thread waits for: the stack is told the binding of the device
  to the sender's address, the thread's entry is signalled, and the table of discovered devices
  does not change. An I-Am of any other device is added to that table, if the device is not in
  it yet, and the stack is told nothing.
\<close>

theorem i_am_effect:
  assumes "sim w A" and "quiet A" and "address_wf src"
    and "iam_decode_service_request ops req = (n, dev, max_apdu)" and "n \<noteq> -1"
    and "\<forall>(p, c) \<in> set (waits A). dcm_address c = Some zero_address"
  shows "\<exists>w' A'. my_i_am_handler ops req src w = Some w' \<and> sim w' A' \<and>
    (if \<exists>(p, c) \<in> set (waits A). dcm_device_id c = dev
     then stk w' = address_add_binding ops dev max_apdu src (stk w) \<and> table A' = table A \<and>
       (\<exists>(p, c) \<in> set (waits A'). dcm_device_id c = dev \<and> dcm_condition c)
     else stk w' = stk w \<and> table A' = table_add dev max_apdu src (table A))"
proof -
  from i_am_sim [OF assms(1-3)] obtain w' where
    w': "my_i_am_handler ops req src w = Some w'" "sim w' (view_i_am ops req src A)" by blast
  have stk: "stk w = vstk A" "stk w' = vstk (view_i_am ops req src A)"
    using sim_vstk [OF assms(1)] sim_vstk [OF w'(2)] by simp_all
  show ?thesis
  proof (cases rule: wait_for_cases [OF assms(1), of dev])
    case 1
    have "NULL \<notin> fst ` set (waits A)" using sim_not_NULL [OF assms(1)] by simp
    with 1(1) assms(6) have "\<not> (\<exists>(p, c) \<in> set (waits A). dcm_device_id c = dev)"
      by (fastforce simp: first_match_NULL)
    with 1 w' stk assms(4,5) show ?thesis
      by (intro exI [of _ w'] exI [of _ "view_i_am ops req src A"]) (simp add: view_i_am_def)
  next
    case (2 d a)
    let ?q = "wait_for dev A"
    have m: "(?q, d) \<in> set (waits A)" using 2(2) by (rule map_of_SomeD)
    with assms(6) 2(4) have "mac_len a = 0" by auto
    have "map_of (waits (view_i_am ops req src A)) ?q = Some (d\<lparr>dcm_condition := True\<rparr>)"
      using 2 assms(4,5) by (simp add: view_i_am_def)
    then have "(?q, d\<lparr>dcm_condition := True\<rparr>) \<in> set (waits (view_i_am ops req src A))"
      by (rule map_of_SomeD)
    then have "\<exists>(p, c) \<in> set (waits (view_i_am ops req src A)). dcm_device_id c = dev \<and> dcm_condition c"
      using 2(3) by (intro bexI [of _ "(?q, d\<lparr>dcm_condition := True\<rparr>)"]) simp_all
    moreover have "\<exists>(p, c) \<in> set (waits A). dcm_device_id c = dev" using m 2(3) by fastforce
    ultimately show ?thesis using 2 w' stk assms(4,5) \<open>mac_len a = 0\<close>
      by (intro exI [of _ w'] exI [of _ "view_i_am ops req src A"]) (simp add: view_i_am_def)
  qed
qed

lemma i_am_effect_witness:
  "\<exists>w' A'. my_i_am_handler sample_stack [9] sample_address sample_world = Some w' \<and> sim w' A' \<and>
    table A' = [new_entry (9, 1476, sample_address)]"
  using i_am_effect [of sample_world sample_view sample_address sample_stack "[9]" 1 9 1476]
  by (auto simp: table_add_def)

end
