(* ===== verification/Replies.thy ===== *)
theory Replies
  imports Requests Samples
begin

text \<open>
  What the calls of Requests return, as functions of the messages that arrive while they wait:
  \<open>view_read\<close>, \<open>view_write\<close> and \<open>view_whois\<close> on the contents, for a read the value of the first
  acceptable reply, for a write the failures that are reported, and that nothing is sent to a
  device without an address.
\<close>

section \<open>The calls on the contents\<close>

definition value_of :: "ptr \<Rightarrow> 'k view \<Rightarrow> ptr" where
  "value_of p A = (case map_of (calls A) p of None \<Rightarrow> NULL | Some d \<Rightarrow> rd_value d)"

definition begin_call :: "ptr \<Rightarrow> 'k view \<Rightarrow> 'k view" where
  "begin_call p A = A\<lparr>calls := (p, zero_return_data) # calls A\<rparr>"

definition end_call :: "ptr \<Rightarrow> 'k view \<Rightarrow> 'k view" where
  "end_call p A = A\<lparr>calls := AList.delete p (calls A)\<rparr>"

text \<open>The entry gets the invoke ID, then the handlers run.\<close>

definition view_await ::
    "'k bacnet_stack \<Rightarrow> apdu_handlers \<Rightarrow> event list \<Rightarrow> ptr \<Rightarrow> u8 \<times> 'k \<Rightarrow> 'k view \<Rightarrow> 'k view" where
  "view_await ops t es p ik A =
     view_handle_all ops t es
       ((upd_call p (rd_requestInvokeID_update (\<lambda>_. fst ik)) A)\<lparr>vstk := snd ik\<rparr>)"

definition view_read ::
    "'k bacnet_stack \<Rightarrow> apdu_handlers \<Rightarrow> call_env \<Rightarrow> u32 \<Rightarrow> u32 \<Rightarrow> u32 \<Rightarrow> u32 \<Rightarrow> u32 \<Rightarrow> u16 \<Rightarrow>
     ptr \<Rightarrow> ptr \<Rightarrow> 'k view \<Rightarrow> ptr \<times> 'k view" where
  "view_read ops t env dev ty inst pr idx port p q A =
     (let (bound, A) = view_find_and_bind ops t env p port dev q (begin_call p A)
      in if \<not> bound then (NULL, end_call p A)
         else let A = view_await ops t (reply_events env) p
                        (Send_Read_Property_Request ops dev ty inst pr idx (vstk A)) A
           in (value_of p A, end_call p A))"

definition view_write ::
    "'k bacnet_stack \<Rightarrow> apdu_handlers \<Rightarrow> call_env \<Rightarrow> u32 \<Rightarrow> u32 \<Rightarrow> u32 \<Rightarrow> u32 \<Rightarrow> u32 \<Rightarrow> u16 \<Rightarrow> u8 \<Rightarrow>
     app_value \<Rightarrow> ptr \<Rightarrow> ptr \<Rightarrow> 'k view \<Rightarrow> int \<times> 'k view" where
  "view_write ops t env dev ty inst pr idx port prio v p q A =
     (let (bound, A) = view_find_and_bind ops t env p port dev q (begin_call p A)
      in if \<not> bound then (1, end_call p A)
         else let A = view_await ops t (reply_events env) p
                        (Send_Write_Property_Request ops dev ty inst pr v prio idx (vstk A)) A
           in if has_error p A then (1, A) else (0, end_call p A))"

definition view_whois ::
    "'k bacnet_stack \<Rightarrow> apdu_handlers \<Rightarrow> call_env \<Rightarrow> ptr \<Rightarrow> 'k view \<Rightarrow> 'k view" where
  "view_whois ops t env p A =
     (let A = view_set_port ops 0xBAC0 (begin_call p A);
          A = A\<lparr>vstk := Send_WhoIs_To_Network ops (datalink_get_broadcast_address ops) (-1) (-1) (vstk A)\<rparr>
      in end_call p (view_handle_all ops t (reply_events env) A))"

section \<open>The code implements them\<close>

lemma begin_call_sim:
  assumes "sim w A" and "quiet A"
  obtains p w1 where "rd_set_world i w = Some (p, w1)" and "sim w1 (begin_call p A)"
    and "quiet (begin_call p A)" and "p \<noteq> NULL" and "p \<notin> fst ` set (calls A)"
proof -
  from rd_set_sim [OF assms(1), of i] obtain p w1 where
    "rd_set_world i w = Some (p, w1)" "sim w1 (begin_call p A)" "p \<noteq> NULL" "p \<notin> fst ` set (calls A)"
    unfolding begin_call_def by blast
  moreover have "quiet (begin_call p A)"
    using assms(2) by (simp add: quiet_def begin_call_def zero_return_data_def)
  ultimately show thesis using that by blast
qed

lemma calls_begin_call [simp]:
  "calls (begin_call p A) = (p, zero_return_data) # calls A"
  "waits (begin_call p A) = waits A" "vals (begin_call p A) = vals A" "vstk (begin_call p A) = vstk A"
  "table (begin_call p A) = table A"
  by (simp_all add: begin_call_def)

lemma end_call_sim:
  assumes "sim w A" and "map_of (calls A) p = Some d"
  shows "\<exists>w'. rd_remove_world p w = Some w' \<and> sim w' (end_call p A)"
  using rd_remove_sim [OF assms] by (simp add: end_call_def)

lemma quiet_end_call: "quiet A \<Longrightarrow> quiet (end_call p A)"
  by (auto simp: quiet_def end_call_def AList.delete_eq)

lemma rd_read_value_of: "sim w A \<Longrightarrow> map_of (calls A) p = Some d \<Longrightarrow> value_of p A = rd_value d"
  by (simp add: value_of_def)

text \<open>Binding keeps every entry, with its invoke ID.\<close>

lemma find_and_bind_entry:
  assumes "map_of (calls A) p = Some d"
  obtains d' where "map_of (calls (snd (view_find_and_bind ops t env p port dev q A))) p = Some d'"
    and "rd_requestInvokeID d' = rd_requestInvokeID d"
proof -
  define has where "has A' = (\<exists>d'. map_of (calls A') p = Some d' \<and>
    rd_requestInvokeID d' = rd_requestInvokeID d)" for A' :: "'a view"
  have bind: "has (snd (view_bind_request ops dev p A'))" if "has A'" for A'
    using that calls_view_bind_request [of A' p _ ops dev]
    by (fastforce simp: has_def split: option.splits)
  have whois: "has (view_whois_one ops t es dev q A')" if "has A'" for A' es
    using that view_whois_one_call [of A' p _ ops t es dev q]
    unfolding has_def call_key_def by (metis fst_conv)
  have err: "has (view_error p A')" if "has A'" for A'
    using that by (auto simp: has_def view_error_def)
  have "has A" "has (view_set_port ops port A)" using assms by (simp_all add: has_def)
  note bind [OF this(2)] and this
  then have "has (snd (view_find_and_bind ops t env p port dev q A))"
    using bind whois err
    by (auto simp: view_find_and_bind_def Let_def split: prod.splits) (metis snd_conv)+
  with that show thesis by (auto simp: has_def)
qed

lemma call_sim:
  assumes "sim w A" and "quiet A" and "list_all event_wf (bind_events env)"
  obtains p q w1 w2 where "rd_set_world 0 w = Some (p, w1)" and "sim w1 (begin_call p A)"
    and "p \<noteq> NULL" and "p \<notin> fst ` set (calls A)" and "q \<noteq> NULL" and "q \<notin> fst ` set (waits A)"
    and "find_and_bind ops t env p port dev w1 =
      Some (fst (view_find_and_bind ops t env p port dev q (begin_call p A)), w2)"
    and "sim w2 (snd (view_find_and_bind ops t env p port dev q (begin_call p A)))"
    and "quiet (snd (view_find_and_bind ops t env p port dev q (begin_call p A)))"
proof -
  from begin_call_sim [OF assms(1,2), of 0] obtain p w1 where
    p: "rd_set_world 0 w = Some (p, w1)" "sim w1 (begin_call p A)"
    "quiet (begin_call p A)" "p \<noteq> NULL" "p \<notin> fst ` set (calls A)" by blast
  have "map_of (calls (begin_call p A)) p = Some zero_return_data"
    "rd_requestInvokeID zero_return_data = 0" by (simp_all add: zero_return_data_def)
  from find_and_bind_sim [OF p(2,3) assms(3) this, of ops t port dev] p that show thesis by fastforce
qed

lemma await_view_sim:
  assumes "sim w A" and "quiet A" and "list_all event_wf (reply_events env)"
    and "map_of (calls A) p = Some d"
  obtains w1 w2 w3 w4 w5 d' where "rd_lock p w = Some w1" and "rd_list_lock w1 = Some w2"
    and "stk w2 = vstk A"
    and "rd_write p (rd_requestInvokeID_update (\<lambda>_. fst ik)) (w2\<lparr>stk := snd ik\<rparr>) = Some w3"
    and "rd_list_unlock w3 = Some w4"
    and "wait_for_data ops t env p w4 =
      Some (\<not> has_error p (view_await ops t (reply_events env) p ik A), w5)"
    and "sim w5 (view_await ops t (reply_events env) p ik A)"
    and "quiet (view_await ops t (reply_events env) p ik A)"
    and "map_of (calls (view_await ops t (reply_events env) p ik A)) p = Some d'"
    and "rd_read p w5 = Some d'"
proof -
  let ?B = "view_await ops t (reply_events env) p ik A"
  from await_sim [where i = "fst ik" and k = "snd ik" and ops = ops and t = t, OF assms refl] sim_vstk [OF assms(1)]
  obtain w1 w2 w3 w4 w5 where w: "rd_lock p w = Some w1" "rd_list_lock w1 = Some w2"
    "stk w2 = vstk A" "rd_write p (rd_requestInvokeID_update (\<lambda>_. fst ik)) (w2\<lparr>stk := snd ik\<rparr>) = Some w3"
    "rd_list_unlock w3 = Some w4" "wait_for_data ops t env p w4 = Some (\<not> has_error p ?B, w5)"
    "sim w5 ?B" "quiet ?B" unfolding view_await_def by metis
  have "call_keys ?B = call_keys ((upd_call p (rd_requestInvokeID_update (\<lambda>_. fst ik)) A)\<lparr>vstk := snd ik\<rparr>)"
    unfolding view_await_def by (rule call_keys_view_handle_all)
  from keys_map_of [OF this, of p] assms(4) obtain d' where "map_of (calls ?B) p = Some d'" by auto
  with that w rd_read_sim [OF w(7)] show thesis by blast
qed

lemma read_sim:
  assumes "sim w A" and "quiet A" and "list_all event_wf (bind_events env)"
    and "list_all event_wf (reply_events env)"
  shows "\<exists>p q w'. p \<noteq> NULL \<and> p \<notin> fst ` set (calls A) \<and> q \<noteq> NULL \<and> q \<notin> fst ` set (waits A) \<and>
    bacnetReadProperty ops t env dev ty inst pr idx port w =
      Some (fst (view_read ops t env dev ty inst pr idx port p q A), w') \<and>
    sim w' (snd (view_read ops t env dev ty inst pr idx port p q A)) \<and>
    quiet (snd (view_read ops t env dev ty inst pr idx port p q A))"
proof -
  from call_sim [OF assms(1-3), of ops t port dev] obtain p q w1 w2 where
    p: "rd_set_world 0 w = Some (p, w1)" "p \<noteq> NULL" "p \<notin> fst ` set (calls A)" "q \<noteq> NULL" "q \<notin> fst ` set (waits A)"
    and b: "find_and_bind ops t env p port dev w1 =
      Some (fst (view_find_and_bind ops t env p port dev q (begin_call p A)), w2)"
    "sim w2 (snd (view_find_and_bind ops t env p port dev q (begin_call p A)))"
    "quiet (snd (view_find_and_bind ops t env p port dev q (begin_call p A)))" by metis
  obtain bound B where B: "view_find_and_bind ops t env p port dev q (begin_call p A) = (bound, B)"
    by fastforce
  obtain d where d: "map_of (calls B) p = Some d"
    using find_and_bind_entry [of "begin_call p A" p _ ops t env port dev q] B by fastforce
  have s: "sim w2 B" "quiet B" and fb: "find_and_bind ops t env p port dev w1 = Some (bound, w2)"
    using b B by simp_all
  show ?thesis
  proof (cases bound)
    case False
    from end_call_sim [OF s(1) d] quiet_end_call [OF s(2)] p fb B False show ?thesis
      by (fastforce simp: bacnetReadProperty_def view_read_def)
  next
    case True
    let ?ik = "Send_Read_Property_Request ops dev ty inst pr idx (vstk B)"
    let ?C = "view_await ops t (reply_events env) p ?ik B"
    from await_view_sim [where ik = ?ik and ops = ops and t = t, OF s assms(4) d] obtain v1 v2 v3 v4 v5 d' where
      v: "rd_lock p w2 = Some v1" "rd_list_lock v1 = Some v2" "stk v2 = vstk B"
      "rd_write p (rd_requestInvokeID_update (\<lambda>_. fst ?ik)) (v2\<lparr>stk := snd ?ik\<rparr>) = Some v3"
      "rd_list_unlock v3 = Some v4" "wait_for_data ops t env p v4 = Some (\<not> has_error p ?C, v5)"
      and c: "sim v5 ?C" "quiet ?C" "map_of (calls ?C) p = Some d'" "rd_read p v5 = Some d'" by blast
    from end_call_sim [OF c(1,3)] obtain v6 where
      v6: "rd_remove_world p v5 = Some v6" "sim v6 (end_call p ?C)" by blast
    have "bacnetReadProperty ops t env dev ty inst pr idx port w = Some (rd_value d', v6)"
      using p(1) fb True v c(4) v6(1) by (simp add: bacnetReadProperty_def case_prod_unfold)
    with p(2-5) v6(2) quiet_end_call [OF c(2)] B True rd_read_value_of [OF c(1,3)] show ?thesis
      by (fastforce simp: view_read_def Let_def)
  qed
qed

lemma write_sim:
  assumes "sim w A" and "quiet A" and "list_all event_wf (bind_events env)"
    and "list_all event_wf (reply_events env)"
  shows "\<exists>p q w'. p \<noteq> NULL \<and> p \<notin> fst ` set (calls A) \<and> q \<noteq> NULL \<and> q \<notin> fst ` set (waits A) \<and>
    bacnetWriteProperty ops t env dev ty inst pr idx port prio v w =
      Some (fst (view_write ops t env dev ty inst pr idx port prio v p q A), w') \<and>
    sim w' (snd (view_write ops t env dev ty inst pr idx port prio v p q A)) \<and>
    quiet (snd (view_write ops t env dev ty inst pr idx port prio v p q A))"
proof -
  from begin_call_sim [OF assms(1,2), of 0] obtain p w0 where
    p: "rd_set_world 0 w = Some (p, w0)" "sim w0 (begin_call p A)"
    "quiet (begin_call p A)" "p \<noteq> NULL" "p \<notin> fst ` set (calls A)" by blast
  have e: "map_of (calls (begin_call p A)) p = Some zero_return_data" by simp
  have id: "rd_requestInvokeID zero_return_data = 0" by (simp add: zero_return_data_def)
  from rd_write_sim [OF p(2) e, of "rd_errorDetected_update (\<lambda>_. False)"] obtain w1 where
    w1: "rd_write p (rd_errorDetected_update (\<lambda>_. False)) w0 = Some w1" "sim w1 (begin_call p A)"
    by (auto simp: begin_call_def zero_return_data_def)
  from find_and_bind_sim [OF w1(2) p(3) assms(3) e id, of ops t port dev] obtain q w2 where
    q: "q \<noteq> NULL" "q \<notin> fst ` set (waits A)" and b: "find_and_bind ops t env p port dev w1 =
      Some (fst (view_find_and_bind ops t env p port dev q (begin_call p A)), w2)"
    "sim w2 (snd (view_find_and_bind ops t env p port dev q (begin_call p A)))"
    "quiet (snd (view_find_and_bind ops t env p port dev q (begin_call p A)))" by auto
  obtain bound B where B: "view_find_and_bind ops t env p port dev q (begin_call p A) = (bound, B)"
    by fastforce
  obtain d where d: "map_of (calls B) p = Some d"
    using find_and_bind_entry [OF e, of ops t env port dev q] B by fastforce
  have s: "sim w2 B" "quiet B" and fb: "find_and_bind ops t env p port dev w1 = Some (bound, w2)"
    using b B by simp_all
  show ?thesis
  proof (cases bound)
    case False
    from end_call_sim [OF s(1) d] quiet_end_call [OF s(2)] p(1,4,5) q w1(1) fb B False show ?thesis
      by (fastforce simp: bacnetWriteProperty_def view_write_def)
  next
    case True
    let ?ik = "Send_Write_Property_Request ops dev ty inst pr v prio idx (vstk B)"
    let ?C = "view_await ops t (reply_events env) p ?ik B"
    from await_view_sim [where ik = ?ik and ops = ops and t = t, OF s assms(4) d] obtain v1 v2 v3 v4 v5 d' where
      v: "rd_lock p w2 = Some v1" "rd_list_lock v1 = Some v2" "stk v2 = vstk B"
      "rd_write p (rd_requestInvokeID_update (\<lambda>_. fst ?ik)) (v2\<lparr>stk := snd ?ik\<rparr>) = Some v3"
      "rd_list_unlock v3 = Some v4" "wait_for_data ops t env p v4 = Some (\<not> has_error p ?C, v5)"
      and c: "sim v5 ?C" "quiet ?C" "map_of (calls ?C) p = Some d'" "rd_read p v5 = Some d'" by blast
    from end_call_sim [OF c(1,3)] obtain v6 where
      v6: "rd_remove_world p v5 = Some v6" "sim v6 (end_call p ?C)" by blast
    have "bacnetWriteProperty ops t env dev ty inst pr idx port prio v w =
        (if has_error p ?C then Some (1, v5) else Some (0, v6))"
      using p(1) w1(1) fb True v v6(1) by (simp add: bacnetWriteProperty_def case_prod_unfold)
    moreover have "view_write ops t env dev ty inst pr idx port prio v p q A =
        (if has_error p ?C then (1, ?C) else (0, end_call p ?C))"
      using B True by (simp add: view_write_def Let_def)
    ultimately show ?thesis using p(4,5) q c(1,2) v6(2) quiet_end_call [OF c(2)]
      by (intro exI [of _ p] exI [of _ q]) simp
  qed
qed

lemma whois_sim:
  assumes "sim w A" and "quiet A" and "list_all event_wf (reply_events env)"
  shows "\<exists>p w'. p \<noteq> NULL \<and> p \<notin> fst ` set (calls A) \<and>
    bacnetWhoIs ops t env w = Some (addressEntryHead w', w') \<and>
    sim w' (view_whois ops t env p A) \<and> quiet (view_whois ops t env p A)"
proof -
  from begin_call_sim [OF assms(1,2), of 255] obtain p w0 where
    p: "rd_set_world 255 w = Some (p, w0)" "sim w0 (begin_call p A)"
    "quiet (begin_call p A)" "p \<noteq> NULL" "p \<notin> fst ` set (calls A)" by blast
  have e: "map_of (calls (begin_call p A)) p = Some zero_return_data" by simp
  from rd_write_sim [OF p(2) e, of "rd_errorDetected_update (\<lambda>_. False)"] obtain w1 where
    w1: "rd_write p (rd_errorDetected_update (\<lambda>_. False)) w0 = Some w1" "sim w1 (begin_call p A)"
    by (auto simp: begin_call_def zero_return_data_def)
  let ?lock = "rd_mutex_update (\<lambda>_. True)"
  let ?send = "Send_WhoIs_To_Network ops (datalink_get_broadcast_address ops) (-1) (-1)"
  let ?A2 = "view_set_port ops 0xBAC0 (begin_call p A)"
  let ?w2 = "if datalink ops = BACDL_BIP then stack_call (bip_set_port ops (htons 0xBAC0)) w1 else w1"
  have s2: "sim ?w2 ?A2" by (rule set_port_sim [OF w1(2)])
  have e2: "map_of (calls ?A2) p = Some zero_return_data" "\<not> rd_mutex zero_return_data"
    by (simp_all add: zero_return_data_def)
  from rd_lock_sim [OF s2 e2] obtain w3 where
    w3: "rd_lock p ?w2 = Some w3" "sim w3 (upd_call p ?lock ?A2)" by (auto simp: upd_call_def)
  let ?A5 = "?A2\<lparr>vstk := ?send (vstk ?A2)\<rparr>"
  have s5: "sim (stack_call ?send w3) (upd_call p ?lock ?A5)"
    using sim_stack_call [OF w3(2), of ?send] by (simp add: upd_call_vstk)
  have q5: "quiet ?A5" and e5: "map_of (calls ?A5) p = Some zero_return_data"
    using p(3) e2(1) by simp_all
  let ?B = "view_handle_all ops t (reply_events env) ?A5"
  from timedwait_sim [where ops = ops and t = t, OF s5 q5 assms(3) e5] obtain w7 w8 d6 where
    w8: "rd_timedwait ops t (reply_events env) p (stack_call ?send w3) = Some w7"
    "rd_unlock p w7 = Some w8" and s8: "sim w8 ?B" and q8: "quiet ?B"
    and d6: "map_of (calls ?B) p = Some d6" by metis
  from end_call_sim [OF s8 d6] obtain w9 where
    w9: "rd_remove_world p w8 = Some w9" "sim w9 (end_call p ?B)" by blast
  have "bacnetWhoIs ops t env w = Some (addressEntryHead w9, w9)"
    using p(1) w1(1) w3(1) w8 w9(1) by (simp add: bacnetWhoIs_def)
  moreover have "view_whois ops t env p A = end_call p ?B" by (simp add: view_whois_def Let_def)
  ultimately show ?thesis using p(4,5) w9(2) quiet_end_call [OF q8] by auto
qed

section \<open>The value of a read\<close>

text \<open>The value a message brings for the call with invoke ID \<open>i\<close> to the device at \<open>a\<close>.\<close>

fun reply :: "'k bacnet_stack \<Rightarrow> apdu_handlers \<Rightarrow> u8 \<times> bacnet_address \<Rightarrow> event \<Rightarrow> app_value option" where
  "reply ops t (i, a) (Confirmed_Ack s req src j) =
     (if confirmed_ack_handler t s = Some Handler_ReadAck \<and> j = i \<and> address_match ops a src
      then decode_ack ops req else None)"
| "reply ops t ia _ = None"

definition replies ::
    "'k bacnet_stack \<Rightarrow> apdu_handlers \<Rightarrow> u8 \<times> bacnet_address \<Rightarrow> event list \<Rightarrow> app_value list" where
  "replies ops t ia es = List.map_filter (reply ops t ia) es"

text \<open>\<open>result_is p v A\<close>: the newest call is \<open>p\<close>, and what it has been given so far is \<open>v\<close>.\<close>

definition result_is :: "ptr \<Rightarrow> u8 \<times> bacnet_address \<Rightarrow> app_value option \<Rightarrow> 'k view \<Rightarrow> bool" where
  "result_is p ia v A \<longleftrightarrow> p \<noteq> NULL \<and> heap_ok (vals A) \<and>
     (\<exists>d r. calls A = (p, d) # r \<and> p \<notin> fst ` set r \<and> call_key d = ia \<and>
        (case v of None \<Rightarrow> rd_value d = NULL
         | Some x \<Rightarrow> cells (vals A) (rd_value d) = Some \<lparr>value_next = NULL, value_data = x\<rparr>))"

lemma result_isI:
  assumes "call_keys B = call_keys A" and "result_is p ia v A" and "heap_ok (vals B)"
    and "case v' of None \<Rightarrow> value_of p B = NULL
         | Some x \<Rightarrow> cells (vals B) (value_of p B) = Some \<lparr>value_next = NULL, value_data = x\<rparr>"
  shows "result_is p ia v' B"
proof -
  from assms(2) obtain d r where A: "calls A = (p, d) # r" "p \<notin> fst ` set r" "call_key d = ia" "p \<noteq> NULL"
    by (auto simp: result_is_def)
  with assms(1) obtain d' r' where B: "calls B = (p, d') # r'" "call_key d' = ia"
    "map (\<lambda>(p, d). (p, call_key d)) r' = map (\<lambda>(p, d). (p, call_key d)) r"
    by (cases "calls B") auto
  from keys_fst [OF B(3)] A(2) have "p \<notin> fst ` set r'" by (metis list.set_map)
  with B(1,2) A(4) assms(3,4) show ?thesis
    by (cases v') (simp_all add: result_is_def value_of_def)
qed

lemma result_is_value:
  "result_is p ia v A \<Longrightarrow>
   (case v of None \<Rightarrow> value_of p A = NULL
    | Some x \<Rightarrow> cells (vals A) (value_of p A) = Some \<lparr>value_next = NULL, value_data = x\<rparr> \<and> value_of p A \<noteq> NULL)"
  using heap_ok_not_NULL by (fastforce simp: result_is_def value_of_def split: option.splits)

lemma value_of_upd_call:
  assumes "\<And>d. rd_value (f d) = rd_value d"
  shows "value_of p (upd_call q f A) = value_of p A"
  by (cases "p = q") (auto simp: value_of_def assms map_of_map_entry_other split: option.splits)

lemma first_match_other: "p \<noteq> NULL \<Longrightarrow> p \<notin> fst ` set r \<Longrightarrow> first_match P r \<noteq> p"
  by (induction P r rule: first_match.induct) auto

lemma first_match_present: "0 < first_match P r \<Longrightarrow> first_match P r \<in> fst ` set r"
  using first_match_other [of "first_match P r" r P] by auto

text \<open>An acknowledgement for another call leaves this one's result alone.\<close>

lemma other_call:
  assumes "result_is p (i, a) v A" and "j \<noteq> i"
  shows "call_for j A \<noteq> p"
proof -
  from assms obtain d r where A: "calls A = (p, d) # r" "p \<notin> fst ` set r" "rd_requestInvokeID d = i" "p \<noteq> NULL"
    by (auto simp: result_is_def call_key_def)
  with first_match_other [of p r "rd_is j"] assms(2) show ?thesis by simp
qed

lemma result_is_ack:
  assumes "result_is p (i, a) v A"
  shows "result_is p (i, a)
    (case v of None \<Rightarrow> if j = i \<and> address_match ops a src then decode_ack ops req else None
     | Some x \<Rightarrow> Some x) (view_read_ack ops req src j A)"
proof -
  from assms obtain d r where A: "calls A = (p, d) # r" "p \<notin> fst ` set r" "rd_requestInvokeID d = i"
    "rd_targetAddress d = a" "p \<noteq> NULL" and ok: "heap_ok (vals A)"
    by (auto simp: result_is_def call_key_def)
  note result = result_is_value [OF assms]
  have vald: "value_of p A = rd_value d" using A(1) by (simp add: value_of_def)
  have fresh: "cells (vals A) (brk (vals A)) = None"
    using heap_ok_fresh [OF ok] by (simp add: allocated_def domIff)
  have new: "heap_ok h" "q \<noteq> NULL" "cells h q = Some c"
    "\<And>x y. cells (vals A) x = Some y \<Longrightarrow> cells h x = Some y" if "malloc c (vals A) = (q, h)" for c q h
    using heap_ok_malloc [OF ok that] heap_ok_fresh [OF ok] that fresh by (auto simp: malloc_def)
  show ?thesis
  proof (cases "j = i")
    case True
    with A show ?thesis
      using assms vald result new
      by (auto simp: view_read_ack_def result_is_def call_key_def upd_call_def split: option.splits prod.splits)
  next
    case False
    note other = other_call [OF assms False]
    show ?thesis
    proof (rule result_isI [OF _ assms])
      show "call_keys (view_read_ack ops req src j A) = call_keys A"
        using call_keys_view_handle [of ops "init_service_handlers undefined" "Confirmed_Ack SERVICE_CONFIRMED_READ_PROPERTY req src j" A]
        by (simp add: init_service_handlers_def)
      show "heap_ok (vals (view_read_ack ops req src j A))"
        using ok new(1) by (auto simp: view_read_ack_def split: option.splits prod.splits)
      have "value_of p (view_read_ack ops req src j A) = value_of p A"
        using other by (auto simp: view_read_ack_def value_of_def map_of_map_entry_other
            split: option.splits prod.splits)
      then show "case (case v of None \<Rightarrow> if j = i \<and> address_match ops a src then decode_ack ops req else None
           | Some x \<Rightarrow> Some x) of
          None \<Rightarrow> value_of p (view_read_ack ops req src j A) = NULL
        | Some x \<Rightarrow> cells (vals (view_read_ack ops req src j A)) (value_of p (view_read_ack ops req src j A)) =
            Some \<lparr>value_next = NULL, value_data = x\<rparr>"
        using False result new(4) by (auto simp: view_read_ack_def split: option.splits prod.splits)
    qed
  qed
qed

lemma result_is_step:
  assumes "result_is p ia v A"
  shows "result_is p ia (case v of None \<Rightarrow> reply ops t ia e | Some x \<Rightarrow> Some x) (view_handle ops t e A)"
proof -
  obtain i a where ia: "ia = (i, a)" by fastforce
  let ?B = "view_handle ops t e A"
  have ok: "heap_ok (vals A)" using assms by (simp add: result_is_def)
  have same: ?thesis if "vals ?B = vals A" "value_of p ?B = value_of p A" "reply ops t ia e = None"
    using result_isI [OF call_keys_view_handle assms, of ops t e "case v of None \<Rightarrow> None | Some x \<Rightarrow> Some x"]
      result_is_value [OF assms] ok that by (cases v) simp_all
  show ?thesis
  proof (cases e)
    case (Confirmed_Ack s req src j)
    with result_is_ack [OF assms [unfolded ia], of j ops src req] assms show ?thesis
      by (auto simp: ia split: option.splits)
  next
    case (Unconfirmed s req src)
    then show ?thesis
      by (intro same) (auto simp: view_i_am_def value_of_def split: prod.splits option.splits)
  next
    case (Simple_Ack s src j)
    then show ?thesis by (intro same) (simp_all add: view_write_ack_def value_of_upd_call del: upd_call_simps(1))
  next
    case (Error_PDU s src j c x)
    then show ?thesis by (intro same) (simp_all add: view_failure_def value_of_upd_call del: upd_call_simps(1))
  next
    case (Abort_PDU src j r server)
    then show ?thesis by (intro same) (simp_all add: view_failure_def value_of_upd_call del: upd_call_simps(1))
  next
    case (Reject_PDU src j r)
    then show ?thesis by (intro same) (simp_all add: view_failure_def value_of_upd_call del: upd_call_simps(1))
  qed
qed

lemma result_is_all:
  "result_is p ia v A \<Longrightarrow>
   result_is p ia (case v of None \<Rightarrow> (case replies ops t ia es of [] \<Rightarrow> None | x # _ \<Rightarrow> Some x) | Some x \<Rightarrow> Some x)
     (view_handle_all ops t es A)"
proof (induction es arbitrary: v A)
  case (Cons e es)
  from Cons.IH [OF result_is_step [OF Cons.prems, of ops t e]] show ?case
    by (auto simp: replies_def List.map_filter_simps split: option.splits)
next
  case Nil
  then show ?case by (cases v) (simp_all add: replies_def List.map_filter_simps)
qed






lemma result_is_await:
  assumes "result_is p (j, a) None A"
  shows "result_is p (fst ik, a) (case replies ops t (fst ik, a) es of [] \<Rightarrow> None | x # _ \<Rightarrow> Some x)
    (view_await ops t es p ik A)"
proof -
  have "result_is p (fst ik, a) None ((upd_call p (rd_requestInvokeID_update (\<lambda>_. fst ik)) A)\<lparr>vstk := snd ik\<rparr>)"
    using assms by (auto simp: result_is_def call_key_def)
  from result_is_all [OF this, of ops t es] show ?thesis by (simp add: view_await_def)
qed


section \<open>The result of a write\<close>

text \<open>A message that reports failure of the call with invoke ID \<open>i\<close> to the device at \<open>a\<close>.\<close>

fun failure :: "'k bacnet_stack \<Rightarrow> apdu_handlers \<Rightarrow> u8 \<times> bacnet_address \<Rightarrow> event \<Rightarrow> bool" where
  "failure ops t (i, a) (Error_PDU s src j c x) \<longleftrightarrow>
     error_handler t s = Some Handler_Error \<and> j = i \<and> address_match ops a src"
| "failure ops t (i, a) (Abort_PDU src j r server) \<longleftrightarrow>
     abort_handler t = Some Handler_Abort \<and> j = i \<and> address_match ops a src"
| "failure ops t (i, a) (Reject_PDU src j r) \<longleftrightarrow>
     reject_handler t = Some Handler_Reject \<and> j = i \<and> address_match ops a src"
| "failure ops t ia _ \<longleftrightarrow> False"

text \<open>\<open>error_is p b A\<close>: the newest call is \<open>p\<close>, and \<open>b\<close> says whether it has failed.\<close>

definition error_is :: "ptr \<Rightarrow> u8 \<times> bacnet_address \<Rightarrow> bool \<Rightarrow> 'k view \<Rightarrow> bool" where
  "error_is p ia b A \<longleftrightarrow> p \<noteq> NULL \<and>
     (\<exists>d r. calls A = (p, d) # r \<and> p \<notin> fst ` set r \<and> call_key d = ia \<and> rd_errorDetected d = b)"

lemma error_is_has_error: "error_is p ia b A \<Longrightarrow> has_error p A = b"
  by (auto simp: error_is_def has_error_def)


lemma error_is_failure:
  "error_is p (i, a) b A \<Longrightarrow> error_is p (i, a) (b \<or> j = i \<and> address_match ops a src) (view_failure ops src j A)"
  by (auto simp: error_is_def view_failure_def call_key_def upd_call_def first_match_present)

lemma error_is_write_ack: "error_is p ia b A \<Longrightarrow> error_is p ia b (view_write_ack j A)"
  by (auto simp: first_match_other error_is_def view_write_ack_def call_key_def upd_call_def)

lemma error_is_read_ack: "error_is p ia b A \<Longrightarrow> error_is p ia b (view_read_ack ops req src j A)"
  by (auto simp: first_match_other error_is_def view_read_ack_def call_key_def upd_call_def split: option.splits prod.splits)

lemma error_is_i_am: "error_is p ia b A \<Longrightarrow> error_is p ia b (view_i_am ops req src A)"
  by (auto simp: error_is_def view_i_am_def split: option.splits prod.splits)

lemma error_is_step: "error_is p ia b A \<Longrightarrow> error_is p ia (b \<or> failure ops t ia e) (view_handle ops t e A)"
  by (cases ia; cases e)
    (auto simp: error_is_i_am error_is_read_ack error_is_write_ack dest: error_is_failure [where ops = ops])

lemma error_is_all:
  "error_is p ia b A \<Longrightarrow> error_is p ia (b \<or> (\<exists>e \<in> set es. failure ops t ia e)) (view_handle_all ops t es A)"
proof (induction es arbitrary: b A)
  case (Cons e es)
  from Cons.IH [OF error_is_step [OF Cons.prems, of ops t e]] show ?case by (simp add: disj_assoc)
qed simp

text \<open>A device in the stack's cache is bound without a Who-Is.\<close>

definition cached :: "'k bacnet_stack \<Rightarrow> u16 \<Rightarrow> u32 \<Rightarrow> bacnet_address \<Rightarrow> 'k \<Rightarrow> 'k view \<Rightarrow> bool" where
  "cached ops port dev a k A \<longleftrightarrow> dev \<le> BACNET_MAX_INSTANCE ops \<and>
     (\<exists>m. address_bind_request ops dev (vstk (view_set_port ops port A)) = (Some (m, a), k))"

lemma vstk_set_port_begin:
  "vstk (view_set_port ops port (begin_call p A)) = vstk (view_set_port ops port A)"
  by (simp add: view_set_port_def)

lemma cached_bind:
  assumes "cached ops port dev a k A" and "p \<noteq> NULL" and "p \<notin> fst ` set (calls A)"
  obtains B where "view_find_and_bind ops t env p port dev q (begin_call p A) = (True, B)"
    and "calls B = (p, zero_return_data\<lparr>rd_targetAddress := a\<rparr>) # calls A" and "waits B = waits A"
    and "table B = table A" and "vals B = vals A" and "vstk B = k"
proof -
  from assms(1) obtain m where m: "dev \<le> BACNET_MAX_INSTANCE ops"
    "address_bind_request ops dev (vstk (view_set_port ops port A)) = (Some (m, a), k)"
    by (auto simp: cached_def)
  let ?B = "(upd_call p (rd_targetAddress_update (\<lambda>_. a)) (view_set_port ops port (begin_call p A)))\<lparr>vstk := k\<rparr>"
  have "view_find_and_bind ops t env p port dev q (begin_call p A) = (True, ?B)"
    using m by (simp add: view_find_and_bind_def view_bind_request_def vstk_set_port_begin upd_call_vstk not_less)
  with that [of ?B] show thesis by (simp add: view_set_port_def)
qed

section \<open>What a call leaves behind\<close>

text \<open>The pending calls besides \<open>p\<close>, and the waiting bindings, by what they are matched by.\<close>

definition others :: "ptr \<Rightarrow> 'k view \<Rightarrow> (ptr \<times> u8 \<times> bacnet_address) list \<times> (ptr \<times> u32 \<times> bacnet_address option) list"
  where "others p A = (AList.delete p (call_keys A), wait_keys A)"

lemma delete_keys:
  "AList.delete p (map (\<lambda>(p, d). (p, key d)) r) = map (\<lambda>(p, d). (p, key d)) (AList.delete p r)"
  by (induction r) auto

lemma delete_keys_map_entry:
  "AList.delete p (map (\<lambda>(p, d). (p, key d)) (AList.map_entry p f r)) =
   AList.delete p (map (\<lambda>(p, d). (p, key d)) r)"
  by (simp add: delete_keys)

lemma others_upd_call [simp]: "others p (upd_call p f A) = others p A"
  by (simp add: others_def delete_keys_map_entry)

lemma others_simps [simp]:
  "others p (A\<lparr>vstk := k\<rparr>) = others p A" "others p (view_set_port ops port A) = others p A"
  "others p (view_handle_all ops t es A) = others p A" "others p (view_error p A) = others p A"
  "others p (end_call p A) = others p A"
  by (simp_all add: others_def view_set_port_def call_keys_view_handle_all wait_keys_view_handle_all
      view_error_def end_call_def delete_keys_map_entry delete_keys)

lemma others_bind_request [simp]: "others p (snd (view_bind_request ops dev p A)) = others p A"
  by (simp add: view_bind_request_def Let_def split: prod.splits option.splits)

lemma others_whois_one:
  assumes "q \<notin> fst ` set (waits A)"
  shows "others p (view_whois_one ops t es dev q A) = others p A"
proof -
  have "AList.delete q (wait_keys A) = wait_keys A"
    using assms by (intro delete_not_key) force
  then show ?thesis
    by (simp add: others_def view_whois_one_def Let_def call_keys_view_handle_all
        wait_keys_view_handle_all flip: delete_keys)
qed

lemma waits_bind_request: "waits (snd (view_bind_request ops dev p A)) = waits A"
  by (simp add: view_bind_request_def Let_def split: prod.splits option.splits)

lemma others_find_and_bind:
  assumes "q \<notin> fst ` set (waits A)" and "view_find_and_bind ops t env p port dev q A = (found, B)"
  shows "others p B = others p A"
proof -
  have ob: "others p Y = others p X" if "view_bind_request ops dev p X = (f, Y)" for f X Y
    using that others_bind_request [of p ops dev X] by simp
  have wb: "waits Y = waits X" if "view_bind_request ops dev p X = (f, Y)" for f X Y
    using that waits_bind_request [of ops dev p X] by simp
  have wp: "waits (view_set_port ops port A) = waits A" by (simp add: view_set_port_def)
  show ?thesis using assms
    by (auto simp: view_find_and_bind_def Let_def ob wb wp others_whois_one split: prod.splits if_splits)
qed

lemma others_await [simp]: "others p (view_await ops t es p ik A) = others p A"
  by (simp add: view_await_def)

lemma others_read:
  assumes "q \<notin> fst ` set (waits A)" and "p \<notin> fst ` set (calls A)"
  shows "call_keys (snd (view_read ops t env dev ty inst pr idx port p q A)) = call_keys A \<and>
    wait_keys (snd (view_read ops t env dev ty inst pr idx port p q A)) = wait_keys A"
proof -
  let ?C = "snd (view_read ops t env dev ty inst pr idx port p q A)"
  obtain f B where B: "view_find_and_bind ops t env p port dev q (begin_call p A) = (f, B)" by fastforce
  have "others p B = others p (begin_call p A)" using others_find_and_bind [OF _ B] assms(1) by simp
  then have o: "others p ?C = others p (begin_call p A)" using B by (simp add: view_read_def Let_def)
  have "p \<notin> fst ` set (calls ?C)"
    using B by (auto simp: view_read_def Let_def end_call_def AList.delete_eq)
  then have "AList.delete p (call_keys ?C) = call_keys ?C" by (intro delete_not_key) force
  moreover have "AList.delete p (call_keys A) = call_keys A"
    using assms(2) by (intro delete_not_key) force
  ultimately show ?thesis using o by (simp add: others_def)
qed

lemma view_bind_unbound:
  assumes "\<And>k. fst (address_bind_request ops dev k) = None"
  shows "\<not> fst (view_find_and_bind ops t env p port dev q A)"
proof -
  have "fst (view_bind_request ops dev p X) = False" for X
    using assms [of "vstk X"] by (auto simp: view_bind_request_def Let_def split: prod.splits)
  then show ?thesis
    by (auto simp: view_find_and_bind_def Let_def split: prod.splits) (metis fst_conv)+
qed

text \<open>Binding keeps an entry without an error that way, and gives it the address found.\<close>

lemma error_is_bind:
  assumes "error_is p (i, a) b A" and "view_bind_request ops dev p A = (found, B)"
  shows "error_is p (i, case fst (address_bind_request ops dev (vstk A)) of None \<Rightarrow> a | Some (m, c) \<Rightarrow> c) b B \<and>
    found = (fst (address_bind_request ops dev (vstk A)) \<noteq> None) \<and>
    vstk B = snd (address_bind_request ops dev (vstk A))"
  using assms
  by (auto simp: view_bind_request_def error_is_def call_key_def upd_call_def Let_def
      split: prod.splits option.splits)

lemma error_is_whois_one:
  assumes "error_is p ia b A"
  shows "\<exists>b. error_is p ia b (view_whois_one ops t es dev q A)"
proof -
  let ?A = "A\<lparr>waits := (q, new_dcm (dev, Some zero_address)) # waits A, vstk := Send_WhoIs ops dev dev (vstk A)\<rparr>"
  have "error_is p ia b ?A" using assms by (simp add: error_is_def)
  from error_is_all [where ops = ops and t = t and es = es, OF this] show ?thesis
    by (auto simp: view_whois_one_def Let_def error_is_def)
qed

lemma find_and_bind_error:
  assumes "error_is p (i, a0) False A" and "view_find_and_bind ops t env p port dev q A = (True, B)"
  shows "\<exists>a m k. error_is p (i, a) False B \<and> address_bind_request ops dev k = (Some (m, a), vstk B)"
proof -
  have e0: "error_is p (i, a0) False (view_set_port ops port A)"
    using assms(1) by (auto simp: error_is_def view_set_port_def)
  obtain f1 A1 where b1: "view_bind_request ops dev p (view_set_port ops port A) = (f1, A1)" by fastforce
  note r1 = error_is_bind [OF e0 b1]
  show ?thesis
  proof (cases f1)
    case True
    with b1 assms(2) have "B = A1" by (auto simp: view_find_and_bind_def Let_def split: if_splits)
    with r1 True show ?thesis by (auto split: option.splits) (metis prod.collapse)
  next
    case False
    with r1 have "error_is p (i, a0) False A1" by (auto split: option.splits)
    let ?A2 = "view_whois_one ops t (bind_events env) dev q A1"
    from error_is_whois_one [OF \<open>error_is p (i, a0) False A1\<close>, of ops t "bind_events env" dev q] obtain b where
      e2: "error_is p (i, a0) b ?A2" by blast
    obtain f2 A2 where b2: "view_bind_request ops dev p ?A2 = (f2, A2)" by fastforce
    from assms(2) b1 b2 False have "B = A2" "f2" "\<not> has_error p ?A2"
      by (auto simp: view_find_and_bind_def Let_def split: if_splits)
    with error_is_bind [OF e2 b2] error_is_has_error [OF e2] show ?thesis
      by (auto split: option.splits) (metis prod.collapse)
  qed
qed

text \<open>
  How a write ends, after the request was sent to address \<open>a\<close> with the stack in state \<open>k\<close>, or
  without that.
\<close>

definition write_ends ::
    "'k bacnet_stack \<Rightarrow> apdu_handlers \<Rightarrow> event list \<Rightarrow> ('k \<Rightarrow> u8 \<times> 'k) \<Rightarrow> (bacnet_address \<times> 'k) option \<Rightarrow>
     int \<Rightarrow> nat \<Rightarrow> bool" where
  "write_ends ops t es send sent r extra \<longleftrightarrow>
     (case sent of
        None \<Rightarrow> r = 1 \<and> extra = 0
      | Some (a, k) \<Rightarrow>
          if \<exists>e \<in> set es. failure ops t (fst (send k), a) e then r = 1 \<and> extra = 1 else r = 0 \<and> extra = 0)"

lemma view_write_result:
  assumes "p \<noteq> NULL" and "p \<notin> fst ` set (calls A)" and "q \<notin> fst ` set (waits A)"
    and "view_write ops t env dev ty inst pr idx port prio v p q A = (r, C)"
  shows "\<exists>sent extra. write_ends ops t (reply_events env) (Send_Write_Property_Request ops dev ty inst pr v prio idx) sent r extra \<and>
    length (calls C) = length (calls A) + extra \<and>
    (\<forall>a k. sent = Some (a, k) \<longrightarrow> (\<exists>m k0. address_bind_request ops dev k0 = (Some (m, a), k))) \<and>
    (\<forall>a k. cached ops port dev a k A \<longrightarrow> sent = Some (a, k))"
proof -
  let ?send = "Send_Write_Property_Request ops dev ty inst pr v prio idx"
  obtain f B where B: "view_find_and_bind ops t env p port dev q (begin_call p A) = (f, B)" by fastforce
  have ob: "others p B = others p (begin_call p A)" using others_find_and_bind [OF _ B] assms(3) by simp
  have del: "AList.delete p (call_keys A) = call_keys A" using assms(2) by (intro delete_not_key) force
  have ended: "length (calls (end_call p X)) = length (calls A)" if "others p X = others p (begin_call p A)" for X
  proof -
    from that del have "AList.delete p (call_keys X) = call_keys A" by (simp add: others_def)
    then have "length (AList.delete p (call_keys X)) = length (calls A)" by simp
    then show ?thesis by (simp add: end_call_def delete_keys)
  qed
  have e0: "error_is p (0, zero_address) False (begin_call p A)"
    using assms(1,2) by (simp add: error_is_def call_key_def zero_return_data_def)
  show ?thesis
  proof (cases f)
    case False
    with B assms(4) have C: "r = 1" "C = end_call p B" by (simp_all add: view_write_def)
    have "\<not> cached ops port dev a k A" for a k
      using cached_bind [where t = t and env = env and q = q, OF _ assms(1,2), of ops port dev a k] B False by force
    with C ended [OF ob] show ?thesis
      by (intro exI [of _ None] exI [of _ 0]) (simp add: write_ends_def)
  next
    case True
    with B have B1: "view_find_and_bind ops t env p port dev q (begin_call p A) = (True, B)" by simp
    from find_and_bind_error [OF e0 B1] obtain a m k where
      e: "error_is p (0, a) False B" and k: "address_bind_request ops dev k = (Some (m, a), vstk B)" by blast
    let ?ik = "?send (vstk B)" let ?D = "view_await ops t (reply_events env) p ?ik B"
    let ?fail = "\<exists>e \<in> set (reply_events env). failure ops t (fst ?ik, a) e"
    have "error_is p (fst ?ik, a) False ((upd_call p (rd_requestInvokeID_update (\<lambda>_. fst ?ik)) B)\<lparr>vstk := snd ?ik\<rparr>)"
      using e by (auto simp: error_is_def call_key_def upd_call_def)
    from error_is_all [where ops = ops and t = t and es = "reply_events env", OF this]
    have D: "error_is p (fst ?ik, a) ?fail ?D" unfolding view_await_def by simp
    then have "length (calls ?D) = Suc (length (AList.delete p (call_keys ?D)))"
      by (auto simp: error_is_def delete_not_key delete_keys)
    moreover have od: "others p ?D = others p (begin_call p A)" using ob by simp
    then have "AList.delete p (call_keys ?D) = call_keys A" using del unfolding others_def by simp
    ultimately have kept: "length (calls ?D) = length (calls A) + 1" by simp
    have C: "(r, C) = (if ?fail then (1, ?D) else (0, end_call p ?D))"
      using B1 assms(4) error_is_has_error [OF D] by (simp add: view_write_def Let_def)
    have c: "a' = a \<and> k' = vstk B" if "cached ops port dev a' k' A" for a' k'
    proof -
      from cached_bind [where t = t and env = env and q = q, OF that assms(1,2)] obtain B' where
        "view_find_and_bind ops t env p port dev q (begin_call p A) = (True, B')"
        "calls B' = (p, zero_return_data\<lparr>rd_targetAddress := a'\<rparr>) # calls A" "vstk B' = k'" by metis
      with B1 e show ?thesis by (simp add: error_is_def call_key_def)
    qed
    let ?n = "if ?fail then 1 else 0"
    have "write_ends ops t (reply_events env) ?send (Some (a, vstk B)) r ?n"
      using C by (cases ?fail) (simp_all add: write_ends_def)
    moreover have "length (calls C) = length (calls A) + ?n"
      using C kept ended [OF od] by (cases ?fail) simp_all
    ultimately show ?thesis using k c by (intro exI [of _ "Some (a, vstk B)"] exI [of _ ?n]) blast
  qed
qed

section \<open>Discovery\<close>

text \<open>The I-Am of a device nobody waits for adds it to the table, other messages do not.\<close>

fun announce :: "'k bacnet_stack \<Rightarrow> apdu_handlers \<Rightarrow> event \<Rightarrow> address_entry list \<Rightarrow> address_entry list" where
  "announce ops t (Unconfirmed s req src) T =
     (let (len, device_id, max_apdu) = iam_decode_service_request ops req
      in if unconfirmed_handler t s = Some Handler_IAm \<and> len \<noteq> -1
         then table_add device_id max_apdu src T else T)"
| "announce ops t _ T = T"

lemma table_handle:
  assumes "waits A = []"
  shows "table (view_handle ops t e A) = announce ops t e (table A) \<and> waits (view_handle ops t e A) = []"
  using assms
  by (cases e) (auto simp: view_i_am_def view_read_ack_def view_failure_def view_write_ack_def
      split: prod.splits option.splits)

lemma table_handle_all:
  "waits A = [] \<Longrightarrow>
   table (view_handle_all ops t es A) = fold (announce ops t) es (table A) \<and>
   waits (view_handle_all ops t es A) = []"
  by (induction es arbitrary: A) (simp_all add: table_handle)

lemma table_whois:
  assumes "waits A = []"
  shows "table (view_whois ops t env p A) = fold (announce ops t) (reply_events env) (table A)"
  using assms by (simp add: view_whois_def Let_def end_call_def table_handle_all view_set_port_def)

lemma view_read_cached:
  assumes "p \<noteq> NULL" and "p \<notin> fst ` set (calls A)" and "heap_ok (vals A)"
    and "cached ops port dev a k A"
    and "i = fst (Send_Read_Property_Request ops dev ty inst pr idx k)"
  shows "case replies ops t (i, a) (reply_events env) of
       [] \<Rightarrow> fst (view_read ops t env dev ty inst pr idx port p q A) = NULL
     | v # _ \<Rightarrow> cells (vals (snd (view_read ops t env dev ty inst pr idx port p q A)))
         (fst (view_read ops t env dev ty inst pr idx port p q A)) =
           Some \<lparr>value_next = NULL, value_data = v\<rparr>"
proof -
  from cached_bind [where t = t and env = env and q = q, OF assms(4,1,2)] obtain B where
    B: "view_find_and_bind ops t env p port dev q (begin_call p A) = (True, B)"
    "calls B = (p, zero_return_data\<lparr>rd_targetAddress := a\<rparr>) # calls A" "vals B = vals A" "vstk B = k"
    by metis
  have "result_is p (0, a) None B"
    using B(2,3) assms(1-3) by (simp add: result_is_def call_key_def zero_return_data_def)
  from result_is_value [OF result_is_await [OF this, of "Send_Read_Property_Request ops dev ty inst pr idx k"
        ops t "reply_events env"]] B assms(5)
  show ?thesis by (simp add: view_read_def end_call_def Let_def split: list.splits)
qed

section \<open>Properties\<close>

text \<open>
  C6. Reading a property never runs into undefined behaviour and never blocks for good, whatever
  messages arrive: it returns, no list mutex or entry mutex is left held, and the pending calls
  and waiting bindings of the other threads are exactly the ones there were before, with the
  invoke IDs and addresses they are matched by; the read's own entry is gone.
\<close>

theorem bacnetReadProperty_returns:
  assumes "sim w A" and "quiet A" and "list_all event_wf (bind_events env)"
    and "list_all event_wf (reply_events env)"
  shows "\<exists>ret w' A'. bacnetReadProperty ops t env dev ty inst pr idx port w = Some (ret, w') \<and>
    sim w' A' \<and> quiet A' \<and> call_keys A' = call_keys A \<and> wait_keys A' = wait_keys A"
proof -
  from read_sim [OF assms, of ops t dev ty inst pr idx port] obtain p q w' where
    r: "p \<notin> fst ` set (calls A)" "q \<notin> fst ` set (waits A)"
    "bacnetReadProperty ops t env dev ty inst pr idx port w =
      Some (fst (view_read ops t env dev ty inst pr idx port p q A), w')"
    "sim w' (snd (view_read ops t env dev ty inst pr idx port p q A))"
    "quiet (snd (view_read ops t env dev ty inst pr idx port p q A))" by blast
  with others_read [OF r(2,1), of ops t env dev ty inst pr idx port] show ?thesis by blast
qed

definition sample_env :: "event list \<Rightarrow> call_env" where
  "sample_env es = \<lparr>bind_events = [], reply_events = es, last_seconds = 0, current_seconds = 0\<rparr>"

definition sample_ack :: event where
  "sample_ack = Confirmed_Ack SERVICE_CONFIRMED_READ_PROPERTY [42] sample_address 1"

lemma bacnetReadProperty_returns_witness:
  "\<exists>ret w' A'. bacnetReadProperty sample_stack sample_handlers (sample_env [sample_ack]) 9 0 1 85 0 47808
      sample_world = Some (ret, w') \<and>
    sim w' A' \<and> quiet A' \<and> call_keys A' = call_keys sample_view \<and> wait_keys A' = wait_keys sample_view"
  by (rule bacnetReadProperty_returns) (simp_all add: sample_env_def sample_ack_def)



text \<open>
  Reading from a device in the stack's address cache: the result is exactly the value of the
  first acceptable acknowledgement, and NULL when none arrives before the wait ends.
\<close>

lemma bacnetReadProperty_cached:
  assumes "sim w A" and "quiet A" and "list_all event_wf (bind_events env)"
    and "list_all event_wf (reply_events env)" and "cached ops port dev a k A"
    and "i = fst (Send_Read_Property_Request ops dev ty inst pr idx k)"
  shows "\<exists>ret w'. bacnetReadProperty ops t env dev ty inst pr idx port w = Some (ret, w') \<and>
    (case replies ops t (i, a) (reply_events env) of
       [] \<Rightarrow> ret = NULL
     | v # _ \<Rightarrow> cells (app_values w') ret = Some \<lparr>value_next = NULL, value_data = v\<rparr>)"
proof -
  from read_sim [OF assms(1-4), of ops t dev ty inst pr idx port] obtain p q w' where
    p: "p \<noteq> NULL" "p \<notin> fst ` set (calls A)"
    and r: "bacnetReadProperty ops t env dev ty inst pr idx port w =
      Some (fst (view_read ops t env dev ty inst pr idx port p q A), w')"
    "sim w' (snd (view_read ops t env dev ty inst pr idx port p q A))" by blast
  have "heap_ok (vals A)" using sim_app_values [OF assms(1)] by simp
  with view_read_cached [OF p _ assms(5,6), of t env q] r(1) sim_app_values [OF r(2)]
  show ?thesis by (auto split: list.splits)
qed

lemma bacnetReadProperty_cached_sample:
  "\<exists>ret w'. bacnetReadProperty sample_stack sample_handlers (sample_env [sample_ack]) 7 0 1 85 0 47808
      sample_world = Some (ret, w') \<and>
    cells (app_values w') ret = Some \<lparr>value_next = NULL, value_data = TAG_UNSIGNED_INT 42\<rparr>"
  using bacnetReadProperty_cached [of sample_world sample_view "sample_env [sample_ack]" sample_stack 47808 7
      sample_address "()" 1 0 1 85 0 sample_handlers]
  by (simp add: sample_env_def sample_ack_def cached_def replies_def List.map_filter_simps decode_ack_def)

text \<open>Up to the end of the binding nothing depends on how a request is sent.\<close>

lemma handle_send: "handle (ops\<lparr>Send_Read_Property_Request := f\<rparr>) t e w = handle ops t e w"
  by (cases e) (simp_all add: my_i_am_handler_def My_Read_Property_Ack_Handler_def src_matches_def decode_ack_def
      MyWritePropertySimpleAckHandler_def MyErrorHandler_def MyAbortHandler_def MyRejectHandler_def
      report_failure_def Let_def cong: option.case_cong if_cong)

lemma handle_all_send: "handle_all (ops\<lparr>Send_Read_Property_Request := f\<rparr>) t es w = handle_all ops t es w"
  by (induction es arbitrary: w) (simp_all add: handle_send cong: Option.bind_cong)

lemma bind_request_send: "bind_request (ops\<lparr>Send_Read_Property_Request := f\<rparr>) = bind_request ops"
  by (intro ext) (simp add: bind_request_def)

lemma dcm_timedwait_send: "dcm_timedwait (ops\<lparr>Send_Read_Property_Request := f\<rparr>) = dcm_timedwait ops"
  by (intro ext) (simp add: dcm_timedwait_def handle_all_send)

lemma rebind_send: "rebind (ops\<lparr>Send_Read_Property_Request := f\<rparr>) = rebind ops"
  by (intro ext) (simp add: rebind_def bind_request_send timeout_seconds_def Let_def cong: if_cong)

lemma find_and_bind_send: "find_and_bind (ops\<lparr>Send_Read_Property_Request := f\<rparr>) = find_and_bind ops"
  by (intro ext) (simp add: find_and_bind_def bind_request_send dcm_timedwait_send rebind_send Let_def cong: if_cong)

text \<open>
  C18. Reading from a device that never answers the Who-Is (the stack does not bind it) returns
  NULL, and no request is sent: result and state are the same whatever the function that sends
  the request would do.
\<close>

theorem bacnetReadProperty_unknown_device:
  assumes "sim w A" and "quiet A" and "list_all event_wf (bind_events env)"
    and "list_all event_wf (reply_events env)"
    and "\<And>k. fst (address_bind_request ops dev k) = None"
  shows "\<exists>w'. \<forall>f. bacnetReadProperty (ops\<lparr>Send_Read_Property_Request := f\<rparr>) t env dev ty inst pr idx port w =
    Some (NULL, w')"
proof -
  from call_sim [OF assms(1-3), of ops t port dev] obtain p q w1 w2 where
    p: "rd_set_world 0 w = Some (p, w1)" and b: "find_and_bind ops t env p port dev w1 =
      Some (fst (view_find_and_bind ops t env p port dev q (begin_call p A)), w2)" by metis
  have "\<not> fst (view_find_and_bind ops t env p port dev q (begin_call p A))"
    by (rule view_bind_unbound [OF assms(5)])
  with p b have "bacnetReadProperty (ops\<lparr>Send_Read_Property_Request := f\<rparr>) t env dev ty inst pr idx port w =
      do { w \<leftarrow> rd_remove_world p w2; Some (NULL, w) }" for f
    by (simp add: bacnetReadProperty_def find_and_bind_send)
  note sent = this
  from read_sim [OF assms(1-4), of ops t dev ty inst pr idx port]
  have "bacnetReadProperty ops t env dev ty inst pr idx port w \<noteq> None" by auto
  with sent [of "Send_Read_Property_Request ops"] obtain w' where "rd_remove_world p w2 = Some w'"
    by (cases "rd_remove_world p w2") simp_all
  with sent show ?thesis by simp
qed

lemma bacnetReadProperty_unknown_device_witness:
  "\<exists>w'. \<forall>f. bacnetReadProperty (sample_stack\<lparr>Send_Read_Property_Request := f\<rparr>) sample_handlers (sample_env [sample_ack])
      9 0 1 85 0 47808 sample_world = Some (NULL, w')"
  by (rule bacnetReadProperty_unknown_device [OF sample_sim])
    (simp_all add: sample_env_def sample_ack_def)

text \<open>
  C14. The result of a write, with any other calls pending. If the request is not sent, because
  the device is not bound, the result is 1. If it is sent, to an address the stack has bound the
  device to (its address in the cache, if it is there), the result is 1 exactly when an error, an
  abort or a reject for the request's invoke ID came from this address; in particular it is 0,
  success, when the wait timed out, and an acknowledgement is not required at all. When the write
  fails after it was sent its entry is never removed: the pending calls grow by one entry.
\<close>

theorem bacnetWriteProperty_result:
  assumes "sim w A" and "quiet A" and "list_all event_wf (bind_events env)"
    and "list_all event_wf (reply_events env)"
  shows "\<exists>r w' A' sent extra. bacnetWriteProperty ops t env dev ty inst pr idx port prio v w = Some (r, w') \<and>
    sim w' A' \<and> quiet A' \<and> length (calls A') = length (calls A) + extra \<and>
    write_ends ops t (reply_events env) (Send_Write_Property_Request ops dev ty inst pr v prio idx) sent r extra \<and>
    (\<forall>a k. sent = Some (a, k) \<longrightarrow> (\<exists>m k0. address_bind_request ops dev k0 = (Some (m, a), k))) \<and>
    (\<forall>a k. cached ops port dev a k A \<longrightarrow> sent = Some (a, k))"
proof -
  from write_sim [OF assms(1-4), of ops t dev ty inst pr idx port prio v] obtain p q w' where
    p: "p \<noteq> NULL" "p \<notin> fst ` set (calls A)" "q \<notin> fst ` set (waits A)"
    and r: "bacnetWriteProperty ops t env dev ty inst pr idx port prio v w =
      Some (fst (view_write ops t env dev ty inst pr idx port prio v p q A), w')"
    "sim w' (snd (view_write ops t env dev ty inst pr idx port prio v p q A))"
    "quiet (snd (view_write ops t env dev ty inst pr idx port prio v p q A))" by blast
  obtain x C where C: "view_write ops t env dev ty inst pr idx port prio v p q A = (x, C)" by fastforce
  from r have w': "bacnetWriteProperty ops t env dev ty inst pr idx port prio v w = Some (x, w')" "sim w' C" "quiet C"
    unfolding C by simp_all
  from view_write_result [OF p C] w' show ?thesis by blast
qed

lemma bacnetWriteProperty_result_witness:
  "(\<exists>w'. bacnetWriteProperty sample_stack sample_handlers (sample_env []) 7 1 1 85 0 47808 8 TAG_NULL
      sample_world = Some (0, w')) \<and>
   (\<exists>w'. bacnetWriteProperty sample_stack sample_handlers
      (sample_env [Reject_PDU sample_address 1 9]) 7 1 1 85 0 47808 8 TAG_NULL sample_world = Some (1, w'))"
proof -
  have c: "cached sample_stack 47808 7 sample_address () sample_view" by (simp add: cached_def)
  have "\<exists>r w' extra. bacnetWriteProperty sample_stack sample_handlers (sample_env es) 7 1 1 85 0 47808 8 TAG_NULL
      sample_world = Some (r, w') \<and> write_ends sample_stack sample_handlers es
      (Send_Write_Property_Request sample_stack 7 1 1 85 TAG_NULL 8 0) (Some (sample_address, ())) r extra"
    if "list_all event_wf es" for es
    using bacnetWriteProperty_result [OF sample_sim sample_quiet, of "sample_env es" sample_stack sample_handlers
        7 1 1 85 0 47808 8 TAG_NULL] that c by (auto simp: sample_env_def)
  from this [of "[]"] this [of "[Reject_PDU sample_address 1 9]"] show ?thesis
    by (auto simp: write_ends_def)
qed

text \<open>
  C17. Who-Is to all devices, while no thread waits for a binding: the returned table is the old
  one with every device added whose I-Am arrived and that was not in it yet, newest first.
\<close>

theorem bacnetWhoIs_table:
  assumes "sim w A" and "quiet A" and "list_all event_wf (reply_events env)" and "waits A = []"
  shows "\<exists>l w' r. bacnetWhoIs ops t env w = Some (Some l, w') \<and> addressEntryHead w' = Some l \<and>
    rep l r \<and> map snd r = fold (announce ops t) (reply_events env) (table A)"
proof -
  from whois_sim [OF assms(1-3), of ops t] obtain p w' where
    w': "bacnetWhoIs ops t env w = Some (addressEntryHead w', w')" "sim w' (view_whois ops t env p A)"
    by blast
  from w'(2) obtain l r where "addressEntryHead w' = Some l" "rep l r"
    "map snd r = table (view_whois ops t env p A)" by (auto simp: sim_def)
  with w'(1) table_whois [OF assms(4), of ops t env p] show ?thesis by auto
qed

lemma bacnetWhoIs_table_witness:
  "\<exists>l w' r. bacnetWhoIs sample_stack sample_handlers
      (sample_env [Unconfirmed SERVICE_UNCONFIRMED_I_AM [7] sample_address]) sample_world = Some (Some l, w') \<and>
    addressEntryHead w' = Some l \<and> rep l r \<and> map snd r = [new_entry (7, 1476, sample_address)]"
  using bacnetWhoIs_table [of sample_world sample_view
      "sample_env [Unconfirmed SERVICE_UNCONFIRMED_I_AM [7] sample_address]" sample_stack sample_handlers]
  by (simp add: sample_env_def table_add_def)

end
