(* ===== verification/Chains.thy ===== *)
theory Chains
  imports CPrelude
begin

text \<open>
  Singly-linked lists through a \<open>next\<close> pointer, which the driver uses for the data of a request
  and for the values read. The cells have different types; the loops take the selector of the
  link, and their contracts are proved once in the locale \<open>chain\<close>.
\<close>

text \<open>\<open>while (current->next) current = current->next;\<close>\<close>

partial_function (option) chain_last :: "('c \<Rightarrow> ptr) \<Rightarrow> 'c heap \<Rightarrow> ptr \<Rightarrow> ptr option" where
  "chain_last nx h current = do {
     c \<leftarrow> deref h current;
     if nx c \<noteq> NULL then chain_last nx h (nx c) else Some current
   }"

text \<open>Linking the cell \<open>p\<close> behind the last one; the result is the head of the list.\<close>

definition chain_append ::
    "('c \<Rightarrow> ptr) \<Rightarrow> (ptr \<Rightarrow> 'c \<Rightarrow> 'c) \<Rightarrow> 'c heap \<Rightarrow> ptr \<Rightarrow> ptr \<Rightarrow> (ptr \<times> 'c heap) option" where
  "chain_append nx set_nx h head p =
     (if head = NULL then Some (p, h)
      else do {
        q \<leftarrow> chain_last nx h head;
        h \<leftarrow> modify h q (set_nx p);
        Some (head, h)
      })"

text \<open>The cells from \<open>p\<close> to the end hold \<open>r\<close>: their addresses, and their data without the link.\<close>

fun sseg :: "('c \<Rightarrow> ptr) \<Rightarrow> ('c \<Rightarrow> 'd) \<Rightarrow> 'c heap \<Rightarrow> ptr \<Rightarrow> (ptr \<times> 'd) list \<Rightarrow> bool" where
  "sseg nx dat h p [] = (p = NULL)"
| "sseg nx dat h p ((a, d) # r) = (p = a \<and> a \<noteq> NULL \<and>
     (case cells h a of None \<Rightarrow> False | Some c \<Rightarrow> dat c = d \<and> sseg nx dat h (nx c) r))"

lemma sseg_frame:
  "(\<And>q. q \<in> fst ` set r \<Longrightarrow> cells h' q = cells h q) \<Longrightarrow> sseg nx dat h' p r = sseg nx dat h p r"
  by (induction nx dat h p r rule: sseg.induct) (auto split: option.splits)

lemma sseg_allocated: "sseg nx dat h p r \<Longrightarrow> fst ` set r \<subseteq> allocated h"
  by (induction nx dat h p r rule: sseg.induct) (auto simp: allocated_def split: option.splits)

lemma sseg_malloc:
  assumes "heap_ok h" and "malloc c h = (q, h')" and "sseg nx dat h p r"
  shows "sseg nx dat h' p r"
proof -
  have "q \<notin> fst ` set r"
    using sseg_allocated [OF assms(3)] heap_ok_fresh [OF assms(1)] assms(2) by (auto simp: malloc_def)
  then have "sseg nx dat h' p r = sseg nx dat h p r"
    using assms(2) by (intro sseg_frame) (force simp: malloc_def)
  with assms(3) show ?thesis by simp
qed

lemma sseg_heap_set: "q \<notin> fst ` set r \<Longrightarrow> sseg nx dat (heap_set h q v) p r = sseg nx dat h p r"
  by (rule sseg_frame) auto

section \<open>The interface of a cell type\<close>

locale chain =
  fixes nx :: "'c \<Rightarrow> ptr" and set_nx :: "ptr \<Rightarrow> 'c \<Rightarrow> 'c" and dat :: "'c \<Rightarrow> 'd"
  assumes nx_set [simp]: "nx (set_nx p c) = p" and dat_set [simp]: "dat (set_nx p c) = dat c"
begin

lemma last_spec:
  "sseg nx dat h p (r @ [(a, d)]) \<Longrightarrow> chain_last nx h p = Some a"
proof (induction r arbitrary: p)
  case Nil
  then show ?case by (subst chain_last.simps) (auto simp: deref_def split: option.splits)
next
  case (Cons x r)
  obtain b e where x: "x = (b, e)" by (cases x)
  with Cons.prems obtain c where c: "cells h b = Some c" "p = b" "b \<noteq> NULL"
    and seg: "sseg nx dat h (nx c) (r @ [(a, d)])" by (auto split: option.splits)
  have "nx c \<noteq> NULL" using seg by (cases r) auto
  with c Cons.IH [OF seg] show ?case by (subst chain_last.simps) (simp add: deref_def)
qed

lemma set_last:
  "sseg nx dat h p (r @ [(a, d)]) \<Longrightarrow> distinct (map fst (r @ [(a, d)])) \<Longrightarrow>
   cells h q = Some c \<Longrightarrow> nx c = NULL \<Longrightarrow> q \<noteq> NULL \<Longrightarrow> q \<notin> fst ` set (r @ [(a, d)]) \<Longrightarrow>
   \<exists>h'. modify h a (set_nx q) = Some h' \<and> sseg nx dat h' p (r @ [(a, d), (q, dat c)])"
proof (induction r arbitrary: p)
  case Nil
  then obtain e where e: "cells h a = Some e" "p = a" "a \<noteq> NULL" "dat e = d" by (auto split: option.splits)
  have "modify h a (set_nx q) = Some (heap_set h a (Some (set_nx q e)))"
    using e by (simp add: modify_def deref_def)
  with e Nil.prems show ?case by simp
next
  case (Cons x r)
  obtain b e where x: "x = (b, e)" by (cases x)
  with Cons.prems(1) obtain f where f: "cells h b = Some f" "p = b" "b \<noteq> NULL" "dat f = e"
    and seg: "sseg nx dat h (nx f) (r @ [(a, d)])" by (auto split: option.splits)
  from Cons.IH [OF seg] Cons.prems x obtain h' where
    h': "modify h a (set_nx q) = Some h'" "sseg nx dat h' (nx f) (r @ [(a, d), (q, dat c)])" by auto
  have "a \<noteq> b" using Cons.prems(2) x by auto
  then have "cells h' b = Some f" using h'(1) f(1) by (auto simp: modify_def)
  with h' f x show ?case by simp
qed

text \<open>Appending a cell that is allocated, ends in NULL and is not in the list.\<close>

lemma append_spec:
  assumes "sseg nx dat h head r" and "distinct (map fst r)" and "heap_ok h"
    and "cells h q = Some c" and "nx c = NULL" and "q \<notin> fst ` set r"
  shows "\<exists>head' h'. chain_append nx set_nx h head q = Some (head', h') \<and> heap_ok h' \<and>
    sseg nx dat h' head' (r @ [(q, dat c)]) \<and> allocated h' = allocated h \<and>
    (\<forall>p. p \<notin> fst ` set r \<longrightarrow> cells h' p = cells h p)"
proof (cases r rule: rev_cases)
  case Nil
  with assms show ?thesis by (auto simp: chain_append_def dest: heap_ok_not_NULL)
next
  case (snoc r' x)
  obtain a d where x: "x = (a, d)" by (cases x)
  have "q \<noteq> NULL" using heap_ok_not_NULL [OF assms(3,4)] .
  with set_last [of h head r' a d q c] assms snoc x obtain h' where
    h': "modify h a (set_nx q) = Some h'" "sseg nx dat h' head (r' @ [(a, d), (q, dat c)])" by auto
  have "head \<noteq> NULL" using assms(1) snoc x by (cases r') auto
  moreover have "chain_last nx h head = Some a" using assms(1) snoc x by (simp add: last_spec)
  moreover have "\<forall>p. p \<noteq> a \<longrightarrow> cells h' p = cells h p" using h'(1) by (auto simp: modify_def)
  ultimately show ?thesis
    using h' snoc x heap_ok_modify [OF assms(3) h'(1)] modify_allocated [OF h'(1)]
    by (auto simp: chain_append_def)
qed

end

end
