(* ===== verification/AccessData.thy ===== *)
theory AccessData
  imports Chains Samples
begin

text \<open>
  The data of a get or put request: the lists of \<open>BACNET_READ_ACCESS_DATA\<close> and
  \<open>BACNET_WRITE_ACCESS_DATA\<close> cells, the list of the values read, and the conversions between
  EdgeX and BACnet values (driver.c).

  A cell points to a property reference or a property value in a heap of its own. Both kinds
  of cell have the same four members in use, so they share one record.
\<close>

record access_cell =
  object_type :: u32
  object_instance :: u32
  listOfProperties :: ptr
  access_next :: ptr

record property_reference =
  propertyIdentifier :: u32
  propertyArrayIndex :: u32

record property_value = property_reference +
  pv_value :: app_value
  pv_priority :: u8

record 'q access_store =
  access_cells :: "access_cell heap"
  properties :: "'q heap"

section \<open>Building and freeing the lists\<close>

definition bacnet_read_access_data_add ::
    "ptr \<Rightarrow> u32 \<Rightarrow> u32 \<Rightarrow> u32 \<Rightarrow> u32 \<Rightarrow> property_reference access_store \<Rightarrow>
     (ptr \<times> property_reference access_store) option" where
  "bacnet_read_access_data_add head ty property inst index st =
     (let (data, h) = malloc \<lparr>object_type = ty, object_instance = inst, listOfProperties = NULL,
                              access_next = NULL\<rparr> (access_cells st);
          (q, g) = malloc \<lparr>propertyIdentifier = property, propertyArrayIndex = index\<rparr> (properties st)
      in do {
        h \<leftarrow> modify h data (listOfProperties_update (\<lambda>_. q));
        (head, h) \<leftarrow> chain_append access_next (\<lambda>p. access_next_update (\<lambda>_. p)) h head data;
        Some (head, \<lparr>access_cells = h, properties = g\<rparr>)
      })"

text \<open>The write list grows at its head.\<close>

definition bacnet_write_access_data_add ::
    "ptr \<Rightarrow> u32 \<Rightarrow> u32 \<Rightarrow> u32 \<Rightarrow> u32 \<Rightarrow> app_value \<Rightarrow> u8 \<Rightarrow> property_value access_store \<Rightarrow>
     (ptr \<times> property_value access_store) option" where
  "bacnet_write_access_data_add head ty property inst index v priority st =
     (let (data, h) = malloc \<lparr>object_type = ty, object_instance = inst, listOfProperties = NULL,
                              access_next = NULL\<rparr> (access_cells st);
          (q, g) = malloc \<lparr>propertyIdentifier = property, propertyArrayIndex = index,
                           pv_value = v, pv_priority = priority\<rparr> (properties st)
      in do {
        h \<leftarrow> modify h data (listOfProperties_update (\<lambda>_. q));
        h \<leftarrow> modify h data (access_next_update (\<lambda>_. head));
        Some (data, \<lparr>access_cells = h, properties = g\<rparr>)
      })"

partial_function (option) read_access_data_free :: "ptr \<Rightarrow> 'q access_store \<Rightarrow> 'q access_store option" where
  "read_access_data_free current st =
     (if current = NULL then Some st
      else do {
        c \<leftarrow> deref (access_cells st) current;
        let head = access_next c;
        g \<leftarrow> free (properties st) (listOfProperties c);
        h \<leftarrow> free (access_cells st) current;
        read_access_data_free head \<lparr>access_cells = h, properties = g\<rparr>
      })"

partial_function (option) write_access_data_free :: "ptr \<Rightarrow> 'q access_store \<Rightarrow> 'q access_store option" where
  "write_access_data_free head st =
     (if head = NULL then Some st
      else do {
        let current = head;
        c \<leftarrow> deref (access_cells st) current;
        let head = access_next c;
        g \<leftarrow> free (properties st) (listOfProperties c);
        h \<leftarrow> free (access_cells st) current;
        write_access_data_free head \<lparr>access_cells = h, properties = g\<rparr>
      })"

text \<open>The requests are given by the attributes of their resources.\<close>

fun read_access_data_populate ::
    "ptr \<Rightarrow> bacnet_attributes_t list \<Rightarrow> property_reference access_store \<Rightarrow>
     (bool \<times> ptr \<times> property_reference access_store) option" where
  "read_access_data_populate head [] st = Some (True, head, st)"
| "read_access_data_populate head (attrs # requests) st = do {
     (head, st) \<leftarrow> bacnet_read_access_data_add head (attr_type attrs) (attr_property attrs)
                    (attr_instance attrs) (attr_index attrs) st;
     read_access_data_populate head requests st
   }"

section \<open>Values\<close>

text \<open>
  The value written for an EdgeX value, None when its type is not accepted. The two 64-bit
  integer types are only logged, and the zeroed value goes out: its tag is that of NULL.
\<close>

fun write_value :: "'k bacnet_stack \<Rightarrow> iot_data \<Rightarrow> app_value option" where
  "write_value ops (IOT_DATA_BOOL b) = Some (TAG_BOOLEAN b)"
| "write_value ops (IOT_DATA_STRING s) = Some (TAG_CHARACTER_STRING (characterstring_init_ansi ops s))"
| "write_value ops (IOT_DATA_UINT8 x) = Some (TAG_UNSIGNED_INT (ucast x))"
| "write_value ops (IOT_DATA_UINT16 x) = Some (TAG_UNSIGNED_INT (ucast x))"
| "write_value ops (IOT_DATA_UINT32 x) = Some (TAG_UNSIGNED_INT x)"
| "write_value ops (IOT_DATA_UINT64 x) = Some TAG_NULL"
| "write_value ops (IOT_DATA_INT8 x) = Some (TAG_SIGNED_INT (scast x))"
| "write_value ops (IOT_DATA_INT16 x) = Some (TAG_SIGNED_INT (scast x))"
| "write_value ops (IOT_DATA_INT32 x) = Some (TAG_SIGNED_INT x)"
| "write_value ops (IOT_DATA_INT64 x) = Some TAG_NULL"
| "write_value ops (IOT_DATA_FLOAT32 x) = Some (TAG_REAL x)"
| "write_value ops (IOT_DATA_FLOAT64 x) = Some (TAG_DOUBLE x)"
| "write_value ops (IOT_DATA_OTHER t) = None"

fun write_access_data_populate ::
    "'k bacnet_stack \<Rightarrow> ptr \<Rightarrow> (bacnet_attributes_t \<times> iot_data) list \<Rightarrow> property_value access_store \<Rightarrow>
     (bool \<times> ptr \<times> property_value access_store) option" where
  "write_access_data_populate ops head [] st = Some (True, head, st)"
| "write_access_data_populate ops head ((attrs, d) # requests) st =
     (case write_value ops d of
        None \<Rightarrow> do {
          st \<leftarrow> write_access_data_free head st;
          Some (False, head, st)
        }
      | Some v \<Rightarrow> do {
          (head, st) \<leftarrow> bacnet_write_access_data_add head (attr_type attrs) (attr_property attrs)
                         (attr_instance attrs) (attr_index attrs) v 1 st;
          write_access_data_populate ops head requests st
        })"

text \<open>The EdgeX value of a reading, None when the result is left as it was.\<close>

fun read_value :: "app_value \<Rightarrow> iot_data option" where
  "read_value (TAG_BOOLEAN b) = Some (IOT_DATA_BOOL b)"
| "read_value (TAG_CHARACTER_STRING s) = Some (IOT_DATA_STRING s)"
| "read_value (TAG_UNSIGNED_INT x) = Some (IOT_DATA_UINT32 x)"
| "read_value (TAG_SIGNED_INT x) = Some (IOT_DATA_INT32 x)"
| "read_value (TAG_REAL x) = Some (IOT_DATA_FLOAT32 x)"
| "read_value (TAG_DOUBLE x) = Some (IOT_DATA_FLOAT64 x)"
| "read_value TAG_NULL = None"
| "read_value (TAG_OTHER t bs) = None"

text \<open>The new value becomes the end of the list of values.\<close>

definition bacnet_read_application_data_value_add ::
    "ptr \<Rightarrow> ptr \<Rightarrow> value_cell heap \<Rightarrow> (ptr \<times> value_cell heap) option" where
  "bacnet_read_application_data_value_add head result h = do {
     h \<leftarrow> modify h result (value_next_update (\<lambda>_. NULL));
     chain_append value_next (\<lambda>p. value_next_update (\<lambda>_. p)) h head result
   }"

text \<open>\<open>n\<close> rounds of the loop from index \<open>i\<close>; an index past the array is undefined.\<close>

fun commandresult_loop ::
    "nat \<Rightarrow> nat \<Rightarrow> iot_data option list \<Rightarrow> ptr \<Rightarrow> value_cell heap \<Rightarrow>
     (iot_data option list \<times> value_cell heap) option" where
  "commandresult_loop 0 i readings deviceReading h = Some (readings, h)"
| "commandresult_loop (Suc n) i readings deviceReading h =
     (if deviceReading = NULL then Some (readings, h)
      else do {
        c \<leftarrow> deref h deviceReading;
        readings \<leftarrow>
          (case read_value (value_data c) of
             None \<Rightarrow> Some readings
           | Some d \<Rightarrow> if i < length readings then Some (readings[i := Some d]) else None);
        h \<leftarrow> free h deviceReading;
        commandresult_loop n (Suc i) readings (value_next c) h
      })"

definition devsdk_commandresult_populate ::
    "iot_data option list \<Rightarrow> ptr \<Rightarrow> nat \<Rightarrow> value_cell heap \<Rightarrow> (iot_data option list \<times> value_cell heap) option"
  where
  "devsdk_commandresult_populate readings read_results nreadings h =
     commandresult_loop nreadings 0 readings read_results h"

section \<open>What the lists hold\<close>

definition access_data :: "access_cell \<Rightarrow> u32 \<times> u32 \<times> ptr" where
  "access_data c = (object_type c, object_instance c, listOfProperties c)"

lemma access_data_eq:
  "access_data c = (t, i, q) \<longleftrightarrow> object_type c = t \<and> object_instance c = i \<and> listOfProperties c = q"
  by (simp add: access_data_def)

abbreviation prop_ptr :: "ptr \<times> u32 \<times> u32 \<times> ptr \<Rightarrow> ptr" where
  "prop_ptr x \<equiv> snd (snd (snd x))"

interpretation access: chain access_next "\<lambda>p. access_next_update (\<lambda>_. p)" access_data
  by unfold_locales (simp_all add: access_data_def)

interpretation results: chain value_next "\<lambda>p. value_next_update (\<lambda>_. p)" value_data
  by unfold_locales simp_all

text \<open>
  \<open>holds st0 st head xs\<close>: the list at \<open>head\<close> has the objects and properties \<open>xs\<close>, its cells are
  the only difference between the stores \<open>st0\<close> and \<open>st\<close>.
\<close>

definition holds ::
    "'q access_store \<Rightarrow> 'q access_store \<Rightarrow> ptr \<Rightarrow> (u32 \<times> u32 \<times> 'q) list \<Rightarrow> bool" where
  "holds st0 st head xs \<longleftrightarrow> heap_ok (access_cells st) \<and> heap_ok (properties st) \<and>
     (\<exists>r. sseg access_next access_data (access_cells st) head r \<and>
        distinct (map fst r) \<and> distinct (map prop_ptr r) \<and>
        map (\<lambda>(p, t, i, q). (t, i, cells (properties st) q)) r = map (\<lambda>(t, i, x). (t, i, Some x)) xs \<and>
        cells (access_cells st) |` (- fst ` set r) = cells (access_cells st0) \<and>
        cells (properties st) |` (- prop_ptr ` set r) = cells (properties st0))"

text \<open>The store is as before, but for the addresses that were used up.\<close>

definition same_store :: "'q access_store \<Rightarrow> 'q access_store \<Rightarrow> bool" where
  "same_store st0 st \<longleftrightarrow> heap_ok (access_cells st) \<and> heap_ok (properties st) \<and>
     cells (access_cells st) = cells (access_cells st0) \<and> cells (properties st) = cells (properties st0)"

lemma holds_Nil:
  "heap_ok (access_cells st) \<Longrightarrow> heap_ok (properties st) \<Longrightarrow> holds st st NULL []"
  by (auto simp: holds_def restrict_map_def)

lemma restrict_insert:
  "g p = None \<Longrightarrow> (\<And>x. x \<notin> P \<Longrightarrow> x \<noteq> p \<Longrightarrow> f x = g x) \<Longrightarrow> f |` (- insert p P) = g |` (- P)"
  by (auto simp: restrict_map_def fun_eq_iff)

lemma props_frame:
  assumes "\<And>q. q \<in> prop_ptr ` set r \<Longrightarrow> g' q = g q"
  shows "map (\<lambda>(p, t, i, q). (t, i, g' q)) r = map (\<lambda>(p, t, i, q). (t, i, g q)) r"
  using assms by (induction r) force+

lemma holds_fresh:
  assumes "map (\<lambda>(p, t, i, q). (t, i, g q)) r = map (\<lambda>(t, i, x). (t, i, Some x)) xs" and "g q = None"
  shows "q \<notin> prop_ptr ` set r"
proof
  assume "q \<in> prop_ptr ` set r"
  then obtain p t i where "(p, t, i, q) \<in> set r" by force
  then have "(t, i, g q) \<in> set (map (\<lambda>(p, t, i, q). (t, i, g q)) r)" by force
  then show False unfolding assms(1) using assms(2) by auto
qed

lemma read_add_spec:
  assumes "holds st0 st head xs"
  shows "\<exists>head' st'. bacnet_read_access_data_add head ty property inst index st = Some (head', st') \<and>
    holds st0 st' head' (xs @ [(ty, inst, \<lparr>propertyIdentifier = property, propertyArrayIndex = index\<rparr>)])"
proof -
  let ?x = "\<lparr>propertyIdentifier = property, propertyArrayIndex = index\<rparr>"
  from assms obtain r where ok: "heap_ok (access_cells st)" "heap_ok (properties st)"
    and seg: "sseg access_next access_data (access_cells st) head r"
    and dist: "distinct (map fst r)" "distinct (map prop_ptr r)"
    and data: "map (\<lambda>(p, t, i, q). (t, i, cells (properties st) q)) r = map (\<lambda>(t, i, x). (t, i, Some x)) xs"
    and frame: "cells (access_cells st) |` (- fst ` set r) = cells (access_cells st0)"
      "cells (properties st) |` (- prop_ptr ` set r) = cells (properties st0)"
    by (auto simp: holds_def)
  let ?c = "\<lparr>object_type = ty, object_instance = inst, listOfProperties = NULL, access_next = NULL\<rparr>"
  obtain d h1 where m: "malloc ?c (access_cells st) = (d, h1)" by fastforce
  obtain q g1 where n: "malloc ?x (properties st) = (q, g1)" by fastforce
  note fm = malloc_fresh [OF ok(1) m] and fn = malloc_fresh [OF ok(2) n]
  let ?c' = "\<lparr>object_type = ty, object_instance = inst, listOfProperties = q, access_next = NULL\<rparr>"
  let ?h2 = "heap_set h1 d (Some ?c')"
  have mod: "modify h1 d (listOfProperties_update (\<lambda>_. q)) = Some ?h2"
    using fm by (simp add: modify_def deref_def)
  have dr: "d \<notin> fst ` set r" using sseg_allocated [OF seg] fm(2) by (auto simp: allocated_def)
  have seg2: "sseg access_next access_data ?h2 head r"
    using sseg_malloc [OF ok(1) m seg] dr by (simp add: sseg_heap_set)
  have "heap_ok ?h2" using fm(3,4) by (intro heap_ok_update) simp_all
  from access.append_spec [OF seg2 dist(1) this _ _ dr, of ?c'] obtain head' h3 where
    h3: "chain_append access_next (\<lambda>p. access_next_update (\<lambda>_. p)) ?h2 head d = Some (head', h3)"
    "heap_ok h3" "sseg access_next access_data h3 head' (r @ [(d, access_data ?c')])"
    "\<forall>p. p \<notin> fst ` set r \<longrightarrow> cells h3 p = cells ?h2 p" by auto
  have qr: "q \<notin> prop_ptr ` set r" using holds_fresh [OF data fn(2)] .
  let ?st = "\<lparr>access_cells = h3, properties = g1\<rparr>"
  have "holds st0 ?st head' (xs @ [(ty, inst, ?x)])"
    unfolding holds_def
  proof (intro conjI exI)
    show "sseg access_next access_data (access_cells ?st) head' (r @ [(d, access_data ?c')])"
      using h3(3) by simp
    show "distinct (map fst (r @ [(d, access_data ?c')]))" using dist(1) dr by simp
    show "distinct (map prop_ptr (r @ [(d, access_data ?c')]))"
      using dist(2) qr by (simp add: access_data_def)
    have "map (\<lambda>(p, t, i, q). (t, i, cells g1 q)) r = map (\<lambda>(p, t, i, q). (t, i, cells (properties st) q)) r"
      using qr fn(3) by (intro props_frame) auto
    then show "map (\<lambda>(p, t, i, q). (t, i, cells (properties ?st) q)) (r @ [(d, access_data ?c')]) =
        map (\<lambda>(t, i, x). (t, i, Some x)) (xs @ [(ty, inst, ?x)])"
      using data fn(3) by (simp add: access_data_def)
    show "cells (access_cells ?st) |` (- fst ` set (r @ [(d, access_data ?c')])) = cells (access_cells st0)"
      unfolding frame(1) [symmetric] using fm(2,3) h3(4) by (simp add: restrict_insert)
    show "cells (properties ?st) |` (- prop_ptr ` set (r @ [(d, access_data ?c')])) = cells (properties st0)"
      unfolding frame(2) [symmetric] using fn(2,3) by (simp add: restrict_insert access_data_def)
  qed (use h3(2) fn(4) in simp_all)
  with m n mod h3(1) show ?thesis by (simp add: bacnet_read_access_data_add_def)
qed

lemma write_add_spec:
  assumes "holds st0 st head xs"
  shows "\<exists>head' st'. bacnet_write_access_data_add head ty property inst index v priority st = Some (head', st') \<and>
    holds st0 st' head' ((ty, inst, \<lparr>propertyIdentifier = property, propertyArrayIndex = index,
      pv_value = v, pv_priority = priority\<rparr>) # xs)"
proof -
  let ?x = "\<lparr>propertyIdentifier = property, propertyArrayIndex = index, pv_value = v, pv_priority = priority\<rparr>"
  from assms obtain r where ok: "heap_ok (access_cells st)" "heap_ok (properties st)"
    and seg: "sseg access_next access_data (access_cells st) head r"
    and dist: "distinct (map fst r)" "distinct (map prop_ptr r)"
    and data: "map (\<lambda>(p, t, i, q). (t, i, cells (properties st) q)) r = map (\<lambda>(t, i, x). (t, i, Some x)) xs"
    and frame: "cells (access_cells st) |` (- fst ` set r) = cells (access_cells st0)"
      "cells (properties st) |` (- prop_ptr ` set r) = cells (properties st0)"
    by (auto simp: holds_def)
  let ?c = "\<lparr>object_type = ty, object_instance = inst, listOfProperties = NULL, access_next = NULL\<rparr>"
  obtain d h1 where m: "malloc ?c (access_cells st) = (d, h1)" by fastforce
  obtain q g1 where n: "malloc ?x (properties st) = (q, g1)" by fastforce
  note fm = malloc_fresh [OF ok(1) m] and fn = malloc_fresh [OF ok(2) n]
  let ?c' = "\<lparr>object_type = ty, object_instance = inst, listOfProperties = q, access_next = head\<rparr>"
  let ?h2 = "heap_set h1 d (Some (?c'\<lparr>access_next := NULL\<rparr>))" and ?h3 = "heap_set h1 d (Some ?c')"
  have mod: "modify h1 d (listOfProperties_update (\<lambda>_. q)) = Some ?h2"
    and mod2: "modify ?h2 d (access_next_update (\<lambda>_. head)) = Some ?h3"
    using fm by (simp_all add: modify_def deref_def heap_set_def)
  have dr: "d \<notin> fst ` set r" using sseg_allocated [OF seg] fm(2) by (auto simp: allocated_def)
  have seg3: "sseg access_next access_data ?h3 head r"
    using sseg_malloc [OF ok(1) m seg] dr by (simp add: sseg_heap_set)
  have ok3: "heap_ok ?h3" using fm(3,4) by (intro heap_ok_update) simp_all
  have qr: "q \<notin> prop_ptr ` set r" using holds_fresh [OF data fn(2)] .
  let ?st = "\<lparr>access_cells = ?h3, properties = g1\<rparr>"
  have "holds st0 ?st d ((ty, inst, ?x) # xs)"
    unfolding holds_def
  proof (intro conjI exI)
    show "sseg access_next access_data (access_cells ?st) d ((d, access_data ?c') # r)"
      using seg3 fm(1) by simp
    show "distinct (map fst ((d, access_data ?c') # r))" using dist(1) dr by simp
    show "distinct (map prop_ptr ((d, access_data ?c') # r))" using dist(2) qr by (simp add: access_data_def)
    have "map (\<lambda>(p, t, i, q). (t, i, cells g1 q)) r = map (\<lambda>(p, t, i, q). (t, i, cells (properties st) q)) r"
      using qr fn(3) by (intro props_frame) auto
    then show "map (\<lambda>(p, t, i, q). (t, i, cells (properties ?st) q)) ((d, access_data ?c') # r) =
        map (\<lambda>(t, i, x). (t, i, Some x)) ((ty, inst, ?x) # xs)"
      using data fn(3) by (simp add: access_data_def)
    show "cells (access_cells ?st) |` (- fst ` set ((d, access_data ?c') # r)) = cells (access_cells st0)"
      unfolding frame(1) [symmetric] using fm(2,3) by (simp add: restrict_insert)
    show "cells (properties ?st) |` (- prop_ptr ` set ((d, access_data ?c') # r)) = cells (properties st0)"
      unfolding frame(2) [symmetric] using fn(2,3) by (simp add: restrict_insert access_data_def)
  qed (use ok3 fn(4) in simp_all)
  with m n mod mod2 show ?thesis by (simp add: bacnet_write_access_data_add_def)
qed

text \<open>Both free functions free the cells and their properties, once each.\<close>

lemma read_free_seg:
  "sseg access_next access_data (access_cells st) p r \<Longrightarrow> distinct (map fst r) \<Longrightarrow> distinct (map prop_ptr r) \<Longrightarrow>
   heap_ok (access_cells st) \<Longrightarrow> heap_ok (properties st) \<Longrightarrow>
   \<forall>x \<in> set r. cells (properties st) (prop_ptr x) \<noteq> None \<Longrightarrow>
   \<exists>st'. read_access_data_free p st = Some st' \<and> heap_ok (access_cells st') \<and> heap_ok (properties st') \<and>
     cells (access_cells st') = cells (access_cells st) |` (- fst ` set r) \<and>
     cells (properties st') = cells (properties st) |` (- prop_ptr ` set r)"
proof (induction r arbitrary: p st)
  case Nil
  then show ?case by (subst read_access_data_free.simps) (simp add: restrict_map_def)
next
  case (Cons x r)
  obtain a t i q where x: "x = (a, t, i, q)" by (metis prod_cases4)
  with Cons.prems(1) obtain c where c: "cells (access_cells st) a = Some c" "p = a" "a \<noteq> NULL"
    "listOfProperties c = q" and seg: "sseg access_next access_data (access_cells st) (access_next c) r"
    by (auto simp: access_data_eq split: option.splits)
  from Cons.prems(6) x obtain y where y: "cells (properties st) q = Some y" by auto
  then have q: "q \<noteq> NULL" using Cons.prems(5) by (auto dest: heap_ok_not_NULL)
  let ?st = "\<lparr>access_cells = heap_set (access_cells st) a None, properties = heap_set (properties st) q None\<rparr>"
  have ar: "a \<notin> fst ` set r" and qr: "q \<notin> prop_ptr ` set r" using Cons.prems(2,3) x by auto
  have seg': "sseg access_next access_data (access_cells ?st) (access_next c) r"
    using seg ar by (simp add: sseg_heap_set)
  have props: "\<forall>x \<in> set r. cells (properties ?st) (prop_ptr x) \<noteq> None"
    using Cons.prems(6) qr by (auto simp: image_iff)
  have dist: "distinct (map fst r)" "distinct (map prop_ptr r)" using Cons.prems(2,3) by simp_all
  have ok: "heap_ok (access_cells ?st)" "heap_ok (properties ?st)"
    using Cons.prems(4,5) by (simp_all add: heap_ok_delete)
  from Cons.IH [OF seg' dist ok props] obtain st' where
    st': "read_access_data_free (access_next c) ?st = Some st'"
    "heap_ok (access_cells st')" "heap_ok (properties st')"
    "cells (access_cells st') = cells (access_cells ?st) |` (- fst ` set r)"
    "cells (properties st') = cells (properties ?st) |` (- prop_ptr ` set r)" by blast
  have "read_access_data_free p st = Some st'"
    using c y q st'(1) by (subst read_access_data_free.simps) (simp add: deref_def free_def)
  with st' x show ?case by (auto simp: restrict_map_def fun_eq_iff)
qed

lemma write_free_read_free:
  "write_access_data_free p st = Some st' \<Longrightarrow> read_access_data_free p st = Some st'"
proof (erule write_access_data_free.raw_induct [rotated])
  fix f :: "ptr \<Rightarrow> 'a access_store \<Rightarrow> 'a access_store option" and p st st'
  assume "\<And>p st st'. f p st = Some st' \<Longrightarrow> read_access_data_free p st = Some st'"
    and "(if p = NULL then Some st
      else do {
        let current = p;
        c \<leftarrow> deref (access_cells st) current;
        let head = access_next c;
        g \<leftarrow> free (properties st) (listOfProperties c);
        h \<leftarrow> free (access_cells st) current;
        f head \<lparr>access_cells = h, properties = g\<rparr>
      }) = Some st'"
  then show "read_access_data_free p st = Some st'"
    by (subst read_access_data_free.simps) (auto simp: Let_def split: if_splits Option.bind_splits)
qed

lemma read_free_write_free:
  "read_access_data_free p st = Some st' \<Longrightarrow> write_access_data_free p st = Some st'"
proof (erule read_access_data_free.raw_induct [rotated])
  fix f :: "ptr \<Rightarrow> 'a access_store \<Rightarrow> 'a access_store option" and p st st'
  assume "\<And>p st st'. f p st = Some st' \<Longrightarrow> write_access_data_free p st = Some st'"
    and "(if p = NULL then Some st
      else do {
        c \<leftarrow> deref (access_cells st) p;
        let head = access_next c;
        g \<leftarrow> free (properties st) (listOfProperties c);
        h \<leftarrow> free (access_cells st) p;
        f head \<lparr>access_cells = h, properties = g\<rparr>
      }) = Some st'"
  then show "write_access_data_free p st = Some st'"
    by (subst write_access_data_free.simps) (auto simp: Let_def split: if_splits Option.bind_splits)
qed

lemma write_free_eq: "write_access_data_free p st = read_access_data_free p st"
  using write_free_read_free [of p st] read_free_write_free [of p st]
  by (cases "read_access_data_free p st"; cases "write_access_data_free p st") auto

lemma holds_free:
  assumes "holds st0 st head xs"
  shows "\<exists>st'. read_access_data_free head st = Some st' \<and> same_store st0 st'"
proof -
  from assms obtain r where ok: "heap_ok (access_cells st)" "heap_ok (properties st)"
    and seg: "sseg access_next access_data (access_cells st) head r"
    and dist: "distinct (map fst r)" "distinct (map prop_ptr r)"
    and data: "map (\<lambda>(p, t, i, q). (t, i, cells (properties st) q)) r = map (\<lambda>(t, i, x). (t, i, Some x)) xs"
    and frame: "cells (access_cells st) |` (- fst ` set r) = cells (access_cells st0)"
      "cells (properties st) |` (- prop_ptr ` set r) = cells (properties st0)"
    by (auto simp: holds_def)
  have "\<forall>x \<in> set r. cells (properties st) (prop_ptr x) \<noteq> None"
    using holds_fresh [OF data] by blast
  from read_free_seg [OF seg dist ok this] frame show ?thesis by (auto simp: same_store_def)
qed

definition read_item :: "bacnet_attributes_t \<Rightarrow> u32 \<times> u32 \<times> property_reference" where
  "read_item attrs = (attr_type attrs, attr_instance attrs,
     \<lparr>propertyIdentifier = attr_property attrs, propertyArrayIndex = attr_index attrs\<rparr>)"

definition write_item :: "bacnet_attributes_t \<Rightarrow> app_value \<Rightarrow> u32 \<times> u32 \<times> property_value" where
  "write_item attrs v = (attr_type attrs, attr_instance attrs,
     \<lparr>propertyIdentifier = attr_property attrs, propertyArrayIndex = attr_index attrs,
      pv_value = v, pv_priority = 1\<rparr>)"

lemma read_populate_spec:
  "holds st0 st head xs \<Longrightarrow> \<exists>head' st'. read_access_data_populate head requests st = Some (True, head', st') \<and>
     holds st0 st' head' (xs @ map read_item requests)"
proof (induction requests arbitrary: head st xs)
  case (Cons a requests)
  from read_add_spec [OF Cons.prems, of "attr_type a" "attr_property a" "attr_instance a" "attr_index a"]
  obtain head1 st1 where 1: "bacnet_read_access_data_add head (attr_type a) (attr_property a)
      (attr_instance a) (attr_index a) st = Some (head1, st1)" "holds st0 st1 head1 (xs @ [read_item a])"
    unfolding read_item_def by blast
  from Cons.IH [OF 1(2)] 1(1) show ?case by auto
qed simp

text \<open>The values that go out, None when the type of one of them is not accepted.\<close>

fun write_items ::
    "'k bacnet_stack \<Rightarrow> (bacnet_attributes_t \<times> iot_data) list \<Rightarrow> (u32 \<times> u32 \<times> property_value) list option" where
  "write_items ops [] = Some []"
| "write_items ops ((a, d) # requests) = do {
     v \<leftarrow> write_value ops d;
     xs \<leftarrow> write_items ops requests;
     Some (write_item a v # xs)
   }"

lemma write_populate_spec:
  "holds st0 st head xs \<Longrightarrow>
   (case write_items ops requests of
      None \<Rightarrow> \<exists>head' st'. write_access_data_populate ops head requests st = Some (False, head', st') \<and>
        same_store st0 st'
    | Some ys \<Rightarrow> \<exists>head' st'. write_access_data_populate ops head requests st = Some (True, head', st') \<and>
        holds st0 st' head' (rev ys @ xs))"
proof (induction ops requests arbitrary: head st xs rule: write_items.induct)
  case (2 ops a d requests)
  show ?case
  proof (cases "write_value ops d")
    case None
    with holds_free [OF "2.prems"] show ?thesis by (auto simp: write_free_eq)
  next
    case (Some v)
    from write_add_spec [OF "2.prems", of "attr_type a" "attr_property a" "attr_instance a" "attr_index a" v 1]
    obtain head1 st1 where 1: "bacnet_write_access_data_add head (attr_type a) (attr_property a)
        (attr_instance a) (attr_index a) v 1 st = Some (head1, st1)" "holds st0 st1 head1 (write_item a v # xs)"
      unfolding write_item_def by blast
    from "2.IH" [OF Some 1(2)] 1(1) Some show ?thesis by (auto split: option.splits)
  qed
qed simp

section \<open>Handing over the values read\<close>

text \<open>The array of results after the values \<open>vs\<close> were stored from index \<open>i\<close> on.\<close>

fun fill :: "nat \<Rightarrow> app_value list \<Rightarrow> iot_data option list \<Rightarrow> iot_data option list" where
  "fill i [] readings = readings"
| "fill i (v # vs) readings =
     fill (Suc i) vs (case read_value v of None \<Rightarrow> readings | Some d \<Rightarrow> readings[i := Some d])"

lemma fill_length [simp]: "length (fill i vs readings) = length readings"
  by (induction i vs readings rule: fill.induct) (auto split: option.splits)

lemma fill_nth:
  "i + length vs \<le> length readings \<Longrightarrow> j < length readings \<Longrightarrow>
   fill i vs readings ! j =
     (if i \<le> j \<and> j < i + length vs \<and> read_value (vs ! (j - i)) \<noteq> None
      then read_value (vs ! (j - i)) else readings ! j)"
  by (induction i vs readings rule: fill.induct)
    (auto simp: nth_list_update less_Suc_eq_le Suc_diff_le nth_Cons' split: option.splits)

lemma commandresult_loop_spec:
  "sseg value_next value_data h p r \<Longrightarrow> distinct (map fst r) \<Longrightarrow> heap_ok h \<Longrightarrow> length r \<le> n \<Longrightarrow>
   i + length r \<le> length readings \<Longrightarrow>
   \<exists>h'. commandresult_loop n i readings p h = Some (fill i (map snd r) readings, h') \<and> heap_ok h' \<and>
     cells h' = cells h |` (- fst ` set r)"
proof (induction r arbitrary: n i readings p h)
  case Nil
  then show ?case by (cases n) (auto simp: restrict_map_def)
next
  case (Cons x r)
  obtain a v where x: "x = (a, v)" by (cases x)
  from Cons.prems(4) obtain m where n: "n = Suc m" "length r \<le> m" by (cases n) auto
  from Cons.prems(1) x obtain c where c: "cells h a = Some c" "p = a" "a \<noteq> NULL" "value_data c = v"
    and seg: "sseg value_next value_data h (value_next c) r" by (auto split: option.splits)
  let ?h = "heap_set h a None"
  let ?rs = "case read_value v of None \<Rightarrow> readings | Some d \<Rightarrow> readings[i := Some d]"
  have ar: "a \<notin> fst ` set r" "distinct (map fst r)" using Cons.prems(2) x by auto
  have seg': "sseg value_next value_data ?h (value_next c) r" using seg ar(1) by (simp add: sseg_heap_set)
  have ok: "heap_ok ?h" using Cons.prems(3) by (simp add: heap_ok_delete)
  have len: "Suc i + length r \<le> length ?rs" using Cons.prems(5) by (simp split: option.splits)
  from Cons.IH [OF seg' ar(2) ok n(2) len] obtain h' where
    h': "commandresult_loop m (Suc i) ?rs (value_next c) ?h = Some (fill (Suc i) (map snd r) ?rs, h')"
    "heap_ok h'" "cells h' = cells ?h |` (- fst ` set r)" by blast
  have "commandresult_loop n i readings p h = Some (fill i (map snd (x # r)) readings, h')"
    using c h'(1) n(1) x Cons.prems(5) by (auto simp: deref_def free_def split: option.splits)
  moreover have "cells h' = cells h |` (- fst ` set (x # r))"
    using h'(3) x by (auto simp: restrict_map_def fun_eq_iff)
  ultimately show ?case using h'(2) by blast
qed

section \<open>Properties\<close>

text \<open>
  C25. The data of a get request: building it from the requests succeeds, the list holds one cell
  per request in the order of the requests, with the type, instance, property and index of each,
  and freeing the list restores the memory exactly: no cell or property is leaked or freed twice.
\<close>

theorem read_access_data_life_cycle:
  assumes "heap_ok (access_cells st)" and "heap_ok (properties st)"
  shows "\<exists>head st1 st2. read_access_data_populate NULL requests st = Some (True, head, st1) \<and>
    holds st st1 head (map read_item requests) \<and>
    read_access_data_free head st1 = Some st2 \<and> same_store st st2"
  using read_populate_spec [OF holds_Nil [OF assms], of requests] holds_free by fastforce

definition empty_store :: "'q access_store" where
  "empty_store = \<lparr>access_cells = empty_heap, properties = empty_heap\<rparr>"

lemma empty_store_ok [simp]: "heap_ok (access_cells empty_store)" "heap_ok (properties empty_store)"
  by (simp_all add: empty_store_def)

definition sample_attrs :: "u32 \<Rightarrow> bacnet_attributes_t" where
  "sample_attrs i = \<lparr>attr_instance = i, attr_property = 85, attr_type = 0, attr_index = UINT32_MAX\<rparr>"

lemma read_access_data_life_cycle_witness:
  "\<exists>head st1 st2. read_access_data_populate NULL [sample_attrs 3, sample_attrs 4] empty_store = Some (True, head, st1) \<and>
    holds empty_store st1 head [read_item (sample_attrs 3), read_item (sample_attrs 4)] \<and>
    read_access_data_free head st1 = Some st2 \<and> same_store empty_store st2"
  using read_access_data_life_cycle [of empty_store "[sample_attrs 3, sample_attrs 4]"] by simp

text \<open>
  C24. The data of a put request: when every value has an accepted type, the list holds one cell
  per request, in the reverse order of the requests and all with priority 1; when one has not,
  the function returns false and the memory is exactly as before.
\<close>

theorem write_access_data_populated:
  assumes "heap_ok (access_cells st)" and "heap_ok (properties st)"
  shows "\<exists>ok head st'. write_access_data_populate ops NULL requests st = Some (ok, head, st') \<and>
    (case write_items ops requests of
       None \<Rightarrow> \<not> ok \<and> same_store st st'
     | Some ys \<Rightarrow> ok \<and> holds st st' head (rev ys))"
  using write_populate_spec [OF holds_Nil [OF assms], of ops requests] by (auto split: option.splits)

lemma write_access_data_populated_witness:
  "(\<exists>head st'. write_access_data_populate sample_stack NULL
      [(sample_attrs 3, IOT_DATA_BOOL True), (sample_attrs 4, IOT_DATA_UINT8 200)] empty_store =
        Some (True, head, st') \<and>
      holds empty_store st' head [write_item (sample_attrs 4) (TAG_UNSIGNED_INT 200),
        write_item (sample_attrs 3) (TAG_BOOLEAN True)]) \<and>
   (\<exists>head st'. write_access_data_populate sample_stack NULL
      [(sample_attrs 3, IOT_DATA_BOOL True), (sample_attrs 4, IOT_DATA_OTHER ''Map'')] empty_store =
        Some (False, head, st') \<and> same_store empty_store st')"
  using write_access_data_populated [of empty_store sample_stack
      "[(sample_attrs 3, IOT_DATA_BOOL True), (sample_attrs 4, IOT_DATA_UINT8 200)]"]
    write_access_data_populated [of empty_store sample_stack
      "[(sample_attrs 3, IOT_DATA_BOOL True), (sample_attrs 4, IOT_DATA_OTHER ''Map'')]"]
  by (auto simp del: write_access_data_populate.simps)

text \<open>
  C23. Handing the values read to EdgeX: the value at each position of the list goes to the
  result with the same index, the results of values without an EdgeX type and those past the
  end of the list stay as they were, and every value of the list is freed, once.
\<close>

theorem devsdk_commandresult_populate_correct:
  assumes "sseg value_next value_data h p r" and "distinct (map fst r)" and "heap_ok h"
    and "length r \<le> length readings"
  shows "\<exists>readings' h'. devsdk_commandresult_populate readings p (length readings) h = Some (readings', h') \<and>
    length readings' = length readings \<and>
    (\<forall>j < length readings. readings' ! j =
       (if j < length r \<and> read_value (snd (r ! j)) \<noteq> None then read_value (snd (r ! j)) else readings ! j)) \<and>
    cells h' = cells h |` (- fst ` set r)"
  using commandresult_loop_spec [OF assms(1-4), of 0 readings] assms(4)
  by (auto simp: devsdk_commandresult_populate_def fill_nth)

lemma devsdk_commandresult_populate_correct_witness:
  "\<exists>readings' h'. devsdk_commandresult_populate [None, None] 1 2
      (snd (malloc \<lparr>value_next = NULL, value_data = TAG_BOOLEAN True\<rparr> empty_heap)) = Some (readings', h') \<and>
    readings' ! 0 = Some (IOT_DATA_BOOL True) \<and> readings' ! 1 = None \<and> cells h' 1 = None"
proof -
  let ?h = "snd (malloc \<lparr>value_next = NULL, value_data = TAG_BOOLEAN True\<rparr> empty_heap)"
  have "heap_ok ?h" by (metis heap_ok_empty heap_ok_malloc prod.collapse)
  moreover have "sseg value_next value_data ?h 1 [(1, TAG_BOOLEAN True)]"
    by (simp add: malloc_def empty_heap_def)
  ultimately show ?thesis
    using devsdk_commandresult_populate_correct [of ?h 1 "[(1, TAG_BOOLEAN True)]" "[None, None]"]
    by (fastforce simp: All_less_Suc numeral_2_eq_2)
qed

section \<open>Conversions\<close>

text \<open>The number an EdgeX integer stands for.\<close>

fun iot_int :: "iot_data \<Rightarrow> int option" where
  "iot_int (IOT_DATA_UINT8 x) = Some (uint x)"
| "iot_int (IOT_DATA_UINT16 x) = Some (uint x)"
| "iot_int (IOT_DATA_UINT32 x) = Some (uint x)"
| "iot_int (IOT_DATA_UINT64 x) = Some (uint x)"
| "iot_int (IOT_DATA_INT8 x) = Some (sint x)"
| "iot_int (IOT_DATA_INT16 x) = Some (sint x)"
| "iot_int (IOT_DATA_INT32 x) = Some (sint x)"
| "iot_int (IOT_DATA_INT64 x) = Some (sint x)"
| "iot_int _ = None"

fun wide :: "iot_data \<Rightarrow> bool" where
  "wide (IOT_DATA_UINT64 x) = True"
| "wide (IOT_DATA_INT64 x) = True"
| "wide _ = False"

text \<open>
  C31. Writing a value and reading it back: an integer of up to 32 bits keeps the number it stands
  for, with its sign, a boolean or floating-point value comes back unchanged; a 64-bit integer,
  whose type is reported as not supported, is accepted and written as the NULL value.
\<close>

theorem value_round_trip:
  "(if wide d then write_value ops d = Some TAG_NULL
    else case iot_int d of
      Some n \<Rightarrow> \<exists>v d'. write_value ops d = Some v \<and> read_value v = Some d' \<and> iot_int d' = Some n
    | None \<Rightarrow> (case d of
        IOT_DATA_STRING s \<Rightarrow> write_value ops d = Some (TAG_CHARACTER_STRING (characterstring_init_ansi ops s))
      | IOT_DATA_OTHER t \<Rightarrow> write_value ops d = None
      | _ \<Rightarrow> \<exists>v. write_value ops d = Some v \<and> read_value v = Some d))"
  by (cases d) (auto simp: sint_up_scast is_up uint_up_ucast)

end
