(* ===== verification/Alone.thy ===== *)
theory Alone
  imports Replies
begin

text \<open>
  A read or write while no other thread has a call pending or waits for a binding: what it does
  to the whole state, exactly, whether the stack knows the address of the device or has to ask
  for it. The commands of an EdgeX request and a discovery are sequences of such calls.
\<close>

section \<open>One pending call\<close>

definition alone :: "'k view \<Rightarrow> bool" where
  "alone A \<longleftrightarrow> calls A = [] \<and> waits A = [] \<and> heap_ok (vals A)"

text \<open>The heap of values after a reply \<open>v\<close> was stored in it.\<close>

definition stored :: "app_value option \<Rightarrow> value_cell heap \<Rightarrow> value_cell heap" where
  "stored v V = (case v of None \<Rightarrow> V | Some x \<Rightarrow> snd (malloc \<lparr>value_next = NULL, value_data = x\<rparr> V))"

definition result_ptr :: "app_value option \<Rightarrow> value_cell heap \<Rightarrow> ptr" where
  "result_ptr v V = (case v of None \<Rightarrow> NULL | Some x \<Rightarrow> brk V)"

lemma heap_ok_stored: "heap_ok V \<Longrightarrow> heap_ok (stored v V)"
  by (auto simp: stored_def split: option.splits) (metis heap_ok_malloc prod.collapse)

text \<open>
  What an I-Am does to the stack and to the table while the binding of device \<open>x\<close> is waited for:
  the address of this device goes to the stack, any other device to the table.
\<close>

fun hear ::
    "'k bacnet_stack \<Rightarrow> apdu_handlers \<Rightarrow> u32 option \<Rightarrow> event \<Rightarrow> 'k \<times> address_entry list \<Rightarrow>
     'k \<times> address_entry list" where
  "hear ops t x (Unconfirmed s req src) (k, T) =
     (let (len, device_id, max_apdu) = iam_decode_service_request ops req
      in if unconfirmed_handler t s = Some Handler_IAm \<and> len \<noteq> -1
         then if x = Some device_id then (address_add_binding ops device_id max_apdu src k, T)
              else (k, table_add device_id max_apdu src T)
         else (k, T))"
| "hear ops t x _ s = s"

lemma hear_announce: "hear ops t None e (k, T) = (k, announce ops t e T)"
  by (cases e) (auto split: prod.splits)

lemma hear_all_announce: "fold (hear ops t None) es (k, T) = (k, fold (announce ops t) es T)"
  by (induction es arbitrary: T) (simp_all add: hear_announce)

text \<open>Who waits for a binding: nobody, or entry \<open>q\<close> for device \<open>dev\<close>.\<close>

definition waiting_for :: "(ptr \<times> u32) option \<Rightarrow> 'k view \<Rightarrow> bool" where
  "waiting_for x A \<longleftrightarrow> (case x of
     None \<Rightarrow> waits A = []
   | Some (q, dev) \<Rightarrow> q \<noteq> NULL \<and> (\<exists>d. waits A = [(q, d)] \<and> wait_key d = (dev, Some zero_address)))"

text \<open>
  The only call is \<open>p\<close>, it has received \<open>v\<close> so far, \<open>b\<close> says whether it has failed, and \<open>s\<close> are
  the stack and the table.
\<close>

definition lone ::
    "ptr \<Rightarrow> u8 \<times> bacnet_address \<Rightarrow> app_value option \<Rightarrow> bool \<Rightarrow> value_cell heap \<Rightarrow> (ptr \<times> u32) option \<Rightarrow>
     'k \<times> address_entry list \<Rightarrow> 'k view \<Rightarrow> bool" where
  "lone p ia v b V x s A \<longleftrightarrow> p \<noteq> NULL \<and> waiting_for x A \<and> (vstk A, table A) = s \<and> heap_ok V \<and>
     vals A = stored v V \<and>
     (\<exists>d. calls A = [(p, d)] \<and> call_key d = ia \<and> rd_value d = result_ptr v V \<and> rd_errorDetected d = b)"

lemma hear_step:
  assumes "waiting_for x A"
  shows "waiting_for x (view_handle ops t e A) \<and>
    (vstk (view_handle ops t e A), table (view_handle ops t e A)) =
      hear ops t (map_option snd x) e (vstk A, table A)"
proof (cases e)
  case (Unconfirmed s req src)
  obtain n dev m where d: "iam_decode_service_request ops req = (n, dev, m)" by (metis prod_cases3)
  show ?thesis
  proof (cases x)
    case None
    with assms Unconfirmed d show ?thesis by (auto simp: waiting_for_def view_i_am_def)
  next
    case (Some y)
    obtain q dv where y: "y = (q, dv)" by fastforce
    with Some assms obtain c where "q \<noteq> NULL" "waits A = [(q, c)]" "wait_key c = (dv, Some zero_address)"
      by (auto simp: waiting_for_def)
    with Some y Unconfirmed d show ?thesis
      by (auto simp: waiting_for_def view_i_am_def wait_key_def upd_wait_def)
  qed
qed (use assms in \<open>auto simp: waiting_for_def view_read_ack_def view_write_ack_def view_failure_def
    split: option.splits prod.splits\<close>)

lemma lone_step:
  assumes "lone p ia v b V x s A"
  shows "lone p ia (case v of None \<Rightarrow> reply ops t ia e | Some y \<Rightarrow> Some y) (b \<or> failure ops t ia e) V x
    (hear ops t (map_option snd x) e s) (view_handle ops t e A)"
proof -
  obtain i a where ia: "ia = (i, a)" by fastforce
  from assms obtain d where A: "p \<noteq> NULL" "waiting_for x A" "(vstk A, table A) = s" "heap_ok V"
    "vals A = stored v V" "calls A = [(p, d)]" "rd_requestInvokeID d = i" "rd_targetAddress d = a"
    "rd_value d = result_ptr v V" "rd_errorDetected d = b" by (auto simp: lone_def call_key_def ia)
  have brk: "0 < brk V" using heap_ok_fresh [OF A(4)] by simp
  note h = hear_step [OF A(2), of ops t e, unfolded A(3)]
  show ?thesis
  proof (cases e)
    case (Unconfirmed s req src)
    with A ia h show ?thesis
      by (auto simp: lone_def view_i_am_def call_key_def split: prod.splits option.splits)
  next
    case (Confirmed_Ack s req src j)
    with A ia brk h show ?thesis
      by (cases v; cases "decode_ack ops req")
        (auto simp: lone_def view_read_ack_def call_key_def stored_def result_ptr_def malloc_def upd_call_def)
  qed (use A ia h in \<open>auto simp: lone_def view_failure_def view_write_ack_def call_key_def upd_call_def
      split: option.splits\<close>)
qed

definition first_reply ::
    "'k bacnet_stack \<Rightarrow> apdu_handlers \<Rightarrow> u8 \<times> bacnet_address \<Rightarrow> event list \<Rightarrow> app_value option" where
  "first_reply ops t ia es = (case replies ops t ia es of [] \<Rightarrow> None | v # _ \<Rightarrow> Some v)"

definition failed ::
    "'k bacnet_stack \<Rightarrow> apdu_handlers \<Rightarrow> u8 \<times> bacnet_address \<Rightarrow> event list \<Rightarrow> bool" where
  "failed ops t ia es = list_ex (failure ops t ia) es"

lemma lone_all:
  "lone p ia v b V x s A \<Longrightarrow>
   lone p ia (case v of None \<Rightarrow> first_reply ops t ia es | Some y \<Rightarrow> Some y) (b \<or> failed ops t ia es) V x
     (fold (hear ops t (map_option snd x)) es s) (view_handle_all ops t es A)"
proof (induction es arbitrary: v b s A)
  case Nil
  then show ?case by (cases v) (simp_all add: first_reply_def failed_def replies_def List.map_filter_simps)
next
  case (Cons e es)
  from Cons.IH [OF lone_step [OF Cons.prems, of ops t e]] show ?case
    by (auto simp: first_reply_def failed_def replies_def List.map_filter_simps disj_assoc split: option.splits)
qed

section \<open>The calls\<close>

text \<open>
  Binding: the stack knows the address, or it is asked again after a Who-Is during which the
  messages \<open>bind_events\<close> come in. The result is the address, and the state left behind.
\<close>

definition bind_spec ::
    "'k bacnet_stack \<Rightarrow> apdu_handlers \<Rightarrow> call_env \<Rightarrow> u16 \<Rightarrow> u32 \<Rightarrow> 'k \<times> address_entry list \<Rightarrow>
     bacnet_address option \<times> 'k \<times> address_entry list" where
  "bind_spec ops t env port dev s =
     (if BACNET_MAX_INSTANCE ops < dev then (None, s)
      else let (found, k) = address_bind_request ops dev
                 (if datalink ops = BACDL_BIP then bip_set_port ops (htons port) (fst s) else fst s)
        in case found of
             Some (m, a) \<Rightarrow> (Some a, k, snd s)
           | None \<Rightarrow>
               (let (k, T) = fold (hear ops t (Some dev)) (bind_events env) (Send_WhoIs ops dev dev k, snd s)
                in if failed ops t (0, zero_address) (bind_events env) then (None, k, T)
                   else let (found, k) = address_bind_request ops dev k
                     in (map_option snd found, k, T)))"

text \<open>
  The request is sent to the address found, and then the messages \<open>reply_events\<close> come in. The
  result is the invoke ID and the address of the request, if it was sent.
\<close>

definition call_spec ::
    "'k bacnet_stack \<Rightarrow> apdu_handlers \<Rightarrow> call_env \<Rightarrow> u16 \<Rightarrow> u32 \<Rightarrow> ('k \<Rightarrow> u8 \<times> 'k) \<Rightarrow>
     'k \<times> address_entry list \<Rightarrow> (u8 \<times> bacnet_address) option \<times> 'k \<times> address_entry list" where
  "call_spec ops t env port dev send s =
     (case bind_spec ops t env port dev s of
        (None, s) \<Rightarrow> (None, s)
      | (Some a, k, T) \<Rightarrow>
          (let (i, k) = send k in (Some (i, a), k, fold (announce ops t) (reply_events env) T)))"

text \<open>The value a read returns, and whether a write fails.\<close>

definition read_answer ::
    "'k bacnet_stack \<Rightarrow> apdu_handlers \<Rightarrow> call_env \<Rightarrow> (u8 \<times> bacnet_address) option \<Rightarrow> app_value option" where
  "read_answer ops t env ia = (case ia of None \<Rightarrow> None | Some ia \<Rightarrow> first_reply ops t ia (reply_events env))"

definition write_fails ::
    "'k bacnet_stack \<Rightarrow> apdu_handlers \<Rightarrow> call_env \<Rightarrow> (u8 \<times> bacnet_address) option \<Rightarrow> bool" where
  "write_fails ops t env ia = (case ia of None \<Rightarrow> True | Some ia \<Rightarrow> failed ops t ia (reply_events env))"

text \<open>
  The messages of a call: sources are well-formed, and no acknowledgement with invoke ID 0 comes
  from the zero address while the binding is waited for (the entry is matched by these then).
\<close>

definition env_wf :: "call_env \<Rightarrow> bool" where
  "env_wf e \<longleftrightarrow> list_all event_wf (bind_events e) \<and> list_all event_wf (reply_events e)"

definition env_ok :: "'k bacnet_stack \<Rightarrow> apdu_handlers \<Rightarrow> call_env \<Rightarrow> bool" where
  "env_ok ops t e \<longleftrightarrow> env_wf e \<and> replies ops t (0, zero_address) (bind_events e) = []"

lemma lone_vstk: "lone p ia v b V x s A \<Longrightarrow> lone p ia v b V x (k, snd s) (A\<lparr>vstk := k\<rparr>)"
  by (auto simp: lone_def waiting_for_def split: option.splits)

lemma lone_request:
  assumes "lone p (0, a) None b V None s A" and "view_bind_request ops dev p A = (found, B)"
    and "address_bind_request ops dev (fst s) = (r, k)"
  shows "found = (r \<noteq> None) \<and>
    lone p (0, case r of None \<Rightarrow> a | Some (m, a) \<Rightarrow> a) None b V None (k, snd s) B"
proof -
  have "vstk A = fst s" using assms(1) by (auto simp: lone_def)
  with assms lone_vstk [OF assms(1), of k] show ?thesis
    by (cases r) (auto simp: view_bind_request_def lone_def call_key_def waiting_for_def upd_call_def)
qed

lemma lone_whois_one:
  assumes "lone p (0, zero_address) None False V None s A" and "q \<noteq> NULL"
    and "replies ops t (0, zero_address) es = []"
  shows "lone p (0, zero_address) None (failed ops t (0, zero_address) es) V None
    (fold (hear ops t (Some dev)) es (Send_WhoIs ops dev dev (fst s), snd s)) (view_whois_one ops t es dev q A)"
proof -
  let ?s = "(Send_WhoIs ops dev dev (fst s), snd s)"
  let ?A = "A\<lparr>waits := (q, new_dcm (dev, Some zero_address)) # waits A, vstk := Send_WhoIs ops dev dev (vstk A)\<rparr>"
  have "lone p (0, zero_address) None False V (Some (q, dev)) ?s ?A"
    using assms(1,2) by (auto simp: lone_def waiting_for_def wait_key_def)
  from lone_all [OF this, of ops t es] assms(3)
  have "lone p (0, zero_address) None (failed ops t (0, zero_address) es) V (Some (q, dev))
      (fold (hear ops t (Some dev)) es ?s) (view_handle_all ops t es ?A)" by (simp add: first_reply_def)
  then show ?thesis
    by (auto simp: view_whois_one_def Let_def lone_def waiting_for_def)
qed

lemma lone_has_error: "lone p ia v b V x s A \<Longrightarrow> has_error p A = b"
  by (auto simp: lone_def has_error_def)

lemma lone_error: "lone p ia v b V x s A \<Longrightarrow> lone p ia v True V x s (view_error p A)"
  by (auto simp: lone_def view_error_def call_key_def waiting_for_def upd_call_def split: option.splits)

lemma lone_set_port:
  "lone p ia v b V x s A \<Longrightarrow>
   lone p ia v b V x (if datalink ops = BACDL_BIP then bip_set_port ops (htons port) (fst s) else fst s, snd s)
     (view_set_port ops port A)"
  by (auto simp: view_set_port_def lone_def waiting_for_def split: option.splits)

lemma lone_bind:
  assumes "lone p (0, zero_address) None False V None s A" and "q \<noteq> NULL"
    and "replies ops t (0, zero_address) (bind_events env) = []"
    and "view_find_and_bind ops t env p port dev q A = (f, B)"
    and "bind_spec ops t env port dev s = (r, s')"
  shows "f = (r \<noteq> None) \<and> (\<exists>a b. lone p (0, a) None b V None s' B \<and> (\<forall>x. r = Some x \<longrightarrow> a = x \<and> \<not> b))"
proof (cases "BACNET_MAX_INSTANCE ops < dev")
  case True
  with assms show ?thesis by (auto simp: view_find_and_bind_def bind_spec_def)
next
  case False
  let ?k = "if datalink ops = BACDL_BIP then bip_set_port ops (htons port) (fst s) else fst s"
  obtain f1 A1 where b1: "view_bind_request ops dev p (view_set_port ops port A) = (f1, A1)" by fastforce
  obtain r1 k1 where r1: "address_bind_request ops dev ?k = (r1, k1)" by fastforce
  from lone_request [OF lone_set_port [OF assms(1)] b1, of r1 k1] r1
  have A1: "f1 = (r1 \<noteq> None)" "lone p (0, case r1 of None \<Rightarrow> zero_address | Some (m, a) \<Rightarrow> a) None False V None (k1, snd s) A1"
    by simp_all
  show ?thesis
  proof (cases r1)
    case (Some y)
    with A1 assms(4,5) False b1 r1 show ?thesis
      by (cases y) (auto simp: view_find_and_bind_def bind_spec_def)
  next
    case None
    let ?es = "bind_events env" and ?s1 = "(k1, snd s)"
    let ?A2 = "view_whois_one ops t ?es dev q A1" let ?b = "failed ops t (0, zero_address) ?es"
    obtain k2 T2 where s2: "fold (hear ops t (Some dev)) ?es (Send_WhoIs ops dev dev k1, snd s) = (k2, T2)" by fastforce
    have "lone p (0, zero_address) None False V None ?s1 A1" using A1(2) None by simp
    from lone_whois_one [OF this assms(2,3), of dev] s2
    have A2: "lone p (0, zero_address) None ?b V None (k2, T2) ?A2" by simp
    obtain f3 A3 where b3: "view_bind_request ops dev p ?A2 = (f3, A3)" by fastforce
    obtain r3 k3 where r3: "address_bind_request ops dev k2 = (r3, k3)" by fastforce
    from lone_request [OF A2 b3, of r3 k3] r3
    have A3: "f3 = (r3 \<noteq> None)" "lone p (0, case r3 of None \<Rightarrow> zero_address | Some (m, a) \<Rightarrow> a) None ?b V None (k3, T2) A3"
      by simp_all
    have spec: "(r, s') = (if ?b then (None, k2, T2) else (map_option snd r3, k3, T2))"
      using assms(5) False None r1 s2 r3 by (cases ?b) (simp_all add: bind_spec_def)
    have view: "(f, B) = (if ?b then (False, ?A2) else if f3 then (True, A3)
        else if timeout_seconds ops < current_seconds env - last_seconds env then (False, view_error p A3) else (False, A3))"
      using assms(4) False None A1(1) b1 b3 lone_has_error [OF A2]
      by (cases ?b; cases f3) (simp_all add: view_find_and_bind_def)
    show ?thesis
    proof (cases ?b)
      case True
      with spec view A2 show ?thesis by auto
    next
      case nb: False
      note e = lone_error [OF A3(2)]
      show ?thesis
      proof (cases r3)
        case None
        with spec view A3 e nb show ?thesis by (auto split: if_splits)
      next
        case (Some y)
        with spec view A3 nb show ?thesis by (cases y) auto
      qed
    qed
  qed
qed

lemma lone_begin:
  assumes "alone A" and "p \<noteq> NULL"
  shows "lone p (0, zero_address) None False (vals A) None (vstk A, table A) (begin_call p A)"
  using assms by (simp add: lone_def alone_def waiting_for_def begin_call_def call_key_def zero_return_data_def
      stored_def result_ptr_def)

lemma lone_await:
  assumes "lone p (j, a) None False V None s A"
  shows "lone p (fst ik, a) (first_reply ops t (fst ik, a) es) (failed ops t (fst ik, a) es) V None
    (snd ik, fold (announce ops t) es (snd s)) (view_await ops t es p ik A)"
proof -
  have "lone p (fst ik, a) None False V None (snd ik, snd s)
      ((upd_call p (rd_requestInvokeID_update (\<lambda>_. fst ik)) A)\<lparr>vstk := snd ik\<rparr>)"
    using assms by (auto simp: lone_def call_key_def upd_call_def waiting_for_def)
  from lone_all [OF this, of ops t es] show ?thesis by (simp add: view_await_def hear_all_announce)
qed

lemma lone_end:
  assumes "lone p ia v b V None s A"
  shows "alone (end_call p A)" and "vals (end_call p A) = stored v V" and "value_of p A = result_ptr v V"
    and "(vstk (end_call p A), table (end_call p A)) = s"
  using assms heap_ok_stored [of V v]
  by (auto simp: lone_def end_call_def alone_def waiting_for_def value_of_def)

lemma view_read_alone:
  assumes "alone A" and "p \<noteq> NULL" and "q \<noteq> NULL"
    and "replies ops t (0, zero_address) (bind_events env) = []"
    and "call_spec ops t env port dev (Send_Read_Property_Request ops dev ty inst pr idx) (vstk A, table A) = (ia, s)"
    and "view_read ops t env dev ty inst pr idx port p q A = (ret, C)"
  shows "ret = result_ptr (read_answer ops t env ia) (vals A) \<and> vals C = stored (read_answer ops t env ia) (vals A) \<and>
    alone C \<and> (vstk C, table C) = s"
proof -
  let ?send = "Send_Read_Property_Request ops dev ty inst pr idx"
  obtain f B where B: "view_find_and_bind ops t env p port dev q (begin_call p A) = (f, B)" by fastforce
  obtain r s1 where r: "bind_spec ops t env port dev (vstk A, table A) = (r, s1)" by (metis prod.collapse)
  from lone_bind [OF lone_begin [OF assms(1,2)] assms(3,4) B r] obtain a b where
    l: "f = (r \<noteq> None)" "lone p (0, a) None b (vals A) None s1 B" "\<forall>x. r = Some x \<longrightarrow> a = x \<and> \<not> b" by blast
  show ?thesis
  proof (cases r)
    case None
    with assms(5,6) B r l lone_end [OF l(2)] show ?thesis
      by (auto simp: call_spec_def view_read_def read_answer_def result_ptr_def)
  next
    case (Some x)
    let ?D = "view_await ops t (reply_events env) p (?send (vstk B)) B"
    from l Some have "lone p (0, x) None False (vals A) None s1 B" by simp
    from lone_await [OF this, of "?send (vstk B)" ops t "reply_events env"]
    have D: "lone p (fst (?send (fst s1)), x) (first_reply ops t (fst (?send (fst s1)), x) (reply_events env))
        (failed ops t (fst (?send (fst s1)), x) (reply_events env)) (vals A) None
        (snd (?send (fst s1)), fold (announce ops t) (reply_events env) (snd s1)) ?D"
      using l(2) by (auto simp: lone_def)
    with Some assms(5,6) B r l lone_end [OF D] show ?thesis
      by (auto simp: call_spec_def view_read_def read_answer_def split: prod.splits)
  qed
qed

lemma view_write_alone:
  assumes "alone A" and "p \<noteq> NULL" and "q \<noteq> NULL"
    and "replies ops t (0, zero_address) (bind_events env) = []"
    and "call_spec ops t env port dev (Send_Write_Property_Request ops dev ty inst pr v prio idx) (vstk A, table A) =
      (ia, s)"
    and "view_write ops t env dev ty inst pr idx port prio v p q A = (r, C)"
  shows "r = (if write_fails ops t env ia then 1 else 0) \<and> (\<not> write_fails ops t env ia \<longrightarrow> alone C) \<and>
    (vstk C, table C) = s"
proof -
  let ?send = "Send_Write_Property_Request ops dev ty inst pr v prio idx"
  obtain f B where B: "view_find_and_bind ops t env p port dev q (begin_call p A) = (f, B)" by fastforce
  obtain r1 s1 where r: "bind_spec ops t env port dev (vstk A, table A) = (r1, s1)" by (metis prod.collapse)
  from lone_bind [OF lone_begin [OF assms(1,2)] assms(3,4) B r] obtain a b where
    l: "f = (r1 \<noteq> None)" "lone p (0, a) None b (vals A) None s1 B" "\<forall>x. r1 = Some x \<longrightarrow> a = x \<and> \<not> b" by blast
  show ?thesis
  proof (cases r1)
    case None
    with assms(5,6) B r l lone_end [OF l(2)] show ?thesis
      by (auto simp: call_spec_def view_write_def write_fails_def)
  next
    case (Some x)
    let ?D = "view_await ops t (reply_events env) p (?send (vstk B)) B"
    let ?b = "failed ops t (fst (?send (fst s1)), x) (reply_events env)"
    from l Some have "lone p (0, x) None False (vals A) None s1 B" by simp
    from lone_await [OF this, of "?send (vstk B)" ops t "reply_events env"]
    have D: "lone p (fst (?send (fst s1)), x) (first_reply ops t (fst (?send (fst s1)), x) (reply_events env))
        ?b (vals A) None (snd (?send (fst s1)), fold (announce ops t) (reply_events env) (snd s1)) ?D"
      using l(2) by (auto simp: lone_def)
    have "(r, C) = (if ?b then (1, ?D) else (0, end_call p ?D))" and "write_fails ops t env ia = ?b"
      and "s = (snd (?send (fst s1)), fold (announce ops t) (reply_events env) (snd s1))"
      using Some assms(5,6) B r l(1) lone_has_error [OF D]
      by (auto simp: call_spec_def view_write_def write_fails_def Let_def split: prod.splits)
    moreover have "(vstk ?D, table ?D) = (snd (?send (fst s1)), fold (announce ops t) (reply_events env) (snd s1))"
      using D by (simp add: lone_def)
    ultimately show ?thesis using lone_end [OF D] by (auto split: if_splits)
  qed
qed

text \<open>The calls of the code, in these terms.\<close>

lemma read_alone:
  assumes "sim w A" and "quiet A" and "alone A" and "env_ok ops t env"
    and "call_spec ops t env port dev (Send_Read_Property_Request ops dev ty inst pr idx) (vstk A, table A) = (ia, s)"
  shows "\<exists>w' C. bacnetReadProperty ops t env dev ty inst pr idx port w =
      Some (result_ptr (read_answer ops t env ia) (vals A), w') \<and>
    sim w' C \<and> quiet C \<and> alone C \<and> (vstk C, table C) = s \<and> vals C = stored (read_answer ops t env ia) (vals A)"
proof -
  have e: "list_all event_wf (bind_events env)" "list_all event_wf (reply_events env)"
    "replies ops t (0, zero_address) (bind_events env) = []" using assms(4) by (simp_all add: env_ok_def env_wf_def)
  from read_sim [OF assms(1,2) e(1,2), of ops t dev ty inst pr idx port] obtain p q w' where
    p: "p \<noteq> NULL" "q \<noteq> NULL" and r: "bacnetReadProperty ops t env dev ty inst pr idx port w =
      Some (fst (view_read ops t env dev ty inst pr idx port p q A), w')"
    "sim w' (snd (view_read ops t env dev ty inst pr idx port p q A))"
    "quiet (snd (view_read ops t env dev ty inst pr idx port p q A))" by blast
  obtain ret C where C: "view_read ops t env dev ty inst pr idx port p q A = (ret, C)" by fastforce
  from view_read_alone [OF assms(3) p e(3) assms(5) C] r C show ?thesis by auto
qed

lemma write_alone:
  assumes "sim w A" and "quiet A" and "alone A" and "env_ok ops t env"
    and "call_spec ops t env port dev (Send_Write_Property_Request ops dev ty inst pr v prio idx) (vstk A, table A) =
      (ia, s)"
  shows "\<exists>w' C. bacnetWriteProperty ops t env dev ty inst pr idx port prio v w =
      Some (if write_fails ops t env ia then 1 else 0, w') \<and>
    sim w' C \<and> quiet C \<and> (\<not> write_fails ops t env ia \<longrightarrow> alone C) \<and> (vstk C, table C) = s"
proof -
  have e: "list_all event_wf (bind_events env)" "list_all event_wf (reply_events env)"
    "replies ops t (0, zero_address) (bind_events env) = []" using assms(4) by (simp_all add: env_ok_def env_wf_def)
  from write_sim [OF assms(1,2) e(1,2), of ops t dev ty inst pr idx port prio v] obtain p q w' where
    p: "p \<noteq> NULL" "q \<noteq> NULL" and r: "bacnetWriteProperty ops t env dev ty inst pr idx port prio v w =
      Some (fst (view_write ops t env dev ty inst pr idx port prio v p q A), w')"
    "sim w' (snd (view_write ops t env dev ty inst pr idx port prio v p q A))"
    "quiet (snd (view_write ops t env dev ty inst pr idx port prio v p q A))" by blast
  obtain ret C where C: "view_write ops t env dev ty inst pr idx port prio v p q A = (ret, C)" by fastforce
  from view_write_alone [OF assms(3) p e(3) assms(5) C] r C show ?thesis by auto
qed

end
