(* ===== verification/Commands.thy ===== *)
theory Commands
  imports AccessData Alone
begin

text \<open>
  The get and put handlers of main.c. The messages that arrive during the \<open>n\<close>-th call of a
  request are those of \<open>env n\<close>.
\<close>

section \<open>The handlers\<close>

text \<open>The members that are logged when a value cannot be read.\<close>

definition print_read_error :: "ptr \<Rightarrow> property_reference access_store \<Rightarrow> (u32 \<times> u32 \<times> u32 \<times> u32) option" where
  "print_read_error data st = do {
     c \<leftarrow> deref (access_cells st) data;
     q \<leftarrow> deref (properties st) (listOfProperties c);
     Some (object_type c, object_instance c, propertyIdentifier q, propertyArrayIndex q)
   }"

partial_function (option) get_loop ::
    "'k bacnet_stack \<Rightarrow> apdu_handlers \<Rightarrow> (nat \<Rightarrow> call_env) \<Rightarrow> device_address \<Rightarrow> property_reference access_store \<Rightarrow>
     nat \<Rightarrow> ptr \<Rightarrow> ptr \<Rightarrow> 'k world \<Rightarrow> (bool \<times> ptr \<times> 'k world) option" where
  "get_loop ops t env address st n current_data read_results w =
     (if current_data = NULL then Some (True, read_results, w)
      else do {
        addr \<leftarrow> as_bacnet_address address;
        c \<leftarrow> deref (access_cells st) current_data;
        q \<leftarrow> deref (properties st) (listOfProperties c);
        (result, w) \<leftarrow> bacnetReadProperty ops t (env n) (addr_deviceInstance addr) (object_type c)
                        (object_instance c) (propertyIdentifier q) (propertyArrayIndex q) (addr_port addr) w;
        if result \<noteq> NULL then do {
          (read_results, h) \<leftarrow> bacnet_read_application_data_value_add read_results result (app_values w);
          get_loop ops t env address st (Suc n) (access_next c) read_results (w\<lparr>app_values := h\<rparr>)
        }
        else do {
          _ \<leftarrow> print_read_error current_data st;
          Some (False, read_results, w)
        }
      })"

text \<open>The result: success, the readings, the exception.\<close>

definition bacnet_get_handler ::
    "'k bacnet_stack \<Rightarrow> apdu_handlers \<Rightarrow> (nat \<Rightarrow> call_env) \<Rightarrow> device_address \<Rightarrow> bacnet_attributes_t list \<Rightarrow>
     iot_data option list \<Rightarrow> property_reference access_store \<Rightarrow> 'k world \<Rightarrow>
     ((bool \<times> iot_data option list \<times> string option) \<times> property_reference access_store \<times> 'k world) option" where
  "bacnet_get_handler ops t env address requests readings st w = do {
     (success, read_data, st) \<leftarrow> read_access_data_populate NULL requests st;
     if \<not> success then Some ((False, readings, Some ''Error populating read_data''), st, w)
     else do {
       (ret_val, read_results, w) \<leftarrow> get_loop ops t env address st 0 read_data NULL w;
       let exc = (if ret_val then None else Some ''Error reading data'');
       st \<leftarrow> read_access_data_free read_data st;
       (readings, h) \<leftarrow> devsdk_commandresult_populate readings read_results (length requests) (app_values w);
       Some ((ret_val, readings, exc), st, w\<lparr>app_values := h\<rparr>)
     }
   }"

partial_function (option) put_loop ::
    "'k bacnet_stack \<Rightarrow> apdu_handlers \<Rightarrow> (nat \<Rightarrow> call_env) \<Rightarrow> device_address \<Rightarrow> property_value access_store \<Rightarrow>
     nat \<Rightarrow> ptr \<Rightarrow> 'k world \<Rightarrow> (int \<times> 'k world) option" where
  "put_loop ops t env address st n current_data w =
     (if current_data = NULL then Some (0, w)
      else do {
        addr \<leftarrow> as_bacnet_address address;
        c \<leftarrow> deref (access_cells st) current_data;
        q \<leftarrow> deref (properties st) (listOfProperties c);
        (error, w) \<leftarrow> bacnetWriteProperty ops t (env n) (addr_deviceInstance addr) (object_type c)
                       (object_instance c) (propertyIdentifier q) (propertyArrayIndex q) (addr_port addr)
                       (pv_priority q) (pv_value q) w;
        if error \<noteq> 0 then Some (error, w)
        else put_loop ops t env address st (Suc n) (access_next c) w
      })"

definition bacnet_put_handler ::
    "'k bacnet_stack \<Rightarrow> apdu_handlers \<Rightarrow> (nat \<Rightarrow> call_env) \<Rightarrow> device_address \<Rightarrow>
     (bacnet_attributes_t \<times> iot_data) list \<Rightarrow> property_value access_store \<Rightarrow> 'k world \<Rightarrow>
     ((bool \<times> string option) \<times> property_value access_store \<times> 'k world) option" where
  "bacnet_put_handler ops t env address requests st w = do {
     (success, write_data, st) \<leftarrow> write_access_data_populate ops NULL requests st;
     if \<not> success then Some ((False, Some ''Error populating write_data''), st, w)
     else do {
       (error, w) \<leftarrow> put_loop ops t env address st 0 write_data w;
       st \<leftarrow> write_access_data_free write_data st;
       if error \<noteq> 0 then Some ((False, Some ''Error writing property''), st, w)
       else Some ((True, None), st, w)
     }
   }"

section \<open>What they compute\<close>

text \<open>
  The values of a sequence of reads: each call starts in the state the one before has left (the
  stack and the table of discovered devices), and the first read without a value ends it.
\<close>

fun get_spec ::
    "'k bacnet_stack \<Rightarrow> apdu_handlers \<Rightarrow> (nat \<Rightarrow> call_env) \<Rightarrow> bacnet_address_t \<Rightarrow> nat \<Rightarrow>
     'k \<times> address_entry list \<Rightarrow> (u32 \<times> u32 \<times> property_reference) list \<Rightarrow>
     bool \<times> app_value list \<times> 'k \<times> address_entry list" where
  "get_spec ops t env addr n s [] = (True, [], s)"
| "get_spec ops t env addr n s ((ty, inst, q) # xs) =
     (let (ia, s) = call_spec ops t (env n) (addr_port addr) (addr_deviceInstance addr)
            (Send_Read_Property_Request ops (addr_deviceInstance addr) ty inst (propertyIdentifier q)
               (propertyArrayIndex q)) s
      in case read_answer ops t (env n) ia of
           None \<Rightarrow> (False, [], s)
         | Some v \<Rightarrow> (let (ok, vs, s) = get_spec ops t env addr (Suc n) s xs in (ok, v # vs, s)))"

fun put_spec ::
    "'k bacnet_stack \<Rightarrow> apdu_handlers \<Rightarrow> (nat \<Rightarrow> call_env) \<Rightarrow> bacnet_address_t \<Rightarrow> nat \<Rightarrow>
     'k \<times> address_entry list \<Rightarrow> (u32 \<times> u32 \<times> property_value) list \<Rightarrow> bool \<times> 'k \<times> address_entry list" where
  "put_spec ops t env addr n s [] = (True, s)"
| "put_spec ops t env addr n s ((ty, inst, q) # xs) =
     (let (ia, s) = call_spec ops t (env n) (addr_port addr) (addr_deviceInstance addr)
            (Send_Write_Property_Request ops (addr_deviceInstance addr) ty inst (propertyIdentifier q)
               (pv_value q) (pv_priority q) (propertyArrayIndex q)) s
      in if write_fails ops t (env n) ia then (False, s) else put_spec ops t env addr (Suc n) s xs)"

text \<open>\<open>results_are V A p vs\<close>: the list at \<open>p\<close> holds \<open>vs\<close>; without its cells the values are \<open>V\<close>.\<close>

definition results_are :: "(ptr \<rightharpoonup> value_cell) \<Rightarrow> 'k view \<Rightarrow> ptr \<Rightarrow> app_value list \<Rightarrow> bool" where
  "results_are V A p vs \<longleftrightarrow> (\<exists>r. sseg value_next value_data (vals A) p r \<and> distinct (map fst r) \<and>
     map snd r = vs \<and> cells (vals A) |` (- fst ` set r) = V)"

lemma alone_vals: "alone A \<Longrightarrow> heap_ok h \<Longrightarrow> alone (A\<lparr>vals := h\<rparr>)"
  by (simp add: alone_def)

text \<open>A value just received is added at the end.\<close>

lemma value_append:
  assumes "heap_ok h" and "sseg value_next value_data h p r" and "distinct (map fst r)"
    and "cells h q = Some \<lparr>value_next = NULL, value_data = v\<rparr>" and "q \<notin> fst ` set r"
  shows "\<exists>p' h'. bacnet_read_application_data_value_add p q h = Some (p', h') \<and> heap_ok h' \<and>
    sseg value_next value_data h' p' (r @ [(q, v)]) \<and> (\<forall>x. x \<notin> fst ` set r \<longrightarrow> cells h' x = cells h x)"
proof -
  let ?c = "\<lparr>value_next = NULL, value_data = v\<rparr>"
  have "modify h q (value_next_update (\<lambda>_. NULL)) = Some (heap_set h q (Some ?c))"
    using assms(4) heap_ok_not_NULL [OF assms(1,4)] by (simp add: modify_def deref_def)
  moreover have "heap_set h q (Some ?c) = h" using assms(4) by (simp add: heap_set_def fun_upd_idem)
  ultimately have "modify h q (value_next_update (\<lambda>_. NULL)) = Some h" by simp
  with results.append_spec [OF assms(2,3,1,4) _ assms(5)] show ?thesis
    by (auto simp: bacnet_read_application_data_value_add_def)
qed

lemma value_add_spec:
  assumes "alone A" and "results_are V A p vs"
  shows "\<exists>p' h. bacnet_read_application_data_value_add p (brk (vals A)) (stored (Some v) (vals A)) = Some (p', h) \<and>
    heap_ok h \<and> results_are V (A\<lparr>vals := h\<rparr>) p' (vs @ [v])"
proof -
  let ?q = "brk (vals A)" and ?c = "\<lparr>value_next = NULL, value_data = v\<rparr>"
  from assms(2) obtain r where r: "sseg value_next value_data (vals A) p r" "distinct (map fst r)"
    "map snd r = vs" "cells (vals A) |` (- fst ` set r) = V" by (auto simp: results_are_def)
  have ok: "heap_ok (vals A)" using assms(1) by (simp add: alone_def)
  obtain h0 where m: "malloc ?c (vals A) = (?q, h0)" by (simp add: malloc_def)
  note f = malloc_fresh [OF ok m]
  have s: "stored (Some v) (vals A) = h0" using m by (simp add: stored_def)
  have qr: "?q \<notin> fst ` set r" using sseg_allocated [OF r(1)] f(2) by (auto simp: allocated_def)
  have "cells h0 ?q = Some ?c" using f(3) by simp
  from value_append [OF f(4) sseg_malloc [OF ok m r(1)] r(2) this qr] obtain p' h where
    h: "bacnet_read_application_data_value_add p ?q h0 = Some (p', h)" "heap_ok h"
    "sseg value_next value_data h p' (r @ [(?q, v)])" "\<forall>x. x \<notin> fst ` set r \<longrightarrow> cells h x = cells h0 x" by auto
  have "cells h |` (- fst ` set (r @ [(?q, v)])) = V"
    unfolding r(4) [symmetric] using f(2,3) h(4) by (simp add: restrict_insert)
  then have "results_are V (A\<lparr>vals := h\<rparr>) p' (vs @ [v])"
    unfolding results_are_def using h(3) r(2,3) qr by (intro exI [of _ "r @ [(?q, v)]"]) simp
  with h(1,2) s show ?thesis by simp
qed

lemma get_loop_spec:
  assumes env: "\<And>n. env_ok ops t (env n)" and props: "heap_ok (properties st)"
  shows "sseg access_next access_data (access_cells st) c r \<Longrightarrow>
    map (\<lambda>(p, t, i, q). (t, i, cells (properties st) q)) r = map (\<lambda>(t, i, x). (t, i, Some x)) xs \<Longrightarrow>
    sim w A \<Longrightarrow> quiet A \<Longrightarrow> alone A \<Longrightarrow> results_are V A p vs \<Longrightarrow>
    get_spec ops t env addr n (vstk A, table A) xs = (ok, us, s) \<Longrightarrow>
    \<exists>p' w' A'. get_loop ops t env (Ip_Address addr) st n c p w = Some (ok, p', w') \<and> sim w' A' \<and> quiet A' \<and>
      alone A' \<and> (vstk A', table A') = s \<and> results_are V A' p' (vs @ us)"
proof (induction r arbitrary: c xs w A p vs n ok us s)
  case Nil
  then show ?case by (subst get_loop.simps) auto
next
  case (Cons x r)
  obtain b ty inst q where x: "x = (b, ty, inst, q)" by (metis prod_cases4)
  from Cons.prems(2) x obtain y ys where xs: "xs = (ty, inst, y) # ys" "cells (properties st) q = Some y"
    and ys: "map (\<lambda>(p, t, i, q). (t, i, cells (properties st) q)) r = map (\<lambda>(t, i, x). (t, i, Some x)) ys"
    by (cases xs) auto
  from Cons.prems(1) x obtain d where d: "cells (access_cells st) b = Some d" "c = b" "b \<noteq> NULL"
    "object_type d = ty" "object_instance d = inst" "listOfProperties d = q"
    and seg: "sseg access_next access_data (access_cells st) (access_next d) r"
    by (auto simp: access_data_eq split: option.splits)
  have q: "deref (properties st) q = Some y" using xs(2) props by (simp add: deref_Some_iff)
  have dc: "deref (access_cells st) c = Some d" using d by (simp add: deref_def)
  let ?dev = "addr_deviceInstance addr"
  let ?send = "Send_Read_Property_Request ops ?dev ty inst (propertyIdentifier y) (propertyArrayIndex y)"
  obtain ia s1 where call: "call_spec ops t (env n) (addr_port addr) ?dev ?send (vstk A, table A) = (ia, s1)"
    by (metis prod.collapse)
  let ?v = "read_answer ops t (env n) ia"
  from read_alone [OF Cons.prems(3-5) env call] obtain w1 C where
    read: "bacnetReadProperty ops t (env n) ?dev ty inst (propertyIdentifier y) (propertyArrayIndex y)
      (addr_port addr) w = Some (result_ptr ?v (vals A), w1)"
    and C: "sim w1 C" "quiet C" "alone C" "(vstk C, table C) = s1" "vals C = stored ?v (vals A)" by blast
  show ?case
  proof (cases ?v)
    case None
    with Cons.prems(7) xs(1) call have "\<not> ok" "us = []" "s = s1" by auto
    moreover have "get_loop ops t env (Ip_Address addr) st n c p w = Some (False, p, w1)"
      using d q dc read None
      by (subst get_loop.simps) (simp add: result_ptr_def print_read_error_def)
    moreover have "results_are V C p vs"
      using Cons.prems(6) C(5) None by (simp add: results_are_def stored_def)
    ultimately show ?thesis using C by auto
  next
    case (Some v)
    obtain ok' us' s' where spec: "get_spec ops t env addr (Suc n) s1 ys = (ok', us', s')" by (metis prod_cases3)
    with Cons.prems(7) xs(1) call Some have ok: "ok = ok'" "us = v # us'" "s = s'" by auto
    from value_add_spec [OF Cons.prems(5,6), of v] obtain p1 h where
      add: "bacnet_read_application_data_value_add p (brk (vals A)) (stored (Some v) (vals A)) = Some (p1, h)"
      "heap_ok h" "results_are V (A\<lparr>vals := h\<rparr>) p1 (vs @ [v])" by blast
    have sim1: "sim (w1\<lparr>app_values := h\<rparr>) (C\<lparr>vals := h\<rparr>)" by (rule sim_vals [OF C(1) add(2)])
    have q1: "quiet (C\<lparr>vals := h\<rparr>)" and a1: "alone (C\<lparr>vals := h\<rparr>)" and s1: "(vstk (C\<lparr>vals := h\<rparr>), table (C\<lparr>vals := h\<rparr>)) = s1"
      using C add(2) by (simp_all add: alone_vals)
    have r1: "results_are V (C\<lparr>vals := h\<rparr>) p1 (vs @ [v])" using add(3) by (simp add: results_are_def)
    from Cons.IH [OF seg ys sim1 q1 a1 r1] spec s1 obtain p' w' A' where
      loop: "get_loop ops t env (Ip_Address addr) st (Suc n) (access_next d) p1 (w1\<lparr>app_values := h\<rparr>) = Some (ok', p', w')"
      "sim w' A'" "quiet A'" "alone A'" "(vstk A', table A') = s'" "results_are V A' p' ((vs @ [v]) @ us')" by metis
    have "brk (vals A) \<noteq> NULL" using Cons.prems(5) heap_ok_fresh by (auto simp: alone_def)
    moreover have "app_values w1 = stored (Some v) (vals A)" using sim_app_values [OF C(1)] C(5) Some by simp
    ultimately have "get_loop ops t env (Ip_Address addr) st n c p w = Some (ok', p', w')"
      using d q dc read Some add(1) loop(1)
      by (subst get_loop.simps) (simp add: result_ptr_def)
    with loop(2-6) ok show ?thesis by auto
  qed
qed

lemma get_spec_length: "get_spec ops t env addr n s xs = (ok, vs, s') \<Longrightarrow> length vs \<le> length xs"
  by (induction ops t env addr n s xs arbitrary: ok vs s' rule: get_spec.induct)
    (auto split: prod.splits option.splits)

lemma put_loop_spec:
  assumes env: "\<And>n. env_ok ops t (env n)" and props: "heap_ok (properties st)"
  shows "sseg access_next access_data (access_cells st) c r \<Longrightarrow>
    map (\<lambda>(p, t, i, q). (t, i, cells (properties st) q)) r = map (\<lambda>(t, i, x). (t, i, Some x)) xs \<Longrightarrow>
    sim w A \<Longrightarrow> quiet A \<Longrightarrow> alone A \<Longrightarrow> put_spec ops t env addr n (vstk A, table A) xs = (ok, s) \<Longrightarrow>
    \<exists>e w' A'. put_loop ops t env (Ip_Address addr) st n c w = Some (e, w') \<and> (e = 0) = ok \<and> sim w' A' \<and>
      quiet A' \<and> (vstk A', table A') = s \<and> (ok \<longrightarrow> alone A')"
proof (induction r arbitrary: c xs w A n ok s)
  case Nil
  then show ?case by (subst put_loop.simps) auto
next
  case (Cons x r)
  obtain b ty inst q where x: "x = (b, ty, inst, q)" by (metis prod_cases4)
  from Cons.prems(2) x obtain y ys where xs: "xs = (ty, inst, y) # ys" "cells (properties st) q = Some y"
    and ys: "map (\<lambda>(p, t, i, q). (t, i, cells (properties st) q)) r = map (\<lambda>(t, i, x). (t, i, Some x)) ys"
    by (cases xs) auto
  from Cons.prems(1) x obtain d where d: "cells (access_cells st) b = Some d" "c = b" "b \<noteq> NULL"
    "object_type d = ty" "object_instance d = inst" "listOfProperties d = q"
    and seg: "sseg access_next access_data (access_cells st) (access_next d) r"
    by (auto simp: access_data_eq split: option.splits)
  have q: "deref (properties st) q = Some y" using xs(2) props by (simp add: deref_Some_iff)
  have dc: "deref (access_cells st) c = Some d" using d by (simp add: deref_def)
  let ?dev = "addr_deviceInstance addr"
  let ?send = "Send_Write_Property_Request ops ?dev ty inst (propertyIdentifier y) (pv_value y) (pv_priority y)
      (propertyArrayIndex y)"
  obtain ia s1 where call: "call_spec ops t (env n) (addr_port addr) ?dev ?send (vstk A, table A) = (ia, s1)"
    by (metis prod.collapse)
  let ?f = "write_fails ops t (env n) ia"
  from write_alone [OF Cons.prems(3-5) env call] obtain w1 C where
    wr: "bacnetWriteProperty ops t (env n) ?dev ty inst (propertyIdentifier y) (propertyArrayIndex y)
      (addr_port addr) (pv_priority y) (pv_value y) w = Some (if ?f then 1 else 0, w1)"
    and C: "sim w1 C" "quiet C" "\<not> ?f \<Longrightarrow> alone C" "(vstk C, table C) = s1" by blast
  show ?case
  proof (cases ?f)
    case True
    with Cons.prems(6) xs(1) call have "\<not> ok" "s = s1" by auto
    moreover have "put_loop ops t env (Ip_Address addr) st n c w = Some (1, w1)"
      using d q dc wr True by (subst put_loop.simps) simp
    ultimately show ?thesis using C by auto
  next
    case False
    with Cons.prems(6) xs(1) call C(4) have "put_spec ops t env addr (Suc n) (vstk C, table C) ys = (ok, s)" by simp
    from Cons.IH [OF seg ys C(1,2) C(3) [OF False] this] obtain e w' A' where
      "put_loop ops t env (Ip_Address addr) st (Suc n) (access_next d) w1 = Some (e, w')" "(e = 0) = ok"
      "sim w' A'" "quiet A'" "(vstk A', table A') = s" "ok \<longrightarrow> alone A'" by blast
    moreover have "put_loop ops t env (Ip_Address addr) st n c w =
        put_loop ops t env (Ip_Address addr) st (Suc n) (access_next d) w1"
      using d q dc wr False by (subst put_loop.simps) simp
    ultimately show ?thesis by auto
  qed
qed

section \<open>Properties\<close>

text \<open>
  C3. The get handler, while no other thread has a call in progress, for any device and any
  messages. The requests are sent in order, each in the state the previous one left behind, which
  includes what a Who-Is for a device whose address the stack does not know has changed; the
  first request that cannot be sent or gets no acceptable acknowledgement ends the command with
  an exception. The result at each index is the value of the request with that index, converted
  to EdgeX; results past the failing request are not touched. All memory the handler allocated
  for the requests and for the values is freed again, on success and on failure.
\<close>

theorem bacnet_get_handler_correct:
  assumes "sim w A" and "quiet A" and "alone A" and "\<And>n. env_ok ops t (env n)"
    and "heap_ok (access_cells st)" and "heap_ok (properties st)" and "length readings = length requests"
    and "get_spec ops t env addr 0 (vstk A, table A) (map read_item requests) = (ok, vs, s)"
  shows "\<exists>readings' st' w' A'.
    bacnet_get_handler ops t env (Ip_Address addr) requests readings st w =
      Some ((ok, readings', if ok then None else Some ''Error reading data''), st', w') \<and>
    length readings' = length readings \<and>
    (\<forall>j < length readings. readings' ! j =
       (if j < length vs \<and> read_value (vs ! j) \<noteq> None then read_value (vs ! j) else readings ! j)) \<and>
    same_store st st' \<and> sim w' A' \<and> quiet A' \<and> alone A' \<and> (vstk A', table A') = s \<and>
    cells (vals A') = cells (vals A)"
proof -
  from read_populate_spec [OF holds_Nil [OF assms(5,6)], of requests] obtain head st1 where
    pop: "read_access_data_populate NULL requests st = Some (True, head, st1)"
    and holds: "holds st st1 head (map read_item requests)" by auto
  from holds obtain r where r: "sseg access_next access_data (access_cells st1) head r" "heap_ok (properties st1)"
    "map (\<lambda>(p, t, i, q). (t, i, cells (properties st1) q)) r = map (\<lambda>(t, i, x). (t, i, Some x)) (map read_item requests)"
    by (auto simp: holds_def)
  have r0: "results_are (cells (vals A)) A NULL []" by (simp add: results_are_def restrict_map_def)
  from get_loop_spec [OF assms(4) r(2,1,3) assms(1-3) r0 assms(8)] obtain p w1 B where
    loop: "get_loop ops t env (Ip_Address addr) st1 0 head NULL w = Some (ok, p, w1)"
    and B: "sim w1 B" "quiet B" "alone B" "(vstk B, table B) = s" "results_are (cells (vals A)) B p vs" by auto
  from holds_free [OF holds] obtain st2 where
    fr: "read_access_data_free head st1 = Some st2" "same_store st st2" by blast
  from B(5) obtain rs where rs: "sseg value_next value_data (vals B) p rs" "distinct (map fst rs)"
    "map snd rs = vs" "cells (vals B) |` (- fst ` set rs) = cells (vals A)" by (auto simp: results_are_def)
  have len: "length rs \<le> length readings"
    using get_spec_length [OF assms(8)] arg_cong [OF rs(3), of length] assms(7) by simp
  have ok: "heap_ok (vals B)" using B(3) by (simp add: alone_def)
  from commandresult_loop_spec [OF rs(1,2) ok, of "length readings" 0 readings] len obtain h where
    h: "devsdk_commandresult_populate readings p (length readings) (vals B) = Some (fill 0 vs readings, h)"
    "heap_ok h" "cells h = cells (vals A)" using rs(3,4) by (auto simp: devsdk_commandresult_populate_def)
  have "bacnet_get_handler ops t env (Ip_Address addr) requests readings st w =
      Some ((ok, fill 0 vs readings, if ok then None else Some ''Error reading data''), st2, w1\<lparr>app_values := h\<rparr>)"
    using pop loop fr(1) h(1) sim_app_values [OF B(1)] assms(7) by (simp add: bacnet_get_handler_def)
  moreover have "length vs \<le> length readings" using len rs(3) by auto
  ultimately show ?thesis using fr(2) sim_vals [OF B(1) h(2)] alone_vals [OF B(3) h(2)] B(2,4) h(3)
    by (intro exI [of _ "fill 0 vs readings"] exI [of _ st2] exI [of _ "w1\<lparr>app_values := h\<rparr>"]
        exI [of _ "B\<lparr>vals := h\<rparr>"]) (auto simp: fill_nth)
qed

definition sample_device :: bacnet_address_t where
  "sample_device = \<lparr>addr_port = 47808, addr_deviceInstance = 7\<rparr>"

lemma sample_alone: "alone sample_view" "alone learning_view"
  by (simp_all add: alone_def)

definition sample_envs :: "nat \<Rightarrow> call_env" where
  "sample_envs n = sample_env (if n = 0 then [sample_ack] else [])"

text \<open>The device answers to the first Who-Is, and only to the first request.\<close>

definition learning_envs :: "nat \<Rightarrow> call_env" where
  "learning_envs n = sample_envs n
     \<lparr>bind_events := [Unconfirmed SERVICE_UNCONFIRMED_I_AM [7] sample_address]\<rparr>"

lemma sample_envs_ok: "env_ok sample_stack sample_handlers (sample_envs n)"
  "env_ok learning_stack sample_handlers (learning_envs n)"
  by (simp_all add: learning_envs_def sample_envs_def sample_env_def sample_ack_def env_ok_def env_wf_def
      replies_def List.map_filter_simps)

lemma learning_call:
  "call_spec learning_stack sample_handlers (learning_envs n) port 7 send (b, T) =
     (Some (fst (send True), sample_address), snd (send True), T)"
  by (cases b) (simp_all add: call_spec_def bind_spec_def learning_envs_def sample_envs_def sample_env_def
      sample_ack_def failed_def split: prod.splits)

lemma learning_answer:
  "read_answer learning_stack sample_handlers (learning_envs n) (Some (1, sample_address)) =
     (if n = 0 then Some (TAG_UNSIGNED_INT 42) else None)"
  by (simp add: read_answer_def learning_envs_def sample_envs_def sample_env_def sample_ack_def first_reply_def
      replies_def List.map_filter_simps decode_ack_def)

lemma sample_call:
  "call_spec sample_stack t env port 7 send (k, T) =
     (Some (fst (send ()), sample_address), (), fold (announce sample_stack t) (reply_events env) T)"
  by (simp add: call_spec_def bind_spec_def split: prod.splits)

lemma bacnet_get_handler_correct_witness:
  "\<exists>readings' st' w'. bacnet_get_handler learning_stack sample_handlers learning_envs (Ip_Address sample_device)
      [sample_attrs 1, sample_attrs 2] [None, None] empty_store learning_world =
    Some ((False, readings', Some ''Error reading data''), st', w') \<and>
    readings' ! 0 = Some (IOT_DATA_UINT32 42) \<and> readings' ! 1 = None \<and> same_store empty_store st'"
proof -
  let ?v = "TAG_UNSIGNED_INT 42"
  have "get_spec learning_stack sample_handlers learning_envs sample_device 0 (vstk learning_view, table learning_view)
      (map read_item [sample_attrs 1, sample_attrs 2]) = (False, [?v], True, [])"
    by (simp add: learning_call learning_answer sample_device_def read_item_def)
  from bacnet_get_handler_correct [where env = learning_envs and readings = "[None, None]",
      OF learning_ok sample_alone(2) sample_envs_ok(2) empty_store_ok _ this]
  obtain readings' st' w' where
    g: "bacnet_get_handler learning_stack sample_handlers learning_envs (Ip_Address sample_device)
      [sample_attrs 1, sample_attrs 2] [None, None] empty_store learning_world =
        Some ((False, readings', Some ''Error reading data''), st', w')"
    and r: "\<forall>j < length [None, None :: iot_data option]. readings' ! j =
      (if j < length [?v] \<and> read_value ([?v] ! j) \<noteq> None then read_value ([?v] ! j) else [None, None] ! j)"
    and s: "same_store empty_store st'" by auto
  have "readings' ! 0 = Some (IOT_DATA_UINT32 42)" "readings' ! 1 = None"
    using r [rule_format, of 0] r [rule_format, of 1] by simp_all
  with g s show ?thesis by blast
qed

text \<open>
  C5. The put handler, while no other thread has a call in progress, for any device and any
  messages. A value of a type that is not accepted makes the command fail before anything is
  sent: the state is untouched. Otherwise the writes are sent in the reverse order of the
  requests, each in the state the previous one left behind, and the first write that cannot be
  sent or that the device rejects ends the command with an exception. The memory allocated for
  the requests is freed in every case.
\<close>

theorem bacnet_put_handler_correct:
  assumes "sim w A" and "quiet A" and "alone A" and "\<And>n. env_ok ops t (env n)"
    and "heap_ok (access_cells st)" and "heap_ok (properties st)"
  shows "case write_items ops requests of
      None \<Rightarrow> \<exists>st'. bacnet_put_handler ops t env (Ip_Address addr) requests st w =
          Some ((False, Some ''Error populating write_data''), st', w) \<and> same_store st st'
    | Some items \<Rightarrow>
        (let (ok, s) = put_spec ops t env addr 0 (vstk A, table A) (rev items)
         in \<exists>st' w' A'. bacnet_put_handler ops t env (Ip_Address addr) requests st w =
             Some ((ok, if ok then None else Some ''Error writing property''), st', w') \<and>
           same_store st st' \<and> sim w' A' \<and> (ok \<longrightarrow> alone A') \<and> (vstk A', table A') = s)"
proof (cases "write_items ops requests")
  case None
  with write_populate_spec [OF holds_Nil [OF assms(5,6)], of ops requests] show ?thesis
    by (auto simp: bacnet_put_handler_def)
next
  case (Some items)
  with write_populate_spec [OF holds_Nil [OF assms(5,6)], of ops requests] obtain head st1 where
    pop: "write_access_data_populate ops NULL requests st = Some (True, head, st1)"
    and holds: "holds st st1 head (rev items)" by auto
  from holds obtain r where r: "sseg access_next access_data (access_cells st1) head r" "heap_ok (properties st1)"
    "map (\<lambda>(p, t, i, q). (t, i, cells (properties st1) q)) r = map (\<lambda>(t, i, x). (t, i, Some x)) (rev items)"
    unfolding holds_def by blast
  obtain ok s where spec: "put_spec ops t env addr 0 (vstk A, table A) (rev items) = (ok, s)" by (metis prod.collapse)
  from put_loop_spec [OF assms(4) r(2,1,3) assms(1-3) spec] obtain e w1 B where
    loop: "put_loop ops t env (Ip_Address addr) st1 0 head w = Some (e, w1)" "(e = 0) = ok"
    and B: "sim w1 B" "(vstk B, table B) = s" "ok \<longrightarrow> alone B" by blast
  from holds_free [OF holds] obtain st2 where
    fr: "write_access_data_free head st1 = Some st2" "same_store st st2" unfolding write_free_eq by blast
  have "bacnet_put_handler ops t env (Ip_Address addr) requests st w =
      Some ((ok, if ok then None else Some ''Error writing property''), st2, w1)"
    using pop loop fr(1) by (auto simp: bacnet_put_handler_def)
  with Some spec fr(2) B show ?thesis by auto
qed

lemma bacnet_put_handler_correct_witness:
  "(\<exists>st' w'. bacnet_put_handler sample_stack sample_handlers sample_envs (Ip_Address sample_device)
      [(sample_attrs 1, IOT_DATA_BOOL True)] empty_store sample_world = Some ((True, None), st', w') \<and>
    same_store empty_store st') \<and>
   (\<exists>st'. bacnet_put_handler sample_stack sample_handlers sample_envs (Ip_Address sample_device)
      [(sample_attrs 1, IOT_DATA_BOOL True), (sample_attrs 1, IOT_DATA_OTHER ''Array'')] empty_store sample_world =
        Some ((False, Some ''Error populating write_data''), st', sample_world))"
proof -
  note put = bacnet_put_handler_correct [where env = sample_envs and t = sample_handlers,
      OF sample_sim sample_quiet sample_alone(1) sample_envs_ok(1) empty_store_ok, of sample_device]
  show ?thesis
    using put [where requests = "[(sample_attrs 1, IOT_DATA_BOOL True)]"]
      put [where requests = "[(sample_attrs 1, IOT_DATA_BOOL True), (sample_attrs 1, IOT_DATA_OTHER ''Array'')]"]
    by (auto simp: sample_envs_def sample_env_def sample_ack_def failed_def write_item_def sample_call
        write_fails_def sample_device_def)
qed



end
