(* ===== verification/Attributes.thy ===== *)
theory Attributes
  imports Samples
begin

text \<open>
  The parts of main.c that turn the strings of a device profile and of a device's protocol
  properties into the driver's structures. A map of EdgeX data is a partial function from
  names; the accessor of a datum of another type than the stored one is undefined. The exception
  is None until one is set; only the first is kept.
\<close>

type_synonym iot_map = "string \<Rightarrow> iot_data option"
type_synonym exc = "string option"

text \<open>\<open>calloc\<close>: all members zero.\<close>

definition zero_attrs :: bacnet_attributes_t where
  "zero_attrs = \<lparr>attr_instance = 0, attr_property = 0, attr_type = 0, attr_index = 0\<rparr>"

fun iot_data_i64 :: "iot_data \<Rightarrow> u64 option" where
  "iot_data_i64 (IOT_DATA_INT64 x) = Some x"
| "iot_data_i64 _ = None"

section \<open>Attributes\<close>

text \<open>
  The text is printed into a block of as many bytes as it has characters, so that its
  terminating NUL does not fit. \<open>txt\<close> is the expanded format.
\<close>

definition bacnet_alloc_exception :: "string \<Rightarrow> string option" where
  "bacnet_alloc_exception txt = sprintf_into (length txt) txt"

definition quoted :: "string \<Rightarrow> string" where
  "quoted name = [CHR 0x27] @ name @ [CHR 0x27]"

definition parseInt :: "iot_map \<Rightarrow> string \<Rightarrow> u32 \<Rightarrow> exc \<Rightarrow> (u32 \<times> exc) option" where
  "parseInt m name dfl exc =
     (case m name of
        None \<Rightarrow> Some (dfl, exc)
      | Some (IOT_DATA_INT64 x) \<Rightarrow> Some (ucast x, exc)
      | Some _ \<Rightarrow>
          if exc = None then do {
            e \<leftarrow> bacnet_alloc_exception (''Attribute '' @ quoted name @ '' must be integer'');
            Some (dfl, Some e)
          }
          else Some (dfl, exc))"

fun table_lookup :: "string \<Rightarrow> (string \<times> u32) list \<Rightarrow> u32 option" where
  "table_lookup str [] = None"
| "table_lookup str ((s, v) # tbl) = (if str = s then Some v else table_lookup str tbl)"

definition bacnetPropertyMap :: "'k bacnet_stack \<Rightarrow> (string \<times> u32) list" where
  "bacnetPropertyMap ops =
     [(''present-value'', PROP_PRESENT_VALUE ops), (''object-name'', PROP_OBJECT_NAME ops)]"

definition parseProperty :: "'k bacnet_stack \<Rightarrow> iot_data option \<Rightarrow> exc \<Rightarrow> (u32 \<times> exc) option" where
  "parseProperty ops property exc =
     (case property of
        None \<Rightarrow> Some (PROP_PRESENT_VALUE ops, exc)
      | Some (IOT_DATA_STRING str) \<Rightarrow>
          (case table_lookup str (bacnetPropertyMap ops) of
             Some v \<Rightarrow> Some (v, exc)
           | None \<Rightarrow> Some (0, if exc = None then Some ''Unknown BACnet property name'' else exc))
      | Some d \<Rightarrow> map_option (\<lambda>x. (ucast x, exc)) (iot_data_i64 d))"

definition bacnetTypeMap :: "'k bacnet_stack \<Rightarrow> (string \<times> u32) list" where
  "bacnetTypeMap ops =
     [(''analog-input'', OBJECT_ANALOG_INPUT ops), (''analog-output'', OBJECT_ANALOG_OUTPUT ops),
      (''analog-value'', OBJECT_ANALOG_VALUE ops), (''binary-input'', OBJECT_BINARY_INPUT ops),
      (''binary-output'', OBJECT_BINARY_OUTPUT ops), (''binary-value'', OBJECT_BINARY_VALUE ops),
      (''device'', OBJECT_DEVICE ops)]"

definition parseType :: "'k bacnet_stack \<Rightarrow> iot_data option \<Rightarrow> exc \<Rightarrow> (u32 \<times> exc) option" where
  "parseType ops ty exc =
     (case ty of
        None \<Rightarrow> Some (0, if exc = None then Some (''Attribute '' @ quoted ''type'' @ '' is required'') else exc)
      | Some (IOT_DATA_STRING str) \<Rightarrow>
          (case table_lookup str (bacnetTypeMap ops) of
             Some v \<Rightarrow> Some (v, exc)
           | None \<Rightarrow> Some (0, if exc = None then Some ''Unknown BACnet type name'' else exc))
      | Some d \<Rightarrow> map_option (\<lambda>x. (ucast x, exc)) (iot_data_i64 d))"

definition bacnet_getattributes ::
    "'k bacnet_stack \<Rightarrow> iot_map \<Rightarrow> exc \<Rightarrow> bacnet_attributes_t heap \<Rightarrow> (ptr \<times> exc \<times> bacnet_attributes_t heap) option"
  where
  "bacnet_getattributes ops device_attr exception h =
     (let (attrs, h) = malloc zero_attrs h
      in do {
        (x, exception) \<leftarrow> parseInt device_attr ''instance'' (BACNET_MAX_INSTANCE ops) exception;
        h \<leftarrow> modify h attrs (attr_instance_update (\<lambda>_. x));
        (x, exception) \<leftarrow> parseProperty ops (device_attr ''property'') exception;
        h \<leftarrow> modify h attrs (attr_property_update (\<lambda>_. x));
        (x, exception) \<leftarrow> parseType ops (device_attr ''type'') exception;
        h \<leftarrow> modify h attrs (attr_type_update (\<lambda>_. x));
        (x, exception) \<leftarrow> parseInt device_attr ''index'' 0xFFFFFFFF exception;
        h \<leftarrow> modify h attrs (attr_index_update (\<lambda>_. x));
        a \<leftarrow> deref h attrs;
        exception \<leftarrow>
          (if attr_instance a = BACNET_MAX_INSTANCE ops \<and> exception = None
           then map_option Some (bacnet_alloc_exception (''Attribute '' @ quoted ''instance'' @ '' is required''))
           else Some exception);
        if exception \<noteq> None then do {
          h \<leftarrow> free h attrs;
          Some (NULL, exception, h)
        }
        else Some (attrs, exception, h)
      })"

definition bacnet_freeattributes :: "ptr \<Rightarrow> bacnet_attributes_t heap \<Rightarrow> bacnet_attributes_t heap option" where
  "bacnet_freeattributes attrs h = free h attrs"

section \<open>Addresses\<close>

text \<open>The properties of a protocol are strings; a protocol the device does not have is None.\<close>

definition parseStringInt :: "(string \<Rightarrow> string option) \<Rightarrow> string \<Rightarrow> u32 \<Rightarrow> u32" where
  "parseStringInt m name dfl = (case m name of None \<Rightarrow> dfl | Some elem \<Rightarrow> word_of_int (strtol0 elem))"

definition defaultPath :: string where
  "defaultPath = ''(default)''"

definition bacnet_getaddress ::
    "datalink \<Rightarrow> (string \<Rightarrow> (string \<Rightarrow> string option) option) \<Rightarrow> exc \<Rightarrow> device_address option \<times> exc" where
  "bacnet_getaddress dl protocols exception =
     (case dl of
        BACDL_MSTP \<Rightarrow>
          (case protocols ''BACnet-MSTP'' of
             None \<Rightarrow> (Some (Mstp_Path (Some defaultPath)), exception)
           | Some props \<Rightarrow> (Some (Mstp_Path (props ''Path'')), exception))
      | BACDL_BIP \<Rightarrow>
          (case protocols ''BACnet-IP'' of
             None \<Rightarrow> (None, Some ''BACnet-IP protocol must be specified'')
           | Some props \<Rightarrow>
               (let inst = parseStringInt props ''DeviceInstance'' UINT32_MAX;
                    port = ucast (parseStringInt props ''Port'' 0xBAC0);
                    exception =
                      (if inst = UINT32_MAX \<and> exception = None
                       then Some ''DeviceInstance must be specified'' else exception)
                in if exception \<noteq> None then (None, exception)
                   else (Some (Ip_Address \<lparr>addr_port = port, addr_deviceInstance = inst\<rparr>), exception))))"

section \<open>Contracts\<close>

text \<open>A printed number is read back.\<close>

lemma parse_u32: "word_of_int (strtol0 (print_dec (unat (j :: u32)))) = j"
proof -
  have "uint j < 2 ^ 32" using unsigned_less [of j, where ?'a = int] by simp
  then have "strtol0 (print_dec (unat j)) = int (unat j)"
    by (intro strtol0_print_dec) (simp add: LONG_MAX_def)
  then show ?thesis by simp
qed

lemma parse_u16: "ucast (word_of_int (strtol0 (print_dec (unat (p :: u16)))) :: u32) = p"
proof -
  have "uint p < 2 ^ 16" using unsigned_less [of p, where ?'a = int] by simp
  then have "strtol0 (print_dec (unat p)) = int (unat p)"
    by (intro strtol0_print_dec) (simp add: LONG_MAX_def)
  then have "(word_of_int (strtol0 (print_dec (unat p))) :: u32) = ucast p" by simp
  then show ?thesis by simp (rule bit_word_eqI, auto simp: bit_simps)
qed


text \<open>Every exception that is printed overruns its block.\<close>

lemma bacnet_alloc_exception_overrun: "bacnet_alloc_exception txt = None"
  by (simp add: bacnet_alloc_exception_def sprintf_into_def)

text \<open>The attribute names a profile may use, and what they stand for.\<close>

definition property_value_of :: "'k bacnet_stack \<Rightarrow> iot_data option \<Rightarrow> u32 option" where
  "property_value_of ops d =
     (case d of
        None \<Rightarrow> Some (PROP_PRESENT_VALUE ops)
      | Some (IOT_DATA_STRING s) \<Rightarrow> table_lookup s (bacnetPropertyMap ops)
      | Some (IOT_DATA_INT64 x) \<Rightarrow> Some (ucast x)
      | Some _ \<Rightarrow> None)"

definition type_value_of :: "'k bacnet_stack \<Rightarrow> iot_data option \<Rightarrow> u32 option" where
  "type_value_of ops d =
     (case d of
        None \<Rightarrow> None
      | Some (IOT_DATA_STRING s) \<Rightarrow> table_lookup s (bacnetTypeMap ops)
      | Some (IOT_DATA_INT64 x) \<Rightarrow> Some (ucast x)
      | Some _ \<Rightarrow> None)"

fun int_or_missing :: "iot_data option \<Rightarrow> bool" where
  "int_or_missing None = True"
| "int_or_missing (Some (IOT_DATA_INT64 x)) = True"
| "int_or_missing (Some d) = False"

fun name_or_int :: "iot_data option \<Rightarrow> bool" where
  "name_or_int (Some (IOT_DATA_STRING s)) = True"
| "name_or_int d = int_or_missing d"

fun int_value :: "iot_data option \<Rightarrow> u32 \<Rightarrow> u32" where
  "int_value (Some (IOT_DATA_INT64 x)) dfl = ucast x"
| "int_value _ dfl = dfl"

lemma parseInt_ok: "int_or_missing (m name) \<Longrightarrow> parseInt m name dfl exc = Some (int_value (m name) dfl, exc)"
  by (cases "m name" rule: int_or_missing.cases) (auto simp: parseInt_def)

lemma parseProperty_ok:
  "name_or_int d \<Longrightarrow> \<exists>x. parseProperty ops d exc =
     Some (x, if exc = None \<and> property_value_of ops d = None then Some ''Unknown BACnet property name'' else exc) \<and>
     (property_value_of ops d \<noteq> None \<longrightarrow> property_value_of ops d = Some x)"
  by (cases d rule: name_or_int.cases) (auto simp: parseProperty_def property_value_of_def split: option.splits)

lemma parseType_ok:
  "name_or_int d \<Longrightarrow> \<exists>x e. parseType ops d exc = Some (x, e) \<and>
     (exc \<noteq> None \<longrightarrow> e = exc) \<and> (exc = None \<longrightarrow> (e = None) = (type_value_of ops d \<noteq> None)) \<and>
     (type_value_of ops d \<noteq> None \<longrightarrow> type_value_of ops d = Some x)"
  by (cases d rule: name_or_int.cases) (auto simp: parseType_def type_value_of_def split: option.splits)

lemma getattributes_ok:
  assumes "heap_ok h" and ints: "int_or_missing (m ''instance'')" "int_or_missing (m ''index'')"
    and names: "name_or_int (m ''property'')" "name_or_int (m ''type'')"
    and inst: "int_value (m ''instance'') (BACNET_MAX_INSTANCE ops) \<noteq> BACNET_MAX_INSTANCE ops"
  shows "\<exists>p e h'. bacnet_getattributes ops m None h = Some (p, e, h') \<and> heap_ok h' \<and>
    (case (property_value_of ops (m ''property''), type_value_of ops (m ''type'')) of
       (Some pr, Some ty) \<Rightarrow> e = None \<and> p \<noteq> NULL \<and> cells h' = (cells h)(p \<mapsto>
         \<lparr>attr_instance = int_value (m ''instance'') (BACNET_MAX_INSTANCE ops), attr_property = pr,
          attr_type = ty, attr_index = int_value (m ''index'') 0xFFFFFFFF\<rparr>)
     | _ \<Rightarrow> e \<noteq> None \<and> p = NULL \<and> cells h' = cells h)"
proof -
  let ?i = "int_value (m ''instance'') (BACNET_MAX_INSTANCE ops)"
  let ?x = "int_value (m ''index'') 0xFFFFFFFF"
  obtain p h0 where mal: "malloc zero_attrs h = (p, h0)" by fastforce
  have f: "p \<noteq> NULL" "cells h p = None" "cells h0 = (cells h)(p \<mapsto> zero_attrs)" "heap_ok h0"
    using heap_ok_fresh [OF assms(1)] heap_ok_malloc [OF assms(1) mal] mal
    by (auto simp: malloc_def allocated_def domIff)
  from parseProperty_ok [OF names(1), of ops None] obtain pr where
    pr: "parseProperty ops (m ''property'') None = Some (pr,
      if property_value_of ops (m ''property'') = None then Some ''Unknown BACnet property name'' else None)"
    "property_value_of ops (m ''property'') \<noteq> None \<Longrightarrow> property_value_of ops (m ''property'') = Some pr" by auto
  let ?e1 = "if property_value_of ops (m ''property'') = None then Some ''Unknown BACnet property name'' else None"
  from parseType_ok [OF names(2), of ops ?e1] obtain ty e where
    ty: "parseType ops (m ''type'') ?e1 = Some (ty, e)"
    "(e = None) = (property_value_of ops (m ''property'') \<noteq> None \<and> type_value_of ops (m ''type'') \<noteq> None)"
    "type_value_of ops (m ''type'') \<noteq> None \<Longrightarrow> type_value_of ops (m ''type'') = Some ty"
    by (auto split: if_splits)
  let ?a = "\<lparr>attr_instance = ?i, attr_property = pr, attr_type = ty, attr_index = ?x\<rparr>"
  let ?h1 = "heap_set h0 p (Some (zero_attrs\<lparr>attr_instance := ?i\<rparr>))"
  have run: "bacnet_getattributes ops m None h =
      (if e \<noteq> None then Some (NULL, e, heap_set (heap_set h0 p (Some ?a)) p None)
       else Some (p, e, heap_set h0 p (Some ?a)))"
    using f mal pr(1) ty(1) inst parseInt_ok [of m "''instance''", OF ints(1)] parseInt_ok [of m "''index''", OF ints(2)]
    by (simp add: bacnet_getattributes_def modify_def deref_def free_def heap_set_def zero_attrs_def)
  have "(cells h)(p := None) = cells h" using f(2) by (simp add: fun_upd_idem)
  moreover have "heap_ok (heap_set h0 p (Some ?a))" "heap_ok (heap_set (heap_set h0 p (Some ?a)) p None)"
    using f by (auto intro!: heap_ok_update heap_ok_delete)
  ultimately show ?thesis unfolding run using f pr(2) ty(2,3)
    by (cases "property_value_of ops (m ''property'')"; cases "type_value_of ops (m ''type'')") auto
qed

section \<open>Properties\<close>

text \<open>
  C27. The attributes of a resource. For integer \<open>instance\<close> and \<open>index\<close>, and a \<open>property\<close> and a
  \<open>type\<close> that are names or integers, the result is NULL with an exception when the type is
  missing or a name is not one of the listed names; otherwise it is a new structure with the four values, where
  the property defaults to the present value and the index to the whole array. On failure the
  memory is as before.
\<close>

theorem bacnet_getattributes_correct:
  assumes "heap_ok h" and "int_or_missing (m ''instance'')" and "int_or_missing (m ''index'')"
    and "name_or_int (m ''property'')" and "name_or_int (m ''type'')"
    and "int_value (m ''instance'') (BACNET_MAX_INSTANCE ops) \<noteq> BACNET_MAX_INSTANCE ops"
  shows "\<exists>p e h'. bacnet_getattributes ops m None h = Some (p, e, h') \<and>
    (case (property_value_of ops (m ''property''), type_value_of ops (m ''type'')) of
       (Some pr, Some ty) \<Rightarrow> e = None \<and> p \<noteq> NULL \<and> cells h' = (cells h)(p \<mapsto>
         \<lparr>attr_instance = int_value (m ''instance'') (BACNET_MAX_INSTANCE ops), attr_property = pr,
          attr_type = ty, attr_index = int_value (m ''index'') 0xFFFFFFFF\<rparr>)
     | _ \<Rightarrow> e \<noteq> None \<and> p = NULL \<and> cells h' = cells h)"
  using getattributes_ok [OF assms] by blast

lemma bacnet_getattributes_correct_witness:
  "\<exists>p e h'. bacnet_getattributes sample_stack
      [''instance'' \<mapsto> IOT_DATA_INT64 3, ''type'' \<mapsto> IOT_DATA_STRING ''binary-output''] None empty_heap =
        Some (p, e, h') \<and> e = None \<and> p \<noteq> NULL \<and>
      cells h' = [p \<mapsto> \<lparr>attr_instance = 3, attr_property = 85, attr_type = 4, attr_index = UINT32_MAX\<rparr>]"
  using bacnet_getattributes_correct [of empty_heap
      "[''instance'' \<mapsto> IOT_DATA_INT64 3, ''type'' \<mapsto> IOT_DATA_STRING ''binary-output'']" sample_stack]
  by (simp add: property_value_of_def type_value_of_def bacnetTypeMap_def) (simp add: empty_heap_def)

text \<open>
  C38. An attribute map without \<open>instance\<close>, or with the instance 4194303, that is otherwise well
  formed does not lead to an exception that says so: printing the exception writes one byte past
  the block allocated for it. The same holds for an \<open>instance\<close> of a type that is no integer.
\<close>

theorem missing_instance_overruns:
  assumes "heap_ok h" and "int_or_missing (m ''instance'')" and "int_or_missing (m ''index'')"
    and "property_value_of ops (m ''property'') \<noteq> None" and "type_value_of ops (m ''type'') \<noteq> None"
    and "int_value (m ''instance'') (BACNET_MAX_INSTANCE ops) = BACNET_MAX_INSTANCE ops"
  shows "bacnet_getattributes ops m None h = None \<and>
    bacnet_getattributes ops (m(''instance'' \<mapsto> IOT_DATA_STRING s)) None h = None"
proof -
  have names: "name_or_int (m ''property'')" "name_or_int (m ''type'')"
    using assms(4,5) by (cases "m ''property''" rule: name_or_int.cases; cases "m ''type''" rule: name_or_int.cases;
        simp add: property_value_of_def type_value_of_def)+
  obtain p h0 where mal: "malloc zero_attrs h = (p, h0)" by fastforce
  have f: "p \<noteq> NULL" "cells h0 = (cells h)(p \<mapsto> zero_attrs)"
    using heap_ok_fresh [OF assms(1)] mal by (auto simp: malloc_def allocated_def domIff)
  from parseProperty_ok [OF names(1), of ops None] assms(4) obtain pr where
    pr: "parseProperty ops (m ''property'') None = Some (pr, None)" by auto
  from parseType_ok [OF names(2), of ops None] assms(5) obtain ty where
    ty: "parseType ops (m ''type'') None = Some (ty, None)" by auto
  have "bacnet_getattributes ops m None h = None"
    using f mal pr ty assms(6) parseInt_ok [of m "''instance''", OF assms(2)]
      parseInt_ok [of m "''index''", OF assms(3)]
    by (simp add: bacnet_getattributes_def modify_def deref_def zero_attrs_def bacnet_alloc_exception_overrun)
  moreover have "bacnet_getattributes ops (m(''instance'' \<mapsto> IOT_DATA_STRING s)) None h = None"
    using mal by (simp add: bacnet_getattributes_def parseInt_def bacnet_alloc_exception_overrun)
  ultimately show ?thesis by simp
qed

lemma missing_instance_overruns_witness:
  "bacnet_getattributes sample_stack [''type'' \<mapsto> IOT_DATA_STRING ''analog-input''] None empty_heap = None"
  using missing_instance_overruns [of empty_heap "[''type'' \<mapsto> IOT_DATA_STRING ''analog-input'']" sample_stack]
  by (simp add: property_value_of_def type_value_of_def bacnetTypeMap_def)

text \<open>
  C28. The address of a device in the build for BACnet/IP: a decimal device instance below
  4294967295 and a decimal port are taken as they are, a missing port is 47808, and a missing
  device instance or protocol is reported by an exception. The instance 4294967295, which stands
  for a missing one, is reported as missing.
\<close>

theorem bacnet_getaddress_ip:
  "bacnet_getaddress BACDL_BIP (protocols(''BACnet-IP'' := None)) None =
     (None, Some ''BACnet-IP protocol must be specified'') \<and>
   bacnet_getaddress BACDL_BIP (protocols(''BACnet-IP'' \<mapsto>
       props(''DeviceInstance'' := map_option (print_dec \<circ> unat) i,
             ''Port'' := map_option (print_dec \<circ> unat) port))) None =
     (if i \<in> {None, Some UINT32_MAX} then (None, Some ''DeviceInstance must be specified'')
      else (Some (Ip_Address \<lparr>addr_port = (case port of None \<Rightarrow> 0xBAC0 | Some p \<Rightarrow> p),
                              addr_deviceInstance = the i\<rparr>), None))"
  by (cases i; cases port) (simp_all add: bacnet_getaddress_def parseStringInt_def parse_u32 parse_u16)

text \<open>
  An IP address as device instance, which the documentation allows, is not looked up: the
  number before its first dot becomes the device instance.
\<close>

lemma ip_address_as_instance:
  "bacnet_getaddress BACDL_BIP [''BACnet-IP'' \<mapsto> [''DeviceInstance'' \<mapsto> print_ip a b c d]] None =
     (Some (Ip_Address \<lparr>addr_port = 0xBAC0, addr_deviceInstance = ucast a\<rparr>), None)"
proof -
  have "uint a < 2 ^ 8" using unsigned_less [of a, where ?'a = int] by simp
  then have "int (unat a) \<le> LONG_MAX" by (simp add: LONG_MAX_def)
  from strtol0_stop [OF _ this, of "CHR ''.''"] have "strtol0 (print_ip a b c d) = int (unat a)"
    unfolding print_ip_def by (simp del: int_nat_eq of_nat_unat)
  moreover have "(ucast a :: u32) \<noteq> UINT32_MAX"
  proof
    assume "(ucast a :: u32) = UINT32_MAX"
    then have "unat (ucast a :: u32) = unat UINT32_MAX" by (rule arg_cong)
    with u8_less [of a] show False by (simp add: unsigned_ucast_eq take_bit_nat_eq_self)
  qed
  ultimately show ?thesis by (simp add: bacnet_getaddress_def parseStringInt_def)
qed

end
