(* ===== verification/Discovery.thy ===== *)
theory Discovery
  imports Attributes Alone ListProperties
begin

text \<open>
  Discovery: what the driver does with the devices that answered a Who-Is (driver.c and main.c).
  The blocks that hold strings are a heap of their own; the property maps of EdgeX are partial
  functions; a device handed to EdgeX is appended to the list of devices added.
\<close>

type_synonym string_map = "string \<Rightarrow> string option"

record edgex_device =
  dev_name :: string
  dev_description :: string
  dev_labels :: string
  dev_profile :: string
  dev_protocols :: "string \<Rightarrow> string_map option"

definition strdup :: "string \<Rightarrow> string heap \<Rightarrow> ptr \<times> string heap" where
  "strdup s h = malloc s h"

definition DISCOVERY_DESCRIPTION :: string where
  "DISCOVERY_DESCRIPTION = ''automatically discovered using EdgeX discovery''"

definition BACNET_MAX_INSTANCE_LENGTH :: nat where "BACNET_MAX_INSTANCE_LENGTH = 11"
definition MAX_PORT_LENGTH :: nat where "MAX_PORT_LENGTH = 6"
definition IP_STRING_LENGTH :: nat where "IP_STRING_LENGTH = 17"

section \<open>The protocol properties of a device\<close>

text \<open>The UDP port of the sender is in the last two bytes of the address.\<close>

definition device_port :: "bacnet_address \<Rightarrow> u16 option" where
  "device_port a =
     (if 5 < length (mac a)
      then Some (word_of_nat (unat (mac a ! 4) * 0x100) + ucast (mac a ! 5)) else None)"

definition bacnet_protocol_populate ::
    "datalink \<Rightarrow> string \<Rightarrow> address_entry \<Rightarrow> string_map \<Rightarrow> string_map option" where
  "bacnet_protocol_populate dl default_device_path device properties = do {
     deviceInstance \<leftarrow> sprintf_into BACNET_MAX_INSTANCE_LENGTH (print_dec (unat (ae_device_id device)));
     let properties = properties(''DeviceInstance'' \<mapsto> deviceInstance);
     (case dl of
        BACDL_MSTP \<Rightarrow> Some (properties(''Path'' \<mapsto> default_device_path))
      | BACDL_BIP \<Rightarrow> do {
          devicePort \<leftarrow> device_port (ae_address device);
          portstring \<leftarrow> sprintf_into MAX_PORT_LENGTH (print_dec (unat devicePort));
          Some (properties(''Port'' \<mapsto> portstring))
        })
   }"

section \<open>Name, description and profile\<close>

text \<open>
  The character string of the value read is copied (\<open>strdup\<close> takes a string, so the profile name
  must not be NULL). The results besides success are the blocks of name, description and profile.
\<close>

definition get_device_properties ::
    "'k bacnet_stack \<Rightarrow> apdu_handlers \<Rightarrow> call_env \<Rightarrow> u32 \<Rightarrow> u16 \<Rightarrow> ptr \<Rightarrow> 'k world \<Rightarrow> string heap \<Rightarrow>
     (bool \<times> (ptr \<times> ptr \<times> ptr) \<times> 'k world \<times> string heap) option" where
  "get_device_properties ops t env device_id port labels w h = do {
     (name_value, w) \<leftarrow> bacnetReadProperty ops t env device_id (OBJECT_DEVICE ops) UINT32_MAX
                         (PROP_OBJECT_NAME ops) UINT32_MAX port w;
     if name_value = NULL then Some (False, (NULL, NULL, NULL), w, h)
     else do {
       c \<leftarrow> deref (app_values w) name_value;
       (case value_data c of
          TAG_CHARACTER_STRING s \<Rightarrow> do {
            let (name, h) = strdup s h;
            n \<leftarrow> deref h name;
            let size = length n + length DISCOVERY_DESCRIPTION + 2;
            txt \<leftarrow> sprintf_into size (n @ '' '' @ DISCOVERY_DESCRIPTION);
            let (description, h) = malloc txt h;
            let (delimit, h) = strdup n h;
            token \<leftarrow> strtok_first (CHR ''_'') n;
            let (profile_name, h) = strdup token h;
            h \<leftarrow> modify h labels (\<lambda>_. ''BACnet'');
            h \<leftarrow> free h delimit;
            v \<leftarrow> free (app_values w) name_value;
            Some (True, (name, description, profile_name), w\<lparr>app_values := v\<rparr>, h)
          }
        | _ \<Rightarrow> Some (False, (NULL, NULL, NULL), w, h))
     }
   }"

definition get_supported_services ::
    "'k bacnet_stack \<Rightarrow> apdu_handlers \<Rightarrow> call_env \<Rightarrow> u32 \<Rightarrow> u16 \<Rightarrow> string_map \<Rightarrow> 'k world \<Rightarrow>
     (bool \<times> string_map \<times> 'k world) option" where
  "get_supported_services ops t env device_id port properties w = do {
     (services, w) \<leftarrow> bacnetReadProperty ops t env device_id (OBJECT_DEVICE ops) UINT32_MAX
                       (PROP_PROTOCOL_SERVICES_SUPPORTED ops) UINT32_MAX port w;
     if services = NULL then Some (False, properties, w)
     else do {
       c \<leftarrow> deref (app_values w) services;
       let bit = bitstring_bit ops (value_data c);
       let properties = (if bit (SERVICE_SUPPORTED_READ_PROP_MULTIPLE ops)
                         then properties(''DS-RPM-B'' \<mapsto> ''true'') else properties);
       let properties = (if bit (SERVICE_SUPPORTED_WRITE_PROPERTY ops)
                         then properties(''DS-WP-B'' \<mapsto> ''true'') else properties);
       let properties = (if bit (SERVICE_SUPPORTED_WRITE_PROP_MULTIPLE ops)
                         then properties(''DS-WPM-B'' \<mapsto> ''true'') else properties);
       v \<leftarrow> free (app_values w) services;
       Some (True, properties, w\<lparr>app_values := v\<rparr>)
     }
   }"

section \<open>The discovery loop\<close>

definition ae_pop_world :: "'k world \<Rightarrow> (ptr \<times> 'k world) option" where
  "ae_pop_world w = do {
     l \<leftarrow> addressEntryHead w;
     (p, l) \<leftarrow> address_entry_pop l;
     Some (p, w\<lparr>addressEntryHead := Some l\<rparr>)
   }"

definition ae_read :: "ptr \<Rightarrow> 'k world \<Rightarrow> address_entry option" where
  "ae_read p w = do { l \<leftarrow> addressEntryHead w; ll_get p l }"

definition ae_free_world :: "ptr \<Rightarrow> 'k world \<Rightarrow> 'k world option" where
  "ae_free_world p w = do {
     l \<leftarrow> addressEntryHead w;
     l \<leftarrow> ll_free_node p l;
     Some (w\<lparr>addressEntryHead := Some l\<rparr>)
   }"

definition protocol_name :: "datalink \<Rightarrow> string" where
  "protocol_name dl = (case dl of BACDL_MSTP \<Rightarrow> ''BACnet-MSTP'' | BACDL_BIP \<Rightarrow> ''BACnet-IP'')"

text \<open>
  One round for the entry \<open>discovered_device\<close>. The three exits are those of the code: two
  \<open>continue\<close>s, which do not free the entry, and the end of the body.
\<close>

definition discover_device ::
    "'k bacnet_stack \<Rightarrow> apdu_handlers \<Rightarrow> string \<Rightarrow> call_env \<Rightarrow> call_env \<Rightarrow> ptr \<Rightarrow>
     'k world \<times> string heap \<times> edgex_device list \<Rightarrow> ('k world \<times> string heap \<times> edgex_device list) option" where
  "discover_device ops t path env1 env2 discovered_device s = do {
     let (w, h, added) = s;
     let (labels, h) = malloc '''' h;
     d \<leftarrow> ae_read discovered_device w;
     bacnet_properties \<leftarrow> bacnet_protocol_populate (datalink ops) path d Map.empty;
     port \<leftarrow> device_port (ae_address d);
     (ok, (name, description, profile), w, h) \<leftarrow>
       get_device_properties ops t env1 (ae_device_id d) port labels w h;
     if \<not> ok then do {
       h \<leftarrow> free h labels;
       Some (w, h, added)
     }
     else do {
       d \<leftarrow> ae_read discovered_device w;
       (ok, service_properties, w) \<leftarrow> get_supported_services ops t env2 (ae_device_id d) port Map.empty w;
       if \<not> ok then do {
         h \<leftarrow> free h name;
         h \<leftarrow> free h description;
         h \<leftarrow> free h labels;
         Some (w, h, added)
       }
       else do {
         n \<leftarrow> deref h name;
         ds \<leftarrow> deref h description;
         l \<leftarrow> deref h labels;
         pr \<leftarrow> deref h profile;
         let added = added @ [\<lparr>dev_name = n, dev_description = ds, dev_labels = l, dev_profile = pr,
               dev_protocols = [''BACnetSupportedServices'' \<mapsto> service_properties,
                                protocol_name (datalink ops) \<mapsto> bacnet_properties]\<rparr>];
         h \<leftarrow> free h name;
         h \<leftarrow> free h profile;
         h \<leftarrow> free h description;
         h \<leftarrow> free h labels;
         w \<leftarrow> ae_free_world discovered_device w;
         Some (w, h, added)
       }
     }
   }"

partial_function (option) discover_loop ::
    "'k bacnet_stack \<Rightarrow> apdu_handlers \<Rightarrow> string \<Rightarrow> (nat \<Rightarrow> call_env) \<Rightarrow> nat \<Rightarrow>
     'k world \<times> string heap \<times> edgex_device list \<Rightarrow> ('k world \<times> string heap \<times> edgex_device list) option" where
  "discover_loop ops t path env n s = do {
     (p, w) \<leftarrow> ae_pop_world (fst s);
     if p = NULL then Some (w, snd s)
     else do {
       s \<leftarrow> discover_device ops t path (env n) (env (Suc n)) p (w, snd s);
       discover_loop ops t path env (Suc (Suc n)) s
     }
   }"

definition bacnet_discover ::
    "'k bacnet_stack \<Rightarrow> apdu_handlers \<Rightarrow> string \<Rightarrow> (nat \<Rightarrow> call_env) \<Rightarrow>
     'k world \<times> string heap \<times> edgex_device list \<Rightarrow> ('k world \<times> string heap \<times> edgex_device list) option" where
  "bacnet_discover ops t path env s = do {
     let w = (if datalink ops = BACDL_MSTP then stack_call (RS485_Set_Interface ops path) (fst s) else fst s);
     (discover_table, w) \<leftarrow> bacnetWhoIs ops t (env 0) w;
     if discover_table = None then None
     else discover_loop ops t path env 1 (w, snd s)
   }"

section \<open>Finding a device by its IP address\<close>

text \<open>
  The loop over the table, which removes each entry after it has stored its address. \<open>mac\<close> holds
  the four bytes of the IP address.
\<close>

definition store_address :: "address_entry \<Rightarrow> address_instance_map_ll \<Rightarrow> address_instance_map_ll option" where
  "store_address d aim =
     (if len (ae_address d) = 0 then
        (case mac (ae_address d) of
           m0 # m1 # m2 # m3 # _ \<Rightarrow> do {
             address \<leftarrow> sprintf_into IP_STRING_LENGTH (print_ip m0 m1 m2 m3);
             inst \<leftarrow> sprintf_into IP_STRING_LENGTH (print_dec (unat (ae_device_id d)));
             (p, aim') \<leftarrow> address_instance_map_get (Some aim) inst;
             aim \<leftarrow> aim';
             if p = NULL then address_instance_map_set aim address inst else Some aim
           }
         | _ \<Rightarrow> None)
      else Some aim)"

partial_function (option) store_addresses ::
    "ptr \<Rightarrow> address_entry_ll \<Rightarrow> address_instance_map_ll \<Rightarrow> (address_entry_ll \<times> address_instance_map_ll) option" where
  "store_addresses current_address at aim =
     (if current_address = NULL then Some (at, aim)
      else do {
        d \<leftarrow> ll_get current_address at;
        aim \<leftarrow> store_address d aim;
        n \<leftarrow> deref (nodes at) current_address;
        let tmp = link_next n;
        at \<leftarrow> address_entry_remove at (ae_device_id d);
        store_addresses tmp at aim
      })"

text \<open>\<open>bbmd\<close>: both environment variables of the BBMD are set. 0 means that no instance was found.\<close>

definition ip_to_instance ::
    "'k bacnet_stack \<Rightarrow> apdu_handlers \<Rightarrow> call_env \<Rightarrow> bool \<Rightarrow> string \<Rightarrow> address_instance_map_ll \<Rightarrow> 'k world \<Rightarrow>
     (u32 \<times> address_instance_map_ll \<times> 'k world) option" where
  "ip_to_instance ops t env bbmd deviceInstance aim w =
     (if bbmd then Some (UINT32_MAX, aim, w)
      else if inet_pton4 deviceInstance then do {
        (p, _) \<leftarrow> address_instance_map_get (Some aim) deviceInstance;
        if p \<noteq> NULL then do {
          a \<leftarrow> ll_get p aim;
          Some (aim_instance a, aim, w)
        }
        else do {
          (at, w) \<leftarrow> bacnetWhoIs ops t env w;
          at \<leftarrow> at;
          (at, aim) \<leftarrow> store_addresses (first at) at aim;
          let w = w\<lparr>addressEntryHead := Some at\<rparr>;
          (p, _) \<leftarrow> address_instance_map_get (Some aim) deviceInstance;
          if p \<noteq> NULL then do {
            a \<leftarrow> ll_get p aim;
            Some (aim_instance a, aim, w)
          }
          else Some (0, aim, w)
        }
      }
      else Some (0, aim, w))"

section \<open>What a read leaves alone\<close>

text \<open>Messages other than an I-Am do not touch the table of discovered devices.\<close>

fun no_i_am :: "event \<Rightarrow> bool" where
  "no_i_am (Unconfirmed s req src) = False"
| "no_i_am _ = True"

named_theorems keeps_table

lemma rd_keeps_table [keeps_table]:
  "rd_write p f w = Some w' \<Longrightarrow> addressEntryHead w' = addressEntryHead w"
  "rd_lock p w = Some w' \<Longrightarrow> addressEntryHead w' = addressEntryHead w"
  "rd_unlock p w = Some w' \<Longrightarrow> addressEntryHead w' = addressEntryHead w"
  "rd_signal p w = Some w' \<Longrightarrow> addressEntryHead w' = addressEntryHead w"
  "rd_get_world i w = Some (q, w') \<Longrightarrow> addressEntryHead w' = addressEntryHead w"
  "rd_set_world i w = Some (q, w') \<Longrightarrow> addressEntryHead w' = addressEntryHead w"
  "rd_remove_world p w = Some w' \<Longrightarrow> addressEntryHead w' = addressEntryHead w"
  "rd_list_lock w = Some w' \<Longrightarrow> addressEntryHead w' = addressEntryHead w"
  "rd_list_unlock w = Some w' \<Longrightarrow> addressEntryHead w' = addressEntryHead w"
  by (auto simp: rd_write_def rd_lock_def rd_unlock_def rd_signal_def rd_get_world_def rd_set_world_def
      rd_remove_world_def rd_list_lock_def rd_list_unlock_def split: Option.bind_splits if_splits)

lemma dcm_keeps_table [keeps_table]:
  "dcm_write p f w = Some w' \<Longrightarrow> addressEntryHead w' = addressEntryHead w"
  "dcm_lock p w = Some w' \<Longrightarrow> addressEntryHead w' = addressEntryHead w"
  "dcm_unlock p w = Some w' \<Longrightarrow> addressEntryHead w' = addressEntryHead w"
  "dcm_signal p w = Some w' \<Longrightarrow> addressEntryHead w' = addressEntryHead w"
  "dcm_get_world i w = Some (q, w') \<Longrightarrow> addressEntryHead w' = addressEntryHead w"
  "dcm_set_world i a w = Some w' \<Longrightarrow> addressEntryHead w' = addressEntryHead w"
  "dcm_remove_world i w = Some w' \<Longrightarrow> addressEntryHead w' = addressEntryHead w"
  by (auto simp: dcm_write_def dcm_lock_def dcm_unlock_def dcm_signal_def dcm_get_world_def dcm_set_world_def
      dcm_remove_world_def split: Option.bind_splits if_splits)

lemma stack_call_keeps_table [simp]: "addressEntryHead (stack_call f w) = addressEntryHead w"
  by (simp add: stack_call_def)

lemma report_failure_keeps_table [keeps_table]:
  "report_failure ops src i w = Some w' \<Longrightarrow> addressEntryHead w' = addressEntryHead w"
  by (auto simp: report_failure_def split: Option.bind_splits if_splits dest!: keeps_table)

lemma ack_keeps_table [keeps_table]:
  "My_Read_Property_Ack_Handler ops req src i w = Some w' \<Longrightarrow> addressEntryHead w' = addressEntryHead w"
  "MyWritePropertySimpleAckHandler ops src i w = Some w' \<Longrightarrow> addressEntryHead w' = addressEntryHead w"
  by (auto simp: My_Read_Property_Ack_Handler_def MyWritePropertySimpleAckHandler_def malloc_def
      split: Option.bind_splits if_splits option.splits dest!: keeps_table)

lemma handle_keeps_table [keeps_table]:
  "handle ops t e w = Some w' \<Longrightarrow> no_i_am e \<Longrightarrow> addressEntryHead w' = addressEntryHead w"
  by (cases e) (auto simp: MyErrorHandler_def MyAbortHandler_def MyRejectHandler_def
      split: if_splits dest!: keeps_table)

lemma bind_request_keeps_table [keeps_table]:
  "bind_request ops dev p w = Some (b, w') \<Longrightarrow> addressEntryHead w' = addressEntryHead w"
  by (auto simp: bind_request_def Let_def split: prod.splits option.splits Option.bind_splits dest!: keeps_table)

end
