(* ===== verification/TableNodes.thy ===== *)
theory TableNodes
  imports Discovery
begin

text \<open>
  The nodes of the table of discovered devices: those on the list, and those that were taken off
  it and not freed, which discovery works with. The handlers only add nodes to the list, for
  whatever messages.
\<close>

section \<open>No node besides those on the list\<close>

text \<open>Every node that is allocated is on its list.\<close>

definition tidy :: "'d ll \<Rightarrow> bool" where
  "tidy l \<longleftrightarrow> (\<exists>r. rep l r \<and> allocated (nodes l) = fst ` set r)"

lemma tidy_alloc [simp]: "tidy ll_alloc"
  by (auto simp: tidy_def intro!: exI [of _ "[]"])

lemma tidy_freed: "tidy l \<Longrightarrow> \<exists>h. ll_free_from (nodes l) (first l) = Some h \<and> cells h = Map.empty"
proof -
  assume "tidy l"
  then obtain r where r: "rep l r" "allocated (nodes l) = fst ` set r" by (auto simp: tidy_def)
  from rep_free_from [OF r(1)] r(2) obtain h where
    "ll_free_from (nodes l) (first l) = Some h" "allocated h = {}" by auto
  then show ?thesis by (auto simp: allocated_def)
qed

section \<open>The nodes of the table\<close>

text \<open>\<open>D\<close>: the entries in nodes off the list.\<close>

definition table_nodes :: "(ptr \<rightharpoonup> address_entry) \<Rightarrow> address_entry_ll option \<Rightarrow> bool" where
  "table_nodes D t \<longleftrightarrow> (\<exists>l r. t = Some l \<and> rep l r \<and> address_table r \<and>
     allocated (nodes l) = fst ` set r \<union> dom D \<and> fst ` set r \<inter> dom D = {} \<and>
     (\<forall>p d. D p = Some d \<longrightarrow> ll_get p l = Some d))"

abbreviation table_with :: "(ptr \<rightharpoonup> address_entry) \<Rightarrow> 'k world \<Rightarrow> bool" where
  "table_with D w \<equiv> table_nodes D (addressEntryHead w)"

abbreviation tidy_table :: "'k world \<Rightarrow> bool" where
  "tidy_table w \<equiv> table_with Map.empty w"

lemma tidy_nodes: "table_nodes Map.empty t \<Longrightarrow> \<exists>l. t = Some l \<and> tidy l"
  by (auto simp: table_nodes_def tidy_def)

lemma table_nodes_alloc [simp]: "table_nodes Map.empty (Some ll_alloc)"
  by (auto simp: table_nodes_def address_table_def intro!: exI [of _ "[]"])

lemma ae_set_nodes:
  assumes "table_with D w" and "address_wf src" and "ae_set_world dev m src w = Some w'"
  shows "table_with D w'"
proof -
  from assms(1) obtain l r where l: "addressEntryHead w = Some l" "rep l r" "address_table r"
    and n: "allocated (nodes l) = fst ` set r \<union> dom D" "fst ` set r \<inter> dom D = {}"
      "\<forall>p d. D p = Some d \<longrightarrow> ll_get p l = Some d" by (auto simp: table_nodes_def)
  from address_entry_set_spec [OF l(2,3) assms(2), of dev m] obtain p l' where
    s: "address_entry_set l dev m src = Some (p, l')"
    and known: "dev \<in> ae_device_id ` snd ` set r \<Longrightarrow> l' = l"
    and new: "dev \<notin> ae_device_id ` snd ` set r \<Longrightarrow> p \<notin> allocated (nodes l) \<and>
      rep l' ((p, new_entry (dev, m, src)) # r) \<and> address_table ((p, new_entry (dev, m, src)) # r) \<and>
      allocated (nodes l') = insert p (allocated (nodes l)) \<and> (\<forall>q. q \<noteq> p \<longrightarrow> ll_get q l' = ll_get q l)"
    by metis
  have w': "addressEntryHead w' = Some l'" using assms(3) l(1) s by (auto simp: ae_set_world_def)
  show ?thesis
  proof (cases "dev \<in> ae_device_id ` snd ` set r")
    case True
    with known l n w' show ?thesis by (auto simp: table_nodes_def)
  next
    case False
    note new = new [OF False]
    then have "p \<notin> dom D" using n(1) by auto
    with new n w' show ?thesis
      unfolding table_nodes_def by (intro exI [of _ l'] exI [of _ "(p, new_entry (dev, m, src)) # r"]) auto
  qed
qed

lemma i_am_nodes:
  assumes "table_with D w" and "address_wf src" and "my_i_am_handler ops req src w = Some w'"
  shows "table_with D w'"
proof -
  obtain n dev m where d: "iam_decode_service_request ops req = (n, dev, m)" by (metis prod_cases3)
  show ?thesis
  proof (cases "n = -1")
    case True
    with assms(1,3) d show ?thesis by (simp add: my_i_am_handler_def)
  next
    case False
    have run: "my_i_am_handler ops req src w = do {
        (p, w) \<leftarrow> dcm_get_world dev w;
        if p \<noteq> NULL then do {
          c \<leftarrow> dcm_read p w;
          a \<leftarrow> dcm_address c;
          let w = (if mac_len a = 0 then stack_call (address_add_binding ops dev m src) w else w);
          w \<leftarrow> dcm_lock p w;
          w \<leftarrow> dcm_signal p w;
          dcm_unlock p w
        }
        else ae_set_world dev m src w }"
      using False by (simp add: my_i_am_handler_def d)
    obtain p w1 where g: "dcm_get_world dev w = Some (p, w1)"
      using assms(3) unfolding run by (cases "dcm_get_world dev w") auto
    have t1: "table_with D w1" using assms(1) dcm_keeps_table(5) [OF g] by simp
    show ?thesis
    proof (cases "p = NULL")
      case True
      with assms(3) g have "ae_set_world dev m src w1 = Some w'" unfolding run by simp
      then show ?thesis by (rule ae_set_nodes [OF t1 assms(2)])
    next
      case False
      with assms(3) g have "addressEntryHead w' = addressEntryHead w1" unfolding run
        by (auto simp: Let_def split: Option.bind_split_asm if_split_asm dest!: dcm_keeps_table)
      with t1 show ?thesis by simp
    qed
  qed
qed

lemma handle_nodes:
  assumes "table_with D w" and "event_wf e" and "handle ops t e w = Some w'"
  shows "table_with D w'"
proof (cases "no_i_am e")
  case True
  from handle_keeps_table [OF assms(3) True] assms(1) show ?thesis by simp
next
  case False
  then obtain s req src where e: "e = Unconfirmed s req src" by (cases e) auto
  show ?thesis
  proof (cases "unconfirmed_handler t s = Some Handler_IAm")
    case True
    with assms(2,3) e show ?thesis by (intro i_am_nodes [OF assms(1)]) simp_all
  next
    case False
    with assms(1,3) e show ?thesis by simp
  qed
qed

text \<open>The waits and calls keep the nodes off the list.\<close>

abbreviation keeps :: "'k world \<Rightarrow> 'k world \<Rightarrow> bool" where
  "keeps w w' \<equiv> (\<forall>D. table_with D w \<longrightarrow> table_with D w')"

lemma handle_all_nodes:
  "handle_all ops t es w = Some w' \<Longrightarrow> list_all event_wf es \<Longrightarrow> keeps w w'"
proof (induction es arbitrary: w)
  case (Cons e es)
  then obtain w1 where "handle ops t e w = Some w1" "handle_all ops t es w1 = Some w'" "event_wf e"
    "list_all event_wf es" by (auto split: Option.bind_split_asm)
  with Cons.IH [of w1] handle_nodes [of _ w e ops t w1] show ?case by blast
qed simp

lemma timedwait_nodes:
  "rd_timedwait ops t es p w = Some w' \<Longrightarrow> list_all event_wf es \<Longrightarrow> keeps w w'"
  "dcm_timedwait ops t es p w = Some w' \<Longrightarrow> list_all event_wf es \<Longrightarrow> keeps w w'"
  by (auto simp: rd_timedwait_def dcm_timedwait_def split: Option.bind_split_asm
      dest!: rd_keeps_table(2,3) dcm_keeps_table(2,3) handle_all_nodes)

lemma find_and_bind_nodes:
  "find_and_bind ops t env p port dev w = Some (b, w') \<Longrightarrow> env_wf env \<Longrightarrow> keeps w w'"
  by (auto simp: find_and_bind_def rebind_def env_wf_def Let_def
      split: Option.bind_split_asm if_split_asm
      dest!: rd_keeps_table dcm_keeps_table bind_request_keeps_table timedwait_nodes)

lemma wait_for_data_nodes:
  "wait_for_data ops t env p w = Some (b, w') \<Longrightarrow> env_wf env \<Longrightarrow> keeps w w'"
  by (auto simp: wait_for_data_def env_wf_def Let_def split: Option.bind_split_asm if_split_asm
      dest!: rd_keeps_table timedwait_nodes)

lemma read_nodes:
  "bacnetReadProperty ops t env dev ty inst pr idx port w = Some (ret, w') \<Longrightarrow> env_wf env \<Longrightarrow> keeps w w'"
  by (auto simp: bacnetReadProperty_def Let_def split: Option.bind_split_asm if_split_asm prod.split_asm
      dest!: rd_keeps_table find_and_bind_nodes wait_for_data_nodes)

lemma write_nodes:
  "bacnetWriteProperty ops t env dev ty inst pr idx port prio v w = Some (ret, w') \<Longrightarrow> env_wf env \<Longrightarrow>
   keeps w w'"
  by (auto simp: bacnetWriteProperty_def Let_def split: Option.bind_split_asm if_split_asm prod.split_asm
      dest!: rd_keeps_table find_and_bind_nodes wait_for_data_nodes)

lemma whois_nodes:
  "bacnetWhoIs ops t env w = Some (tbl, w') \<Longrightarrow> list_all event_wf (reply_events env) \<Longrightarrow> keeps w w'"
  by (auto simp: bacnetWhoIs_def Let_def split: Option.bind_split_asm if_split_asm
      dest!: rd_keeps_table timedwait_nodes)

end
