(* ===== verification/Discovered.thy ===== *)
theory Discovered
  imports TableNodes Commands
begin

text \<open>
  What a discovery run adds to EdgeX, as a function of the state of the stack, the table of
  devices and the messages that arrive during its reads, and the proof that the loop of Discovery
  computes it. Devices that announce themselves during the run are part of it.
\<close>

section \<open>States between two calls\<close>

text \<open>
  No call is pending; \<open>s\<close> is the state of the stack and the table of discovered devices, and \<open>D\<close>
  are the entries taken off the table and not freed.
\<close>

definition idle :: "'k world \<Rightarrow> 'k \<times> address_entry list \<Rightarrow> (ptr \<rightharpoonup> address_entry) \<Rightarrow> bool" where
  "idle w s D \<longleftrightarrow> (\<exists>A. sim w A \<and> quiet A \<and> alone A \<and> (vstk A, table A) = s) \<and> table_with D w"

lemma idle_vals_ok: "idle w s D \<Longrightarrow> heap_ok (app_values w)"
  by (auto simp: idle_def dest: sim_app_values)

lemma idle_vals: "idle w s D \<Longrightarrow> heap_ok h \<Longrightarrow> idle (w\<lparr>app_values := h\<rparr>) s D"
  unfolding idle_def
  by (elim conjE exE, intro conjI exI [of _ "_\<lparr>vals := h\<rparr>"]) (auto simp: sim_vals alone_vals)

text \<open>The list that holds the table.\<close>

lemma idle_list:
  assumes "idle w (k, T) D"
  obtains l r where "addressEntryHead w = Some l" and "rep l r" and "address_table r" and "map snd r = T"
    and "allocated (nodes l) = fst ` set r \<union> dom D" and "fst ` set r \<inter> dom D = {}"
    and "\<forall>p d. D p = Some d \<longrightarrow> ll_get p l = Some d"
proof -
  from assms obtain A where A: "sim w A" "table A = T" by (auto simp: idle_def)
  from assms obtain l r where l: "addressEntryHead w = Some l" "rep l r" "address_table r"
    "allocated (nodes l) = fst ` set r \<union> dom D" "fst ` set r \<inter> dom D = {}"
    "\<forall>p d. D p = Some d \<longrightarrow> ll_get p l = Some d" by (auto simp: idle_def table_nodes_def)
  from A l(1,2) have "map snd r = T" by (auto simp: sim_def dest: rep_unique)
  with that l show thesis by blast
qed

lemma address_table_wf: "address_table r \<Longrightarrow> table_wf (map snd r)"
  by (auto simp: address_table_def table_wf_def comp_def)

lemma idle_table:
  assumes "idle w (k, T) D" and "table_nodes D' (Some l')" and "rep l' r'"
  shows "idle (w\<lparr>addressEntryHead := Some l'\<rparr>) (k, map snd r') D'"
proof -
  from assms(1) obtain A where A: "sim w A" "quiet A" "alone A" "vstk A = k" by (auto simp: idle_def)
  have "table_wf (map snd r')"
    using assms(2,3) by (auto simp: table_nodes_def intro: address_table_wf dest: rep_unique)
  then have "sim (w\<lparr>addressEntryHead := Some l'\<rparr>) (A\<lparr>table := map snd r'\<rparr>)"
    using A(1) assms(3) unfolding sim_def by fastforce
  moreover have "quiet (A\<lparr>table := map snd r'\<rparr>)" "alone (A\<lparr>table := map snd r'\<rparr>)"
    using A(2,3) by (simp_all add: quiet_def alone_def)
  ultimately show ?thesis using A(4) assms(2) unfolding idle_def
    by (auto intro!: exI [of _ "A\<lparr>table := map snd r'\<rparr>"])
qed

text \<open>The reply to a read of a property of the device object, and the state left behind.\<close>

definition asks ::
    "'k bacnet_stack \<Rightarrow> apdu_handlers \<Rightarrow> call_env \<Rightarrow> u32 \<Rightarrow> u16 \<Rightarrow> u32 \<Rightarrow> 'k \<times> address_entry list \<Rightarrow>
     app_value option \<times> 'k \<times> address_entry list" where
  "asks ops t env dev port pr s =
     (let (ia, s) = call_spec ops t env port dev
            (Send_Read_Property_Request ops dev (OBJECT_DEVICE ops) UINT32_MAX pr UINT32_MAX) s
      in (read_answer ops t env ia, s))"

lemma idle_read:
  assumes "idle w s D" and "env_ok ops t env" and "asks ops t env dev port pr s = (r, s')"
  obtains w' where "bacnetReadProperty ops t env dev (OBJECT_DEVICE ops) UINT32_MAX pr UINT32_MAX port w =
      Some (result_ptr r (app_values w), w')"
    and "idle w' s' D" and "app_values w' = stored r (app_values w)"
proof -
  from assms(1) obtain A where A: "sim w A" "quiet A" "alone A" "(vstk A, table A) = s" and D: "table_with D w"
    by (auto simp: idle_def)
  from assms(3) obtain ia where c: "call_spec ops t env port dev
      (Send_Read_Property_Request ops dev (OBJECT_DEVICE ops) UINT32_MAX pr UINT32_MAX) (vstk A, table A) = (ia, s')"
    and r: "r = read_answer ops t env ia"
    unfolding A(4) by (auto simp: asks_def split: prod.splits)
  from read_alone [OF A(1-3) assms(2) c] obtain w' C where
    w': "bacnetReadProperty ops t env dev (OBJECT_DEVICE ops) UINT32_MAX pr UINT32_MAX port w =
      Some (result_ptr r (vals A), w')"
    and C: "sim w' C" "quiet C" "alone C" "(vstk C, table C) = s'" "vals C = stored r (vals A)"
    unfolding r by blast
  have "table_with D w'" using read_nodes [OF w'] assms(2) D by (simp add: env_ok_def)
  with that [of w'] w' C sim_app_values [OF A(1)] sim_app_values [OF C(1)] show thesis
    by (auto simp: idle_def)
qed

section \<open>One device\<close>

text \<open>What the driver asks of a device, and the EdgeX device made of the answers.\<close>

definition entry_port :: "address_entry \<Rightarrow> u16" where
  "entry_port d = the (device_port (ae_address d))"

definition supported_services :: "'k bacnet_stack \<Rightarrow> app_value \<Rightarrow> string_map" where
  "supported_services ops v =
     (\<lambda>n. if n = ''DS-RPM-B'' \<and> bitstring_bit ops v (SERVICE_SUPPORTED_READ_PROP_MULTIPLE ops) \<or>
             n = ''DS-WP-B'' \<and> bitstring_bit ops v (SERVICE_SUPPORTED_WRITE_PROPERTY ops) \<or>
             n = ''DS-WPM-B'' \<and> bitstring_bit ops v (SERVICE_SUPPORTED_WRITE_PROP_MULTIPLE ops)
          then Some ''true'' else None)"

definition edgex_entry :: "'k bacnet_stack \<Rightarrow> string \<Rightarrow> address_entry \<Rightarrow> string \<Rightarrow> string \<Rightarrow> app_value \<Rightarrow> edgex_device" where
  "edgex_entry ops path d name profile v =
     \<lparr>dev_name = name, dev_description = name @ '' '' @ DISCOVERY_DESCRIPTION, dev_labels = ''BACnet'',
      dev_profile = profile,
      dev_protocols = [''BACnetSupportedServices'' \<mapsto> supported_services ops v,
        protocol_name (datalink ops) \<mapsto>
          (case datalink ops of
             BACDL_MSTP \<Rightarrow> [''DeviceInstance'' \<mapsto> print_dec (unat (ae_device_id d)), ''Path'' \<mapsto> path]
           | BACDL_BIP \<Rightarrow> [''DeviceInstance'' \<mapsto> print_dec (unat (ae_device_id d)),
                          ''Port'' \<mapsto> print_dec (unat (entry_port d))])]\<rparr>"

text \<open>
  A device is added when it answers with a name that is a string and then with its services.
  \<open>None\<close>: the name has no character besides underscores, and the code has no profile name to copy.
\<close>

definition discover_answer ::
    "'k bacnet_stack \<Rightarrow> apdu_handlers \<Rightarrow> string \<Rightarrow> call_env \<Rightarrow> call_env \<Rightarrow> address_entry \<Rightarrow>
     'k \<times> address_entry list \<Rightarrow> (edgex_device option \<times> 'k \<times> address_entry list) option" where
  "discover_answer ops t path env1 env2 d s =
     (let (name, s) = asks ops t env1 (ae_device_id d) (entry_port d) (PROP_OBJECT_NAME ops) s
      in case name of
           Some (TAG_CHARACTER_STRING n) \<Rightarrow>
             (case strtok_first CHR ''_'' n of
                None \<Rightarrow> None
              | Some profile \<Rightarrow>
                  (let (services, s) = asks ops t env2 (ae_device_id d) (entry_port d)
                                         (PROP_PROTOCOL_SERVICES_SUPPORTED ops) s
                   in Some (map_option (edgex_entry ops path d n profile) services, s)))
         | _ \<Rightarrow> Some (None, s))"

lemma device_port_wf: "address_wf a \<Longrightarrow> device_port a = Some (the (device_port a))"
  by (simp add: device_port_def address_wf_def)

lemma protocol_populate_ok:
  assumes "address_wf (ae_address d)"
  shows "bacnet_protocol_populate dl path d m =
    Some (m(''DeviceInstance'' \<mapsto> print_dec (unat (ae_device_id d)),
            (case dl of BACDL_MSTP \<Rightarrow> ''Path'' | BACDL_BIP \<Rightarrow> ''Port'') \<mapsto>
            (case dl of BACDL_MSTP \<Rightarrow> path | BACDL_BIP \<Rightarrow> print_dec (unat (entry_port d)))))"
proof -
  obtain p where p: "device_port (ae_address d) = Some p" using device_port_wf [OF assms] by blast
  then show ?thesis using u32_length [of "ae_device_id d"] u16_length [of p]
    by (cases dl) (simp_all add: bacnet_protocol_populate_def entry_port_def BACNET_MAX_INSTANCE_LENGTH_def
      MAX_PORT_LENGTH_def)
qed

text \<open>Four blocks are in use while a device is added: labels, name, description, profile.\<close>

lemma name_blocks:
  assumes "heap_ok h" and "cells h labels = Some l0" and "strtok_first CHR ''_'' s = Some tok"
  obtains h' where
    "(let (name, h) = strdup s h
      in do {
        n \<leftarrow> deref h name;
        let size = length n + length DISCOVERY_DESCRIPTION + 2;
        txt \<leftarrow> sprintf_into size (n @ '' '' @ DISCOVERY_DESCRIPTION);
        let (description, h) = malloc txt h;
        let (delimit, h) = strdup n h;
        token \<leftarrow> strtok_first (CHR ''_'') n;
        let (profile_name, h) = strdup token h;
        h \<leftarrow> modify h labels (\<lambda>_. ''BACnet'');
        h \<leftarrow> free h delimit;
        F (name, description, profile_name) h
      }) = F (brk h, Suc (brk h), Suc (Suc (Suc (brk h)))) h'"
    and "heap_ok h'"
    and "cells h' = (cells h)(labels \<mapsto> ''BACnet'', brk h \<mapsto> s,
        Suc (brk h) \<mapsto> s @ '' '' @ DISCOVERY_DESCRIPTION, Suc (Suc (Suc (brk h))) \<mapsto> tok)"
proof -
  let ?b = "brk h"
  have b: "0 < ?b" and lb: "labels < ?b" "labels \<noteq> 0" and none: "\<And>p. ?b \<le> p \<Longrightarrow> cells h p = None"
    using assms(1,2) by (auto simp: heap_ok_def)
  let ?h = "h\<lparr>cells := (cells h)(labels \<mapsto> ''BACnet'', ?b \<mapsto> s, Suc ?b \<mapsto> s @ '' '' @ DISCOVERY_DESCRIPTION,
      Suc (Suc (Suc ?b)) \<mapsto> tok), brk := Suc (Suc (Suc (Suc ?b)))\<rparr>"
  have ok: "heap_ok ?h" using assms(1) lb by (auto simp: heap_ok_def less_Suc_eq)
  have c: "cells ?h = (cells h)(labels \<mapsto> ''BACnet'', ?b \<mapsto> s,
        Suc ?b \<mapsto> s @ '' '' @ DISCOVERY_DESCRIPTION, Suc (Suc (Suc ?b)) \<mapsto> tok)" by simp
  show thesis
    by (rule that [OF _ ok c], cases h) (use assms(2,3) b lb none in \<open>simp add: strdup_def malloc_def
        deref_def modify_def free_def heap_set_def sprintf_into_def Let_def fun_upd_idem fun_upd_twist\<close>)
qed

text \<open>The name of a device: a string or anything else.\<close>

lemma get_device_properties_ok:
  assumes "idle w s0 D" and "env_ok ops t env" and "heap_ok h" and "cells h labels = Some l0"
    and "asks ops t env dev port (PROP_OBJECT_NAME ops) s0 = (name, s1)"
  shows "case name of
      Some (TAG_CHARACTER_STRING s) \<Rightarrow>
        (case strtok_first CHR ''_'' s of
           None \<Rightarrow> get_device_properties ops t env dev port labels w h = None
         | Some tok \<Rightarrow> \<exists>h' w'. get_device_properties ops t env dev port labels w h =
               Some (True, (brk h, Suc (brk h), Suc (Suc (Suc (brk h)))), w', h') \<and>
             idle w' s1 D \<and> heap_ok h' \<and> cells h' = (cells h)(labels \<mapsto> ''BACnet'', brk h \<mapsto> s,
               Suc (brk h) \<mapsto> s @ '' '' @ DISCOVERY_DESCRIPTION, Suc (Suc (Suc (brk h))) \<mapsto> tok))
    | _ \<Rightarrow> \<exists>w'. get_device_properties ops t env dev port labels w h = Some (False, (NULL, NULL, NULL), w', h) \<and>
        idle w' s1 D"
proof -
  from idle_read [OF assms(1,2,5)] obtain w' where
    rd: "bacnetReadProperty ops t env dev (OBJECT_DEVICE ops) UINT32_MAX (PROP_OBJECT_NAME ops) UINT32_MAX port w =
      Some (result_ptr name (app_values w), w')"
    and w': "idle w' s1 D" "app_values w' = stored name (app_values w)" by blast
  show ?thesis
  proof (cases name)
    case None
    with rd w'(1) show ?thesis by (simp add: get_device_properties_def result_ptr_def)
  next
    case (Some v)
    let ?q = "brk (app_values w)"
    have q: "?q \<noteq> NULL" using heap_ok_fresh [OF idle_vals_ok [OF assms(1)]] by simp
    have c: "deref (app_values w') ?q = Some \<lparr>value_next = NULL, value_data = v\<rparr>"
      using q w'(2) Some by (simp add: stored_def malloc_def deref_def)
    have fr: "idle (w'\<lparr>app_values := heap_set (app_values w') ?q None\<rparr>) s1 D"
      by (rule idle_vals [OF w'(1) heap_ok_delete [OF idle_vals_ok [OF w'(1)]]])
    show ?thesis
    proof (cases "\<exists>s. v = TAG_CHARACTER_STRING s")
      case False
      with Some q rd c w'(1) show ?thesis
        by (cases v) (simp_all add: get_device_properties_def result_ptr_def)
    next
      case True
      then obtain s where s: "v = TAG_CHARACTER_STRING s" by blast
      show ?thesis
      proof (cases "strtok_first CHR ''_'' s")
        case None
        with Some s q rd c assms(3) show ?thesis
          by (simp add: get_device_properties_def result_ptr_def strdup_def malloc_def deref_def
              sprintf_into_def Let_def)
      next
        case tok: (Some tok)
        let ?F = "\<lambda>r h. map_option (\<lambda>u. (True, r, w'\<lparr>app_values := u\<rparr>, h)) (free (app_values w') ?q)"
        from name_blocks [where F = ?F, OF assms(3,4) tok] obtain h' where
          h': "(let (name, h) = strdup s h
            in do {
              n \<leftarrow> deref h name;
              let size = length n + length DISCOVERY_DESCRIPTION + 2;
              txt \<leftarrow> sprintf_into size (n @ '' '' @ DISCOVERY_DESCRIPTION);
              let (description, h) = malloc txt h;
              let (delimit, h) = strdup n h;
              token \<leftarrow> strtok_first (CHR ''_'') n;
              let (profile_name, h) = strdup token h;
              h \<leftarrow> modify h labels (\<lambda>_. ''BACnet'');
              h \<leftarrow> free h delimit;
              ?F (name, description, profile_name) h
            }) = ?F (brk h, Suc (brk h), Suc (Suc (Suc (brk h)))) h'" "heap_ok h'"
          "cells h' = (cells h)(labels \<mapsto> ''BACnet'', brk h \<mapsto> s,
              Suc (brk h) \<mapsto> s @ '' '' @ DISCOVERY_DESCRIPTION, Suc (Suc (Suc (brk h))) \<mapsto> tok)" by blast
        have F: "?F r h = do { v \<leftarrow> free (app_values w') ?q; Some (True, r, w'\<lparr>app_values := v\<rparr>, h) }" for r h
          by (cases "free (app_values w') ?q") simp_all
        have "free (app_values w') ?q = Some (heap_set (app_values w') ?q None)"
          using q c by (simp add: free_def)
        then have "get_device_properties ops t env dev port labels w h =
            Some (True, (brk h, Suc (brk h), Suc (Suc (Suc (brk h)))), w'\<lparr>app_values := heap_set (app_values w') ?q None\<rparr>, h')"
          using Some s q rd c h'(1) unfolding F by (simp add: get_device_properties_def result_ptr_def)
        with Some s tok fr h'(2,3) show ?thesis by auto
      qed
    qed
  qed
qed

lemma get_supported_services_ok:
  assumes "idle w s0 D" and "env_ok ops t env"
    and "asks ops t env dev port (PROP_PROTOCOL_SERVICES_SUPPORTED ops) s0 = (v, s1)"
  shows "\<exists>w'. get_supported_services ops t env dev port Map.empty w =
      Some (v \<noteq> None, (case v of None \<Rightarrow> Map.empty | Some x \<Rightarrow> supported_services ops x), w') \<and> idle w' s1 D"
proof -
  from idle_read [OF assms] obtain w' where
    rd: "bacnetReadProperty ops t env dev (OBJECT_DEVICE ops) UINT32_MAX (PROP_PROTOCOL_SERVICES_SUPPORTED ops)
      UINT32_MAX port w = Some (result_ptr v (app_values w), w')"
    and w': "idle w' s1 D" "app_values w' = stored v (app_values w)" by blast
  show ?thesis
  proof (cases v)
    case None
    with rd w'(1) show ?thesis by (simp add: get_supported_services_def result_ptr_def)
  next
    case (Some x)
    let ?q = "brk (app_values w)"
    have q: "?q \<noteq> NULL" using heap_ok_fresh [OF idle_vals_ok [OF assms(1)]] by simp
    have c: "deref (app_values w') ?q = Some \<lparr>value_next = NULL, value_data = x\<rparr>"
      using q w'(2) Some by (simp add: stored_def malloc_def deref_def)
    have "idle (w'\<lparr>app_values := heap_set (app_values w') ?q None\<rparr>) s1 D"
      by (rule idle_vals [OF w'(1) heap_ok_delete [OF idle_vals_ok [OF w'(1)]]])
    with rd Some q c show ?thesis
      by (auto simp: get_supported_services_def result_ptr_def free_def supported_services_def fun_eq_iff Let_def)
  qed
qed

text \<open>The blocks are freed again; without services the profile name is not.\<close>

lemma free_cell:
  assumes "heap_ok h" and "cells h p = Some x"
  shows "free h p = Some (heap_set h p None)" and "deref h p = Some x"
  using assms heap_ok_not_NULL [OF assms] by (simp_all add: free_def deref_def)

lemma free_three:
  assumes "heap_ok h" and "cells h p = Some x" and "cells h q = Some y" and "cells h r = Some z"
    and "distinct [p, q, r]"
  shows "\<exists>h1 h2 h3. free h p = Some h1 \<and> free h1 q = Some h2 \<and> free h2 r = Some h3 \<and>
    heap_ok h3 \<and> cells h3 = (cells h)(p := None, q := None, r := None)"
proof -
  let ?h1 = "heap_set h p None" let ?h2 = "heap_set ?h1 q None"
  have ok: "heap_ok ?h1" "heap_ok ?h2" using assms(1) by (simp_all add: heap_ok_delete)
  have "free h p = Some ?h1" by (rule free_cell [OF assms(1,2)])
  moreover have "free ?h1 q = Some ?h2" using assms(3,5) by (intro free_cell [OF ok(1), of q y]) simp
  moreover have "free ?h2 r = Some (heap_set ?h2 r None)" using assms(4,5) by (intro free_cell [OF ok(2), of r z]) simp
  ultimately show ?thesis using heap_ok_delete [OF ok(2), of r] by simp
qed

lemma free_four:
  assumes "heap_ok h" and "cells h p = Some x" and "cells h q = Some y" and "cells h r = Some z" and "cells h s = Some u"
    and "distinct [p, q, r, s]"
  shows "\<exists>h1 h2 h3 h4. free h p = Some h1 \<and> free h1 q = Some h2 \<and> free h2 r = Some h3 \<and> free h3 s = Some h4 \<and>
    heap_ok h4 \<and> cells h4 = (cells h)(p := None, q := None, r := None, s := None)"
proof -
  let ?h1 = "heap_set h p None"
  have ok: "heap_ok ?h1" using assms(1) by (simp add: heap_ok_delete)
  have "free h p = Some ?h1" by (rule free_cell [OF assms(1,2)])
  moreover have "cells ?h1 q = Some y" "cells ?h1 r = Some z" "cells ?h1 s = Some u" "distinct [q, r, s]"
    using assms(3-6) by auto
  from free_three [OF ok this] obtain h2 h3 h4 where "free ?h1 q = Some h2" "free h2 r = Some h3" "free h3 s = Some h4"
    "heap_ok h4" "cells h4 = (cells ?h1)(q := None, r := None, s := None)" by blast
  ultimately show ?thesis by simp
qed

section \<open>The loop\<close>

lemma idle_ae_read: "idle w s D \<Longrightarrow> D p = Some d \<Longrightarrow> ae_read p w = Some d"
  by (auto simp: idle_def table_nodes_def ae_read_def)

lemma idle_ae_free:
  assumes "idle w s D" and "D p = Some d"
  obtains w' where "ae_free_world p w = Some w'" and "idle w' s (D(p := None))"
proof -
  obtain k T where s: "s = (k, T)" by fastforce
  from idle_list [OF assms(1) [unfolded s]] obtain l r where
    l: "addressEntryHead w = Some l" "rep l r" "address_table r" "map snd r = T"
    and n: "allocated (nodes l) = fst ` set r \<union> dom D" "fst ` set r \<inter> dom D = {}"
      "\<forall>p d. D p = Some d \<longrightarrow> ll_get p l = Some d" by blast
  have p: "p \<in> allocated (nodes l)" "p \<notin> fst ` set r" using n(1,2) assms(2) by auto
  from ll_free_node_spec [OF rep_heap_ok [OF l(2)] p(1)] l(2) p(2) obtain l' where
    l': "ll_free_node p l = Some l'" "allocated (nodes l') = allocated (nodes l) - {p}"
    "\<forall>q. q \<noteq> p \<longrightarrow> ll_get q l' = ll_get q l" "rep l' r" by blast
  have "table_nodes (D(p := None)) (Some l')"
    unfolding table_nodes_def using l' l(3) n p(2)
    by (intro exI [of _ l'] exI [of _ r]) auto
  from idle_table [OF assms(1) [unfolded s] this l'(4)] l(4)
  have "idle (w\<lparr>addressEntryHead := Some l'\<rparr>) s (D(p := None))" by (simp add: s)
  moreover have "ae_free_world p w = Some (w\<lparr>addressEntryHead := Some l'\<rparr>)"
    using l(1) l'(1) by (simp add: ae_free_world_def)
  ultimately show thesis using that by blast
qed

text \<open>Taking the first entry off the table.\<close>

lemma idle_pop_empty:
  assumes "idle w (k, []) D"
  shows "ae_pop_world w = Some (NULL, w)"
proof -
  from idle_list [OF assms] obtain l r where l: "addressEntryHead w = Some l" "rep l r" "map snd r = []" by metis
  then have "address_entry_pop l = Some (NULL, l)" by (intro address_entry_pop_empty) simp
  moreover have "w\<lparr>addressEntryHead := Some l\<rparr> = w" using l(1) by simp
  ultimately show ?thesis using l(1) by (simp add: ae_pop_world_def)
qed

lemma idle_pop:
  assumes "idle w (k, d # T) D"
  obtains p w1 where "ae_pop_world w = Some (p, w1)" and "p \<noteq> NULL" and "p \<notin> dom D"
    and "idle w1 (k, T) (D(p \<mapsto> d))" and "address_wf (ae_address d)"
proof -
  from idle_list [OF assms] obtain l r0 where
    l: "addressEntryHead w = Some l" "rep l r0" "address_table r0" "map snd r0 = d # T"
    and n: "allocated (nodes l) = fst ` set r0 \<union> dom D" "fst ` set r0 \<inter> dom D = {}"
      "\<forall>p d. D p = Some d \<longrightarrow> ll_get p l = Some d" by blast
  from l(4) obtain p r where r: "r0 = (p, d) # r" "map snd r = T" by (cases r0) auto
  from address_entry_pop_first [OF l(2) [unfolded r(1)]] obtain l1 where
    l1: "address_entry_pop l = Some (p, l1)" "rep l1 r" "allocated (nodes l1) = allocated (nodes l)"
    "\<forall>q. ll_get q l1 = ll_get q l" by blast
  have p: "p \<notin> fst ` set r" "p \<noteq> NULL" "p \<notin> dom D" "ll_get p l = Some d"
    using rep_unlocked_distinct [OF l(2)] rep_not_NULL [OF l(2)] rep_get [OF l(2), of p d] n(2) r(1) by auto
  have "table_nodes (D(p \<mapsto> d)) (Some l1)"
    unfolding table_nodes_def using l1 p n r(1) address_table_tl [OF l(3) [unfolded r(1)]]
    by (intro exI [of _ l1] exI [of _ r]) auto
  from idle_table [OF assms this l1(2)] r(2)
  have "idle (w\<lparr>addressEntryHead := Some l1\<rparr>) (k, T) (D(p \<mapsto> d))" by simp
  moreover have "ae_pop_world w = Some (p, w\<lparr>addressEntryHead := Some l1\<rparr>)"
    using l(1) l1(1) by (simp add: ae_pop_world_def)
  moreover have "address_wf (ae_address d)" using l(3) r(1) by (auto simp: address_table_def)
  ultimately show thesis using that p(2,3) by blast
qed

lemma discover_device_ok:
  assumes idle: "idle w s D" and p: "D p = Some d" and wf: "address_wf (ae_address d)" and h: "heap_ok h"
    and env: "env_ok ops t env1" "env_ok ops t env2"
  shows "case discover_answer ops t path env1 env2 d s of
      None \<Rightarrow> discover_device ops t path env1 env2 p (w, h, added) = None
    | Some (x, s') \<Rightarrow> \<exists>w' h'. discover_device ops t path env1 env2 p (w, h, added) =
          Some (w', h', added @ (case x of None \<Rightarrow> [] | Some y \<Rightarrow> [y])) \<and> heap_ok h' \<and>
        idle w' s' (if x = None then D else D(p := None))"
proof -
  let ?dev = "ae_device_id d"
  obtain lb h0 where mal: "malloc '''' h = (lb, h0)" by fastforce
  have h0: "heap_ok h0" "cells h0 lb = Some ''''" "lb \<noteq> brk h0" "lb < brk h0"
    using mal heap_ok_malloc [OF h mal] by (auto simp: malloc_def)
  have rd: "ae_read p w = Some d" by (rule idle_ae_read [OF idle p])
  have port: "device_port (ae_address d) = Some (entry_port d)"
    using device_port_wf [OF wf] by (simp add: entry_port_def)
  obtain name s1 where n: "asks ops t env1 ?dev (entry_port d) (PROP_OBJECT_NAME ops) s = (name, s1)"
    by (metis prod.collapse)
  note pop = protocol_populate_ok [OF wf, of "datalink ops" path Map.empty]
  note start = mal rd port pop and props = get_device_properties_ok [OF idle env(1) h0(1,2) n]
  show ?thesis
  proof (cases "\<exists>x. name = Some (TAG_CHARACTER_STRING x)")
    case False
    with props obtain w' where w': "get_device_properties ops t env1 ?dev (entry_port d) lb w h0 =
        Some (False, (NULL, NULL, NULL), w', h0)" "idle w' s1 D"
      by (auto split: option.splits app_value.splits)
    moreover have "discover_answer ops t path env1 env2 d s = Some (None, s1)"
      using False n by (auto simp: discover_answer_def Let_def split: option.splits app_value.splits)
    moreover note free_cell [OF h0(1,2)] heap_ok_delete [OF h0(1), of lb]
    ultimately show ?thesis using start by (auto simp: discover_device_def)
  next
    case True
    then obtain x where x: "name = Some (TAG_CHARACTER_STRING x)" by blast
    show ?thesis
    proof (cases "strtok_first CHR ''_'' x")
      case None
      with x props have "get_device_properties ops t env1 ?dev (entry_port d) lb w h0 = None" by simp
      with None x n start show ?thesis by (simp add: discover_device_def discover_answer_def)
    next
      case tok: (Some tok)
      let ?d = "x @ '' '' @ DISCOVERY_DESCRIPTION" let ?b = "brk h0"
      from props x tok obtain h1 w1 where
        g: "get_device_properties ops t env1 ?dev (entry_port d) lb w h0 =
          Some (True, (?b, Suc ?b, Suc (Suc (Suc ?b))), w1, h1)" "idle w1 s1 D" "heap_ok h1"
        and c1: "cells h1 = (cells h0)(lb \<mapsto> ''BACnet'', ?b \<mapsto> x, Suc ?b \<mapsto> ?d, Suc (Suc (Suc ?b)) \<mapsto> tok)"
        by auto
      have blocks: "cells h1 ?b = Some x" "cells h1 (Suc ?b) = Some ?d" "cells h1 (Suc (Suc (Suc ?b))) = Some tok"
        "cells h1 lb = Some ''BACnet''" using h0(3,4) by (simp_all add: c1)
      obtain v s2 where v: "asks ops t env2 ?dev (entry_port d) (PROP_PROTOCOL_SERVICES_SUPPORTED ops) s1 = (v, s2)"
        by (metis prod.collapse)
      from get_supported_services_ok [OF g(2) env(2) v] obtain w2 where
        sv: "get_supported_services ops t env2 ?dev (entry_port d) Map.empty w1 =
          Some (v \<noteq> None, (case v of None \<Rightarrow> Map.empty | Some x \<Rightarrow> supported_services ops x), w2)" "idle w2 s2 D" by blast
      have rd1: "ae_read p w1 = Some d" by (rule idle_ae_read [OF g(2) p])
      have ans: "discover_answer ops t path env1 env2 d s = Some (map_option (edgex_entry ops path d x tok) v, s2)"
        using x n tok v by (simp add: discover_answer_def)
      show ?thesis
      proof (cases v)
        case None
        have "distinct [?b, Suc ?b, lb]" using h0(3,4) by auto
        from free_three [OF g(3) blocks(1,2,4) this] obtain h2 h3 h4 where
          "free h1 ?b = Some h2" "free h2 (Suc ?b) = Some h3" "free h3 lb = Some h4" "heap_ok h4" by blast
        with None start g sv rd1 ans show ?thesis by (auto simp: discover_device_def)
      next
        case (Some y)
        have "distinct [?b, Suc (Suc (Suc ?b)), Suc ?b, lb]" using h0(3,4) by auto
        from free_four [OF g(3) blocks(1,3,2,4) this] obtain h2 h3 h4 h5 where
          fr: "free h1 ?b = Some h2" "free h2 (Suc (Suc (Suc ?b))) = Some h3" "free h3 (Suc ?b) = Some h4"
          "free h4 lb = Some h5" "heap_ok h5" by blast
        from idle_ae_free [OF sv(2) p] obtain w3 where
          w3: "ae_free_world p w2 = Some w3" "idle w3 s2 (D(p := None))" by blast
        from free_cell(2) [OF g(3) blocks(1)] free_cell(2) [OF g(3) blocks(2)] free_cell(2) [OF g(3) blocks(3)]
          free_cell(2) [OF g(3) blocks(4)] fr(1-4) start g(1) sv(1) rd1 w3(1) Some
        have "discover_device ops t path env1 env2 p (w, h, added) =
            Some (w3, h5, added @ [edgex_entry ops path d x tok y])"
          by (cases "datalink ops") (simp_all add: discover_device_def edgex_entry_def)
        with w3 fr(5) ans Some show ?thesis by auto
      qed
    qed
  qed
qed

text \<open>
  All rounds: the devices asked, in order, each with what is added for it. A device that announces
  itself during a read comes to the front of the table, and is asked when the round is over; \<open>None\<close>
  also when there is no last round.
\<close>

partial_function (option) discover_answers ::
    "'k bacnet_stack \<Rightarrow> apdu_handlers \<Rightarrow> string \<Rightarrow> (nat \<Rightarrow> call_env) \<Rightarrow> nat \<Rightarrow> 'k \<times> address_entry list \<Rightarrow>
     ((address_entry \<times> edgex_device option) list \<times> 'k \<times> address_entry list) option" where
  "discover_answers ops t path env n s =
     (case snd s of
        [] \<Rightarrow> Some ([], s)
      | d # T \<Rightarrow> do {
          (x, s) \<leftarrow> discover_answer ops t path (env n) (env (Suc n)) d (fst s, T);
          (xs, s) \<leftarrow> discover_answers ops t path env (Suc (Suc n)) s;
          Some ((d, x) # xs, s)
        })"

text \<open>The devices nothing was added for: their entries stay allocated.\<close>

definition skipped :: "(address_entry \<times> edgex_device option) list \<Rightarrow> address_entry list" where
  "skipped xs = map fst (filter (\<lambda>(d, x). x = None) xs)"

lemma skipped_simps [simp]:
  "skipped [] = []" "skipped ((d, None) # xs) = d # skipped xs" "skipped ((d, Some x) # xs) = skipped xs"
  by (simp_all add: skipped_def)

definition lost :: "(ptr \<rightharpoonup> address_entry) \<Rightarrow> address_entry list \<Rightarrow> (ptr \<rightharpoonup> address_entry) \<Rightarrow> bool" where
  "lost D ds D' \<longleftrightarrow> (\<exists>ps. length ps = length ds \<and> distinct ps \<and> set ps \<inter> dom D = {} \<and> D' = D(ps [\<mapsto>] ds))"

lemma lost_Nil [simp]: "lost D [] D' \<longleftrightarrow> D' = D"
  by (auto simp: lost_def)

lemma lost_Cons: "p \<notin> dom D \<Longrightarrow> lost (D(p \<mapsto> d)) ds D' \<Longrightarrow> lost D (d # ds) D'"
proof -
  assume p: "p \<notin> dom D" and "lost (D(p \<mapsto> d)) ds D'"
  then obtain ps where "length ps = length ds" "distinct ps" "set ps \<inter> dom (D(p \<mapsto> d)) = {}"
    "D' = (D(p \<mapsto> d))(ps [\<mapsto>] ds)" unfolding lost_def by blast
  with p show ?thesis unfolding lost_def by (intro exI [of _ "p # ps"]) simp
qed

text \<open>One round of the loop.\<close>

lemma discover_round:
  assumes "idle w (k, d # T) D" and "heap_ok h" and "\<And>m. env_ok ops t (env m)"
  obtains p w1 where "ae_pop_world w = Some (p, w1)" and "p \<noteq> NULL" and "p \<notin> dom D"
    and "case discover_answer ops t path (env n) (env (Suc n)) d (k, T) of
        None \<Rightarrow> discover_device ops t path (env n) (env (Suc n)) p (w1, h, added) = None
      | Some (x, s') \<Rightarrow> \<exists>w' h'. discover_device ops t path (env n) (env (Suc n)) p (w1, h, added) =
            Some (w', h', added @ (case x of None \<Rightarrow> [] | Some y \<Rightarrow> [y])) \<and>
          heap_ok h' \<and> idle w' s' (if x = None then D(p \<mapsto> d) else D)"
proof -
  from idle_pop [OF assms(1)] obtain p w1 where
    p: "ae_pop_world w = Some (p, w1)" "p \<noteq> NULL" "p \<notin> dom D" "idle w1 (k, T) (D(p \<mapsto> d))" "address_wf (ae_address d)" .
  have D: "(D(p \<mapsto> d))(p := None) = D" using p(3) by (auto simp: fun_eq_iff)
  note dev = discover_device_ok [OF p(4) fun_upd_same p(5) assms(2) assms(3) [of n] assms(3) [of "Suc n"],
      of path added, unfolded D]
  show thesis by (rule that [OF p(1-3) dev])
qed

lemma discover_loop_ok:
  "discover_answers ops t path env n s = Some (xs, s') \<Longrightarrow> idle w s D \<Longrightarrow> heap_ok h \<Longrightarrow>
   (\<And>m. env_ok ops t (env m)) \<Longrightarrow>
   \<exists>w' h' D'. discover_loop ops t path env n (w, h, added) = Some (w', h', added @ List.map_filter snd xs) \<and>
     heap_ok h' \<and> snd s' = [] \<and> lost D (skipped xs) D' \<and> idle w' s' D'"
proof (induction xs arbitrary: n s w D h added)
  case Nil
  then obtain k where s: "s = (k, [])" "s' = s"
    by (subst (asm) discover_answers.simps) (auto split: list.splits Option.bind_splits, cases s, auto)
  have "discover_loop ops t path env n (w, h, added) = Some (w, h, added)"
    using idle_pop_empty [OF Nil(2) [unfolded s(1)]] by (subst discover_loop.simps) simp
  with Nil s show ?case by (auto simp: List.map_filter_simps)
next
  case (Cons y xs)
  obtain d x where y: "y = (d, x)" by fastforce
  from Cons.prems(1) y obtain k T s1 where s: "s = (k, d # T)"
    and x: "discover_answer ops t path (env n) (env (Suc n)) d (k, T) = Some (x, s1)"
    and xs: "discover_answers ops t path env (Suc (Suc n)) s1 = Some (xs, s')"
    by (cases s, subst (asm) discover_answers.simps) (auto split: list.splits Option.bind_splits)
  let ?added = "added @ (case x of None \<Rightarrow> [] | Some z \<Rightarrow> [z])"
  from discover_round [where added = added and path = path and n = n and env = env,
      OF Cons.prems(2) [unfolded s] Cons.prems(3,4), unfolded x option.case prod.case] obtain p w0 where
    p0: "ae_pop_world w = Some (p, w0)" "p \<noteq> NULL" "p \<notin> dom D"
    and dev: "\<exists>w1 h1. discover_device ops t path (env n) (env (Suc n)) p (w0, h, added) = Some (w1, h1, ?added) \<and>
      heap_ok h1 \<and> idle w1 s1 (if x = None then D(p \<mapsto> d) else D)" by blast
  from dev obtain w1 h1 where
    p: "discover_device ops t path (env n) (env (Suc n)) p (w0, h, added) = Some (w1, h1, ?added)"
    and r: "heap_ok h1" "idle w1 s1 (if x = None then D(p \<mapsto> d) else D)" by blast
  from Cons.IH [OF xs r(2,1) Cons.prems(4), of ?added] obtain w' h' D' where
    "discover_loop ops t path env (Suc (Suc n)) (w1, h1, ?added) =
      Some (w', h', ?added @ List.map_filter snd xs)" "heap_ok h'" "snd s' = []"
    "lost (if x = None then D(p \<mapsto> d) else D) (skipped xs) D'" "idle w' s' D'" by blast
  moreover from this(4) lost_Cons [OF p0(3)] y have "lost D (skipped (y # xs)) D'" by (cases x) simp_all
  moreover have "discover_loop ops t path env n (w, h, added) = discover_loop ops t path env (Suc (Suc n)) (w1, h1, ?added)"
    using p0 p by (subst discover_loop.simps) simp
  ultimately show ?case using y by (cases x) (auto simp: List.map_filter_simps)
qed

text \<open>If the loop comes to an end, so does the function.\<close>

definition ends ::
    "'k bacnet_stack \<Rightarrow> apdu_handlers \<Rightarrow> string \<Rightarrow> (nat \<Rightarrow> call_env) \<Rightarrow> nat \<Rightarrow>
     'k world \<times> string heap \<times> edgex_device list \<Rightarrow> bool" where
  "ends ops t path env n x \<longleftrightarrow> (\<forall>s D. (\<forall>m. env_ok ops t (env m)) \<longrightarrow> idle (fst x) s D \<longrightarrow> heap_ok (fst (snd x)) \<longrightarrow>
     discover_answers ops t path env n s \<noteq> None)"

lemma discover_ends_step:
  assumes "\<And>z. f z = Some y \<Longrightarrow> ends ops t path env (Suc (Suc n)) z"
    and "do { (p, w) \<leftarrow> ae_pop_world (fst x);
           if p = NULL then Some (w, snd x)
           else do { z \<leftarrow> discover_device ops t path (env n) (env (Suc n)) p (w, snd x); f z } } = Some y"
  shows "ends ops t path env n x"
  unfolding ends_def
proof (intro allI impI)
  fix s :: "'a \<times> address_entry list" and D
  assume env: "\<forall>m. env_ok ops t (env m)" and idle: "idle (fst x) s D" and ok: "heap_ok (fst (snd x))"
  obtain w h added where x: "x = (w, h, added)" by (metis prod_cases3)
  show "discover_answers ops t path env n s \<noteq> None"
  proof (cases "snd s")
    case Nil
    then show ?thesis by (subst discover_answers.simps) simp
  next
    case (Cons d T)
    then have s: "s = (fst s, d # T)" by (cases s) simp
    have "idle w (fst s, d # T) D" "heap_ok h" using idle ok x s by simp_all
    from discover_round [where added = added and path = path and n = n and env = env, OF this env [rule_format]]
    obtain p w1 where p: "ae_pop_world w = Some (p, w1)" "p \<noteq> NULL"
      and r: "case discover_answer ops t path (env n) (env (Suc n)) d (fst s, T) of
        None \<Rightarrow> discover_device ops t path (env n) (env (Suc n)) p (w1, h, added) = None
      | Some (x, s') \<Rightarrow> \<exists>w' h'. discover_device ops t path (env n) (env (Suc n)) p (w1, h, added) =
            Some (w', h', added @ (case x of None \<Rightarrow> [] | Some y \<Rightarrow> [y])) \<and>
          heap_ok h' \<and> idle w' s' (if x = None then D(p \<mapsto> d) else D)" by blast
    from assms(2) x p obtain z where
      z: "discover_device ops t path (env n) (env (Suc n)) p (w1, h, added) = Some z" "f z = Some y"
      by (auto split: Option.bind_splits)
    from z(1) r obtain a s' where a: "discover_answer ops t path (env n) (env (Suc n)) d (fst s, T) = Some (a, s')"
      and z': "heap_ok (fst (snd z))" "idle (fst z) s' (if a = None then D(p \<mapsto> d) else D)"
      by (auto split: option.splits)
    from assms(1) [OF z(2)] env z' have "discover_answers ops t path env (Suc (Suc n)) s' \<noteq> None"
      unfolding ends_def by blast
    with a Cons show ?thesis by (subst discover_answers.simps) auto
  qed
qed

lemma discover_loop_ends: "discover_loop ops t path env n x = Some y \<Longrightarrow> ends ops t path env n x"
  by (erule discover_loop.raw_induct [rotated]) (rule discover_ends_step)

section \<open>Runs that end\<close>

lemma announce_quiet: "list_all no_i_am es \<Longrightarrow> fold (announce ops t) es T = T"
proof (induction es)
  case (Cons e es)
  then show ?case by (cases e) simp_all
qed simp

lemma hear_quiet: "list_all no_i_am es \<Longrightarrow> fold (hear ops t x) es s = s"
proof (induction es)
  case (Cons e es)
  then show ?case by (cases e) simp_all
qed simp

text \<open>No I-Am arrives.\<close>

definition env_quiet :: "call_env \<Rightarrow> bool" where
  "env_quiet env \<longleftrightarrow> list_all no_i_am (bind_events env) \<and> list_all no_i_am (reply_events env)"

lemma call_spec_quiet:
  assumes "env_quiet env" and "call_spec ops t env port dev send s = (ia, s')"
  shows "snd s' = snd s"
proof -
  have e: "list_all no_i_am (bind_events env)" "list_all no_i_am (reply_events env)"
    using assms(1) by (simp_all add: env_quiet_def)
  have "snd (snd (bind_spec ops t env port dev s)) = snd s"
    by (simp add: bind_spec_def hear_quiet [OF e(1)] split: prod.splits option.splits)
  with assms(2) announce_quiet [OF e(2)] show ?thesis
    by (auto simp: call_spec_def split: prod.splits option.splits)
qed

lemma asks_quiet: "env_quiet env \<Longrightarrow> asks ops t env dev port pr s = (r, s') \<Longrightarrow> snd s' = snd s"
  by (cases "call_spec ops t env port dev
      (Send_Read_Property_Request ops dev (OBJECT_DEVICE ops) UINT32_MAX pr UINT32_MAX) s")
    (auto simp: asks_def dest: call_spec_quiet)

lemma discover_answer_quiet:
  assumes "env_quiet env1" and "env_quiet env2" and "discover_answer ops t path env1 env2 d s = Some (x, s')"
  shows "snd s' = snd s"
  using assms(3)
  by (auto simp: discover_answer_def split: prod.splits option.splits app_value.splits
      dest!: asks_quiet [OF assms(1)] asks_quiet [OF assms(2)])

text \<open>Every name has a character besides underscores.\<close>

definition names_ok :: "'k bacnet_stack \<Rightarrow> apdu_handlers \<Rightarrow> call_env \<Rightarrow> bool" where
  "names_ok ops t env \<longleftrightarrow> (\<forall>ia x. first_reply ops t ia (reply_events env) = Some (TAG_CHARACTER_STRING x) \<longrightarrow>
     strtok_first CHR ''_'' x \<noteq> None)"

lemma discover_answer_defined:
  assumes "names_ok ops t env1"
  obtains x s' where "discover_answer ops t path env1 env2 d s = Some (x, s')"
proof -
  obtain r s1 where a: "asks ops t env1 (ae_device_id d) (entry_port d) (PROP_OBJECT_NAME ops) s = (r, s1)"
    by (metis prod.collapse)
  then have "strtok_first CHR ''_'' x \<noteq> None" if "r = Some (TAG_CHARACTER_STRING x)" for x
    using that assms by (auto simp: asks_def read_answer_def names_ok_def split: prod.splits option.splits)
  with a have "discover_answer ops t path env1 env2 d s \<noteq> None"
    by (auto simp: discover_answer_def split: prod.splits option.splits app_value.splits)
  with that show thesis by fastforce
qed

lemma discover_answers_end:
  assumes names: "\<And>m. names_ok ops t (env m)" and quiet: "\<And>m. N \<le> m \<Longrightarrow> env_quiet (env m)"
  shows "discover_answers ops t path env n s \<noteq> None"
proof -
  have late: "discover_answers ops t path env n (k, T) \<noteq> None" if "N \<le> n" for n k T
    using that
  proof (induction T arbitrary: n k)
    case Nil
    then show ?case by (subst discover_answers.simps) simp
  next
    case (Cons d T)
    obtain x s' where x: "discover_answer ops t path (env n) (env (Suc n)) d (k, T) = Some (x, s')"
      by (rule discover_answer_defined [OF names])
    have "snd s' = T" using discover_answer_quiet [OF quiet quiet x] Cons.prems by simp
    with Cons.IH [of "Suc (Suc n)" "fst s'"] Cons.prems x show ?case
      by (subst discover_answers.simps) auto
  qed
  show ?thesis
  proof (induction "N - n" arbitrary: n s rule: less_induct)
    case less
    show ?case
    proof (cases "N \<le> n \<or> snd s = []")
      case True
      then show ?thesis
      proof
        assume "N \<le> n"
        with late [of n "fst s" "snd s"] show ?thesis by simp
      qed (subst discover_answers.simps, simp)
    next
      case False
      then obtain d T where T: "snd s = d # T" by (cases "snd s") auto
      obtain x s' where x: "discover_answer ops t path (env n) (env (Suc n)) d (fst s, T) = Some (x, s')"
        by (rule discover_answer_defined [OF names])
      have "discover_answers ops t path env (Suc (Suc n)) s' \<noteq> None" using False by (intro less) linarith
      with x T show ?thesis by (subst discover_answers.simps) auto
    qed
  qed
qed

section \<open>The Who-Is\<close>

definition whois_state :: "'k bacnet_stack \<Rightarrow> 'k \<Rightarrow> 'k" where
  "whois_state ops k = Send_WhoIs_To_Network ops (datalink_get_broadcast_address ops) (-1) (-1)
     (if datalink ops = BACDL_BIP then bip_set_port ops (htons 0xBAC0) k else k)"

lemma whois_alone:
  assumes "alone A" and "p \<noteq> NULL"
  shows "alone (view_whois ops t env p A) \<and> (vstk (view_whois ops t env p A), table (view_whois ops t env p A)) =
    (whois_state ops (vstk A), fold (announce ops t) (reply_events env) (table A))"
proof -
  let ?B = "(view_set_port ops 0xBAC0 (begin_call p A))\<lparr>vstk := whois_state ops (vstk A)\<rparr>"
  have "lone p (0, zero_address) None False (vals A) None (whois_state ops (vstk A), table A) ?B"
    using lone_vstk [OF lone_set_port [OF lone_begin [OF assms]], of "whois_state ops (vstk A)"] by simp
  from lone_all [OF this, of ops t "reply_events env"]
  have l: "lone p (0, zero_address) (first_reply ops t (0, zero_address) (reply_events env))
      (failed ops t (0, zero_address) (reply_events env)) (vals A) None
      (whois_state ops (vstk A), fold (announce ops t) (reply_events env) (table A))
      (view_handle_all ops t (reply_events env) ?B)" by (simp add: hear_all_announce)
  have "view_whois ops t env p A = end_call p (view_handle_all ops t (reply_events env) ?B)"
    by (simp add: view_whois_def whois_state_def Let_def view_set_port_def)
  with lone_end [OF l] show ?thesis by simp
qed

lemma idle_whois:
  assumes "idle w (k, T) D" and "list_all event_wf (reply_events env)"
  obtains l w' where "bacnetWhoIs ops t env w = Some (Some l, w')" and "addressEntryHead w' = Some l"
    and "idle w' (whois_state ops k, fold (announce ops t) (reply_events env) T) D"
proof -
  from assms(1) obtain A where A: "sim w A" "quiet A" "alone A" "vstk A = k" "table A = T" and D: "table_with D w"
    by (auto simp: idle_def)
  from whois_sim [OF A(1,2) assms(2), of ops t] obtain p w' where
    p: "p \<noteq> NULL" "bacnetWhoIs ops t env w = Some (addressEntryHead w', w')"
    "sim w' (view_whois ops t env p A)" "quiet (view_whois ops t env p A)" by blast
  have "table_with D w'" using whois_nodes [OF p(2) assms(2)] D by blast
  with p(3,4) whois_alone [OF A(3) p(1), of ops t env] A(4,5)
  have "idle w' (whois_state ops k, fold (announce ops t) (reply_events env) T) D"
    unfolding idle_def by blast
  moreover from p(3) obtain l where "addressEntryHead w' = Some l" by (auto simp: sim_def)
  ultimately show thesis using that p(2) by metis
qed

text \<open>A whole run: the Who-Is, and then the devices of the table.\<close>

definition discover_spec ::
    "'k bacnet_stack \<Rightarrow> apdu_handlers \<Rightarrow> string \<Rightarrow> (nat \<Rightarrow> call_env) \<Rightarrow> 'k \<times> address_entry list \<Rightarrow>
     ((address_entry \<times> edgex_device option) list \<times> 'k \<times> address_entry list) option" where
  "discover_spec ops t path env s =
     discover_answers ops t path env 1
       (whois_state ops (if datalink ops = BACDL_MSTP then RS485_Set_Interface ops path (fst s) else fst s),
        fold (announce ops t) (reply_events (env 0)) (snd s))"

lemma idle_stack_call: "idle w (k, T) D \<Longrightarrow> idle (stack_call f w) (f k, T) D"
proof -
  assume "idle w (k, T) D"
  then obtain A where A: "sim w A" "quiet A" "alone A" "vstk A = k" "table A = T" "table_with D w"
    by (auto simp: idle_def)
  with sim_stack_call [of w A f] show ?thesis unfolding idle_def
    by (auto simp: quiet_def alone_def intro!: exI [of _ "A\<lparr>vstk := f k\<rparr>"])
qed

lemma discover_run:
  assumes "idle w s D" and "heap_ok h" and "\<And>n. env_ok ops t (env n)"
  shows "case discover_spec ops t path env s of
      None \<Rightarrow> bacnet_discover ops t path env (w, h, added) = None
    | Some (xs, s') \<Rightarrow> \<exists>w' h' D'. bacnet_discover ops t path env (w, h, added) =
          Some (w', h', added @ List.map_filter snd xs) \<and> heap_ok h' \<and> snd s' = [] \<and>
        lost D (skipped xs) D' \<and> idle w' s' D'"
proof -
  obtain k T where s: "s = (k, T)" by fastforce
  let ?k = "if datalink ops = BACDL_MSTP then RS485_Set_Interface ops path k else k"
  let ?w = "if datalink ops = BACDL_MSTP then stack_call (RS485_Set_Interface ops path) w else w"
  have idle: "idle ?w (?k, T) D" using assms(1) idle_stack_call [of w k T D] s by simp
  have "list_all event_wf (reply_events (env 0))" using assms(3) [of 0] by (simp add: env_ok_def env_wf_def)
  from idle_whois [OF idle this, of ops t] obtain l w1 where
    w1: "bacnetWhoIs ops t (env 0) ?w = Some (Some l, w1)"
    "idle w1 (whois_state ops ?k, fold (announce ops t) (reply_events (env 0)) T) D" by blast
  have run: "bacnet_discover ops t path env (w, h, added) = discover_loop ops t path env 1 (w1, h, added)"
    using w1(1) by (cases "datalink ops = BACDL_MSTP") (simp_all add: bacnet_discover_def)
  show ?thesis
  proof (cases "discover_spec ops t path env s")
    case None
    have "\<not> ends ops t path env 1 (w1, h, added)"
    proof
      assume "ends ops t path env 1 (w1, h, added)"
      from this [unfolded ends_def, rule_format, OF assms(3), unfolded fst_conv snd_conv, OF w1(2) assms(2)] None
      show False by (simp only: discover_spec_def s fst_conv snd_conv)
    qed
    then have "discover_loop ops t path env 1 (w1, h, added) = None"
      using discover_loop_ends by (metis not_None_eq)
    with None run show ?thesis by simp
  next
    case (Some a)
    obtain xs s' where a: "a = (xs, s')" by (metis prod.collapse)
    from Some a s have "discover_answers ops t path env 1
        (whois_state ops ?k, fold (announce ops t) (reply_events (env 0)) T) = Some (xs, s')"
      by (simp only: discover_spec_def s fst_conv snd_conv)
    from discover_loop_ok [OF this w1(2) assms(2,3)] Some a run show ?thesis by simp
  qed
qed

section \<open>Properties\<close>

text \<open>
  C4. A discovery run, started while no call is pending, for any devices and any messages. The
  devices asked are those of the table: the ones already in it and those that announced
  themselves after the Who-Is, newest first; a device that announces itself while another one, or
  itself, is asked is asked next, even if it was before. Every device that returns a string as
  its name and then its services is added to EdgeX, in this order, under its name, with the part
  of the name before the first underscore as its profile, its services and its address; the
  others are skipped. In the end the table is empty. The entries of the devices added are freed,
  those of the skipped ones are lost. If the specification is undefined, which is so when a name
  consists of underscores only or when devices are announced without end, so is the run.
\<close>

theorem bacnet_discover_correct:
  assumes "idle w s D" and "heap_ok h" and "\<And>n. env_ok ops t (env n)"
  shows "case discover_spec ops t path env s of
      None \<Rightarrow> bacnet_discover ops t path env (w, h, added) = None
    | Some (xs, s') \<Rightarrow> \<exists>w' h' D'. bacnet_discover ops t path env (w, h, added) =
          Some (w', h', added @ List.map_filter snd xs) \<and> heap_ok h' \<and> snd s' = [] \<and>
        lost D (skipped xs) D' \<and> idle w' s' D'"
  by (rule discover_run [OF assms])

text \<open>
  A stack whose devices answer with a name and with one supported service. Device 7 announces
  itself, and once more while its name is read.
\<close>

definition discovery_stack :: "unit bacnet_stack" where
  "discovery_stack = sample_stack\<lparr>bacapp_decode_application_data :=
     \<lambda>app n. (if hd app = 1 then TAG_CHARACTER_STRING ''Boiler_3'' else TAG_OTHER 8 [15])\<rparr>"

lemma discovery_stack_simps [simp]:
  "bacapp_decode_application_data discovery_stack app n =
     (if hd app = 1 then TAG_CHARACTER_STRING ''Boiler_3'' else TAG_OTHER 8 [15])"
  "address_match discovery_stack = (=)"
  "rp_ack_decode_service_request discovery_stack req = (int (length req), req)"
  "iam_decode_service_request discovery_stack [d] = (1, ucast d, 1476)"
  "address_bind_request discovery_stack x k = (if x = 7 then Some (1476, sample_address) else None, k)"
  "Send_Read_Property_Request discovery_stack x ty i pr ix k = (1, k)"
  "BACNET_MAX_INSTANCE discovery_stack = 4194303"
  "bitstring_bit discovery_stack (TAG_OTHER tag bits) b = (b \<in> set bits)"
  "SERVICE_SUPPORTED_READ_PROP_MULTIPLE discovery_stack = 14"
  "SERVICE_SUPPORTED_WRITE_PROPERTY discovery_stack = 15"
  "SERVICE_SUPPORTED_WRITE_PROP_MULTIPLE discovery_stack = 16"
  "datalink discovery_stack = BACDL_BIP"
  by (simp_all add: discovery_stack_def sample_stack_def simple_stack_def)

definition discovery_events :: "nat \<Rightarrow> event list" where
  "discovery_events n =
     (if n \<le> 1 then [Unconfirmed SERVICE_UNCONFIRMED_I_AM [7] sample_address] else []) @
     (if n = 0 then []
      else [Confirmed_Ack SERVICE_CONFIRMED_READ_PROPERTY [if odd n then 1 else 2] sample_address 1])"

definition discovery_envs :: "nat \<Rightarrow> call_env" where
  "discovery_envs n = sample_env (discovery_events n)"

lemma sample_idle: "idle sample_world ((), []) Map.empty"
  using sample_sim sample_quiet sample_alone(1) unfolding idle_def
  by (auto simp: sample_world_def intro!: exI [of _ sample_view])

lemma discovery_envs_ok: "env_ok ops t (discovery_envs n)"
  by (simp add: discovery_envs_def discovery_events_def sample_env_def env_ok_def env_wf_def replies_def
      List.map_filter_simps)

abbreviation boiler :: address_entry where
  "boiler \<equiv> new_entry (7, 1476, sample_address)"

lemma discovery_asks:
  "asks discovery_stack sample_handlers (discovery_envs n) 7 port pr ((), T) =
     (if n = 0 then None else Some (if odd n then TAG_CHARACTER_STRING ''Boiler_3'' else TAG_OTHER 8 [15]),
      (), if n \<le> 1 then table_add 7 1476 sample_address T else T)"
  by (simp add: asks_def call_spec_def bind_spec_def discovery_envs_def discovery_events_def sample_env_def
      read_answer_def first_reply_def replies_def List.map_filter_simps decode_ack_def)

lemma discovery_answers:
  "discover_spec discovery_stack sample_handlers path discovery_envs ((), []) =
   (let e = edgex_entry discovery_stack path boiler ''Boiler_3'' ''Boiler'' (TAG_OTHER 8 [15])
    in Some ([(boiler, Some e), (boiler, Some e)], (), []))"
proof -
  let ?e = "edgex_entry discovery_stack path boiler ''Boiler_3'' ''Boiler'' (TAG_OTHER 8 [15])"
  have b: "ae_device_id boiler = 7" by (simp add: new_entry_def)
  have add: "table_add 7 1476 sample_address [] = [boiler]" by (simp add: table_add_def)
  have answer: "discover_answer discovery_stack sample_handlers path (discovery_envs n) (discovery_envs (Suc n)) boiler ((), []) =
      Some (Some ?e, (), if n = 1 then [boiler] else [])" if "odd n" for n
    using that odd_pos [OF that]
    by (cases "n = 1") (simp_all add: discover_answer_def b discovery_asks strtok_first_def add)
  have "fold (announce discovery_stack sample_handlers) (reply_events (discovery_envs 0)) [] = [boiler]"
    by (simp add: discovery_envs_def discovery_events_def sample_env_def table_add_def)
  then show ?thesis
    by (simp add: discover_spec_def discover_answers.simps answer Let_def)
qed

lemma bacnet_discover_correct_witness:
  "let e = edgex_entry discovery_stack ''/dev/ttyUSB0'' boiler ''Boiler_3'' ''Boiler'' (TAG_OTHER 8 [15])
   in \<exists>w' h'. bacnet_discover discovery_stack sample_handlers ''/dev/ttyUSB0'' discovery_envs (sample_world, empty_heap, []) =
      Some (w', h', [e, e]) \<and> idle w' ((), []) Map.empty"
  using bacnet_discover_correct [where path = "''/dev/ttyUSB0''" and added = "[]" and env = discovery_envs and
      ops = discovery_stack and t = sample_handlers, OF sample_idle heap_ok_empty discovery_envs_ok]
  unfolding discovery_answers by (simp add: Let_def List.map_filter_simps) blast

text \<open>
  C7. A discovery run comes to an end, without undefined behaviour and with an empty table, if from some
  read on no device announces itself and every name that is read has a character besides
  underscores.
\<close>

theorem bacnet_discover_returns:
  assumes "idle w s D" and "heap_ok h" and "\<And>n. env_ok ops t (env n)" and "\<And>n. names_ok ops t (env n)"
    and "\<And>n. N \<le> n \<Longrightarrow> env_quiet (env n)"
  shows "\<exists>w' h' more k D'. bacnet_discover ops t path env (w, h, added) = Some (w', h', added @ more) \<and>
    heap_ok h' \<and> idle w' (k, []) D'"
proof -
  from discover_answers_end [where env = env and ops = ops and t = t, OF assms(4,5)] obtain xs k T where
    r: "discover_spec ops t path env s = Some (xs, k, T)" unfolding discover_spec_def by (metis not_None_eq prod_cases3)
  from discover_run [where path = path and added = added and env = env, OF assms(1-3)] show ?thesis unfolding r by (simp, blast)
qed

lemma bacnet_discover_returns_witness:
  "\<exists>w' h' more k D'. bacnet_discover discovery_stack sample_handlers '''' discovery_envs (sample_world, empty_heap, []) =
      Some (w', h', more) \<and> heap_ok h' \<and> idle w' (k, []) D'"
proof -
  have names: "names_ok discovery_stack sample_handlers (discovery_envs n)" for n
    by (auto simp: names_ok_def discovery_envs_def discovery_events_def sample_env_def first_reply_def replies_def
        List.map_filter_simps decode_ack_def strtok_first_def)
  have quiet: "2 \<le> n \<Longrightarrow> env_quiet (discovery_envs n)" for n
    by (simp add: env_quiet_def discovery_envs_def discovery_events_def sample_env_def)
  from bacnet_discover_returns [where path = "''''" and added = "[]", OF sample_idle heap_ok_empty discovery_envs_ok names quiet]
  show ?thesis by simp
qed

text \<open>
  C39. A device whose name is empty or has no character besides underscores, if it is the
  first one of the table, makes a discovery run undefined: there is no profile name to copy.
\<close>

theorem underscore_name_undefined:
  assumes "idle w (k, T) D" and "heap_ok h" and "\<And>n. env_ok ops t (env n)" and "datalink ops = BACDL_BIP"
    and "fold (announce ops t) (reply_events (env 0)) T = d # ds"
    and "asks ops t (env 1) (ae_device_id d) (entry_port d) (PROP_OBJECT_NAME ops) (whois_state ops k, ds) =
      (Some (TAG_CHARACTER_STRING x), s')" and "set x \<subseteq> {CHR ''_''}"
  shows "bacnet_discover ops t path env (w, h, added) = None"
proof -
  have "strtok_first CHR ''_'' x = None" using assms(7) by (simp add: strtok_first_None)
  then have "discover_spec ops t path env (k, T) = None"
    using assms(4-6) by (simp add: discover_spec_def discover_answers.simps discover_answer_def)
  with discover_run [where path = path and added = added and env = env, OF assms(1-3)] show ?thesis by simp
qed

lemma underscore_name_undefined_witness:
  "bacnet_discover (discovery_stack\<lparr>bacapp_decode_application_data := \<lambda>app n. TAG_CHARACTER_STRING ''__''\<rparr>)
     sample_handlers '''' discovery_envs (sample_world, empty_heap, []) = None"
proof -
  let ?ops = "discovery_stack\<lparr>bacapp_decode_application_data := \<lambda>app n. TAG_CHARACTER_STRING ''__''\<rparr>"
  have b: "ae_device_id boiler = 7" by (simp add: new_entry_def)
  show ?thesis
    by (rule underscore_name_undefined [where d = boiler and ds = "[]" and x = "''__''" and s' = "((), [boiler])",
        OF sample_idle heap_ok_empty discovery_envs_ok])
      (simp_all add: discovery_envs_def discovery_events_def sample_env_def table_add_def asks_def call_spec_def
        bind_spec_def read_answer_def first_reply_def replies_def List.map_filter_simps decode_ack_def b)
qed

text \<open>
  C29. The address discovery registers for a device is the one the driver computes when it later
  gets a command for it: the device number and the UDP port of the entry for BACnet/IP, unless the number is
  4294967295, and the path of the interface for BACnet/MSTP. The buffers the
  numbers are printed to are large enough for every value.
\<close>

theorem discovered_address_round_trip:
  assumes "address_wf (ae_address d)" and "ae_device_id d \<noteq> UINT32_MAX" and "device_port (ae_address d) = Some port"
  shows "\<exists>props. bacnet_protocol_populate dl path d Map.empty = Some props \<and>
    bacnet_getaddress dl (protocols(protocol_name dl \<mapsto> props)) None =
      (Some (case dl of
         BACDL_BIP \<Rightarrow> Ip_Address \<lparr>addr_port = port, addr_deviceInstance = ae_device_id d\<rparr>
       | BACDL_MSTP \<Rightarrow> Mstp_Path (Some path)), None)"
  using protocol_populate_ok [OF assms(1), of dl path Map.empty] assms(2,3)
  by (cases dl) (auto simp: bacnet_getaddress_def parseStringInt_def parse_u32 parse_u16 protocol_name_def
      entry_port_def)

lemma discovered_address_round_trip_witness:
  "\<exists>props. bacnet_protocol_populate BACDL_BIP ''/dev/ttyUSB0'' (new_entry (7, 1476, sample_address)) Map.empty = Some props \<and>
    bacnet_getaddress BACDL_BIP [''BACnet-IP'' \<mapsto> props] None =
      (Some (Ip_Address \<lparr>addr_port = 47808, addr_deviceInstance = 7\<rparr>), None)"
  using discovered_address_round_trip [of "new_entry (7, 1476, sample_address)" 47808 BACDL_BIP "''/dev/ttyUSB0''" Map.empty]
    sample_address_wf by (simp add: new_entry_def device_port_def sample_address_def protocol_name_def)

end
