(* ===== verification/IpLookup.thy ===== *)
theory IpLookup
  imports Discovered
begin

text \<open>
  \<open>ip_to_instance\<close>: the lookup of a device by its IP address, which fills the address map from
  the devices that answer a Who-Is.
\<close>

section \<open>What is stored\<close>

text \<open>The IP address of an entry of the local network, and the instance its last owner has.\<close>

definition ip_of :: "address_entry \<Rightarrow> string option" where
  "ip_of d = (if len (ae_address d) = 0
     then Some (print_ip (mac (ae_address d) ! 0) (mac (ae_address d) ! 1) (mac (ae_address d) ! 2) (mac (ae_address d) ! 3))
     else None)"

definition stored_mappings :: "address_entry list \<Rightarrow> address_instance list" where
  "stored_mappings ds = rev (List.map_filter
     (\<lambda>d. map_option (\<lambda>a. \<lparr>aim_address = Some a, aim_instance = ae_device_id d\<rparr>) (ip_of d)) ds)"

definition ip_keys :: "(ptr \<times> address_instance) list \<Rightarrow> bool" where
  "ip_keys r \<longleftrightarrow> (\<forall>(p, x) \<in> set r. \<exists>a b c d. aim_address x = Some (print_ip a b c d))"

lemma ip_keys_dec: "ip_keys r \<Longrightarrow> NULL \<notin> fst ` set r \<Longrightarrow> first_match (aim_is (print_dec n)) r = NULL"
  by (fastforce simp: first_match_NULL ip_keys_def print_ip_not_print_dec)

lemma store_address_ok:
  assumes "rep m ra" and "ip_keys ra" and "address_wf (ae_address d)"
  obtains m' ra' where "store_address d m = Some m'" and "rep m' ra'" and "ip_keys ra'"
    and "map snd ra' = stored_mappings [d] @ map snd ra"
proof (cases "len (ae_address d) = 0")
  case False
  with assms that [of m ra] show thesis
    by (simp add: store_address_def stored_mappings_def ip_of_def List.map_filter_simps)
next
  case True
  obtain m0 m1 m2 m3 ms where mac: "mac (ae_address d) = m0 # m1 # m2 # m3 # ms"
    using assms(3) by (auto simp: address_wf_def Suc_le_length_iff numeral_eq_Suc)
  have get: "address_instance_map_get (Some m) (print_dec (unat (ae_device_id d))) = Some (NULL, Some m)"
    using address_instance_map_get_spec [OF assms(1)] ip_keys_dec [OF assms(2) rep_not_NULL [OF assms(1)]] by simp
  let ?a = "print_ip m0 m1 m2 m3" let ?i = "print_dec (unat (ae_device_id d))"
  from address_instance_map_set_spec [OF assms(1), of ?a ?i] obtain p m' where
    m': "address_instance_map_set m ?a ?i = Some m'" "rep m' ((p, new_aim (?a, ?i)) # ra)" by metis
  have "store_address d m = Some m'"
    using True mac get m'(1) print_ip_length [of m0 m1 m2 m3] u32_length [of "ae_device_id d"]
    by (simp add: store_address_def IP_STRING_LENGTH_def)
  moreover have "ip_keys ((p, new_aim (?a, ?i)) # ra)" using assms(2) by (auto simp: ip_keys_def)
  moreover have "new_aim (?a, ?i) = \<lparr>aim_address = Some ?a, aim_instance = ae_device_id d\<rparr>"
    using stored_instance [of ?a "ae_device_id d"] by (simp add: new_aim_def)
  ultimately show thesis using that [of m' "(p, new_aim (?a, ?i)) # ra"] m'(2) True mac
    by (simp add: stored_mappings_def ip_of_def List.map_filter_simps)
qed

section \<open>The loop over the table\<close>

lemma table_head:
  assumes "rep at ((p, d) # rs)"
  obtains n where "deref (nodes at) p = Some n" and "link_next n = (case rs of [] \<Rightarrow> NULL | y # _ \<Rightarrow> fst y)"
    and "ll_get p at = Some d" and "first at = p" and "p \<noteq> NULL"
proof -
  from assms obtain n where n: "first at = p" "p \<noteq> NULL" "cells (nodes at) p = Some n" "node_data n = d"
    "dseg (nodes at) (link_next n) p rs NULL" by (auto simp: rep_def)
  moreover have "link_next n = (case rs of [] \<Rightarrow> NULL | y # _ \<Rightarrow> fst y)"
    using n(5) by (cases rs) auto
  ultimately show thesis using that by (simp add: deref_def ll_get_def)
qed

lemma first_of_rep: "rep at rs \<Longrightarrow> first at = (case rs of [] \<Rightarrow> NULL | y # _ \<Rightarrow> fst y)"
  by (cases rs) (auto simp: rep_def)

lemma store_addresses_ok:
  "rep at r \<Longrightarrow> table_wf (map snd r) \<Longrightarrow> rep m ra \<Longrightarrow> ip_keys ra \<Longrightarrow>
   \<exists>at' m' ra'. store_addresses (first at) at m = Some (at', m') \<and> rep at' [] \<and> rep m' ra' \<and> ip_keys ra' \<and>
     map snd ra' = stored_mappings (map snd r) @ map snd ra \<and>
     allocated (nodes at') = allocated (nodes at) - fst ` set r \<and>
     (\<forall>q. q \<notin> fst ` set r \<longrightarrow> ll_get q at' = ll_get q at)"
proof (induction r arbitrary: at m ra)
  case Nil
  then have "first at = NULL" using first_of_rep [OF Nil(1)] by simp
  then have "store_addresses (first at) at m = Some (at, m)" by (subst store_addresses.simps) simp
  with Nil show ?case by (auto simp: stored_mappings_def List.map_filter_simps)
next
  case (Cons y rs)
  obtain p d where y: "y = (p, d)" by fastforce
  have wf: "address_wf (ae_address d)" "table_wf (map snd rs)" using Cons.prems(2) y by (auto simp: table_wf_def)
  from table_head [of at p d rs] Cons.prems(1) y obtain n where
    n: "deref (nodes at) p = Some n" "link_next n = (case rs of [] \<Rightarrow> NULL | y # _ \<Rightarrow> fst y)"
      "ll_get p at = Some d" "first at = p" "p \<noteq> NULL" by metis
  from store_address_ok [OF Cons.prems(3,4) wf(1)] obtain m1 ra1 where
    m1: "store_address d m = Some m1" "rep m1 ra1" "ip_keys ra1" "map snd ra1 = stored_mappings [d] @ map snd ra"
    by blast
  have "first_match (entry_is (ae_device_id d)) (y # rs) = p" by (simp add: y)
  from address_entry_remove_found [OF Cons.prems(1) this n(5)] obtain at1 where
    at1: "address_entry_remove at (ae_device_id d) = Some at1" "rep at1 (AList.delete p (y # rs))"
      "allocated (nodes at1) = allocated (nodes at) - {p}"
    "\<forall>q. q \<noteq> p \<longrightarrow> ll_get q at1 = ll_get q at" by blast
  have "p \<notin> fst ` set rs" using rep_unlocked_distinct [OF Cons.prems(1)] y by auto
  then have r1: "rep at1 rs" using at1(2) y by (simp add: delete_keys)
  have tmp: "link_next n = first at1" using n(2) first_of_rep [OF r1] by simp
  have "store_addresses (first at) at m = store_addresses (first at1) at1 m1"
    using n m1(1) at1(1) tmp by (subst store_addresses.simps) simp
  with Cons.IH [OF r1 wf(2) m1(2,3)] m1(4) at1(3,4) y show ?case
    by (auto simp: stored_mappings_def List.map_filter_simps split: option.splits)
qed

lemma first_match_value:
  "NULL \<notin> fst ` set r \<Longrightarrow> distinct (map fst r) \<Longrightarrow>
   (if first_match P r = NULL then None else map_of r (first_match P r)) = find P (map snd r)"
proof (induction P r rule: first_match.induct)
  case (2 P a d r)
  then show ?case using first_match_present [of P r] by auto
qed simp

lemma get_after_store:
  assumes "rep m ra"
  obtains p where "address_instance_map_get (Some m) s = Some (p, Some m)"
    and "p = NULL \<longleftrightarrow> find (aim_is s) (map snd ra) = None"
    and "p \<noteq> NULL \<Longrightarrow> ll_get p m = find (aim_is s) (map snd ra)"
proof -
  let ?p = "first_match (aim_is s) ra"
  have v: "(if ?p = NULL then None else map_of ra ?p) = find (aim_is s) (map snd ra)"
    by (rule first_match_value [OF rep_not_NULL [OF assms] rep_unlocked_distinct [OF assms]])
  have "\<exists>x. map_of ra ?p = Some x \<and> ll_get ?p m = Some x" if "?p \<noteq> NULL"
    using first_match_Some [OF refl that rep_unlocked_distinct [OF assms]] rep_get [OF assms] by blast
  note x = this
  note get = address_instance_map_get_spec [OF assms, of s]
  show thesis
  proof (cases "?p = NULL")
    case True
    with v have "find (aim_is s) (map snd ra) = None" by (simp only: refl if_True)
    with True that [OF get] show thesis by (simp only: refl simp_thms)
  next
    case False
    from x [OF False] obtain y where y: "map_of ra ?p = Some y" "ll_get ?p m = Some y" by blast
    with v False have "find (aim_is s) (map snd ra) = Some y" by (simp only: if_False)
    with False that [OF get] y(2) show thesis by (simp only: simp_thms option.distinct)
  qed
qed

lemma find_append: "find P (xs @ ys) = (case find P xs of None \<Rightarrow> find P ys | Some x \<Rightarrow> Some x)"
  by (induction xs) auto

lemma stored_mappings_snoc: "stored_mappings (ds @ [d]) = stored_mappings [d] @ stored_mappings ds"
  by (simp add: stored_mappings_def map_filter_def)

lemma find_stored:
  "map_option aim_instance (find (aim_is s) (stored_mappings ds)) =
     (case filter (\<lambda>e. ip_of e = Some s) ds of [] \<Rightarrow> None | x # xs \<Rightarrow> Some (ae_device_id (last (x # xs))))"
proof (induction ds rule: rev_induct)
  case (snoc d ds)
  then show ?case
    by (auto simp: stored_mappings_snoc find_append stored_mappings_def [of "[d]"] List.map_filter_simps
        split: option.splits list.splits)
qed (simp add: stored_mappings_def List.map_filter_simps)

section \<open>Properties\<close>

text \<open>
  C30. Looking up an IP address that is not in the address map yet, while no call is pending. The
  table after a Who-Is is drained, and for each of its devices on the local network a mapping is
  put in front of the map, also for devices that have one already. The
  result is the instance of the device with that IP address, of the last one in the table if there
  are several, and 0 if there is none.
\<close>

theorem ip_to_instance_correct:
  assumes "idle w (k, T) D" and "list_all event_wf (reply_events env)"
    and "rep m ra" and "ip_keys ra" and "find (aim_is (print_ip a b c d)) (map snd ra) = None"
    and "devices = fold (announce ops t) (reply_events env) T"
  shows "\<exists>m' w' ra'. ip_to_instance ops t env False (print_ip a b c d) m w =
      Some (case filter (\<lambda>e. ip_of e = Some (print_ip a b c d)) devices of
              [] \<Rightarrow> 0 | ds \<Rightarrow> ae_device_id (last ds), m', w') \<and>
    idle w' (whois_state ops k, []) D \<and> rep m' ra' \<and> ip_keys ra' \<and>
    map snd ra' = stored_mappings devices @ map snd ra"
proof -
  let ?s = "print_ip a b c d"
  have g: "address_instance_map_get (Some m) ?s = Some (NULL, Some m)"
    using get_after_store [OF assms(3), of ?s] assms(5) by metis
  from idle_whois [OF assms(1,2), of ops t] obtain l w1 where
    w1: "bacnetWhoIs ops t env w = Some (Some l, w1)" "addressEntryHead w1 = Some l"
      "idle w1 (whois_state ops k, devices) D" unfolding assms(6) by blast
  from idle_list [OF w1(3)] w1(2) obtain r1 where
    r1: "rep l r1" "address_table r1" "map snd r1 = devices"
    and n: "allocated (nodes l) = fst ` set r1 \<union> dom D" "fst ` set r1 \<inter> dom D = {}"
      "\<forall>p d. D p = Some d \<longrightarrow> ll_get p l = Some d" by (metis option.inject)
  from store_addresses_ok [OF r1(1) address_table_wf [OF r1(2)] assms(3,4)] obtain l' m' ra' where
    st: "store_addresses (first l) l m = Some (l', m')" "rep l' []" "rep m' ra'" "ip_keys ra'"
      "map snd ra' = stored_mappings devices @ map snd ra"
    and l': "allocated (nodes l') = allocated (nodes l) - fst ` set r1"
      "\<forall>q. q \<notin> fst ` set r1 \<longrightarrow> ll_get q l' = ll_get q l" using r1(3) by auto
  from get_after_store [OF st(3), of ?s] obtain p where
    p: "address_instance_map_get (Some m') ?s = Some (p, Some m')"
      "p = NULL \<longleftrightarrow> find (aim_is ?s) (map snd ra') = None"
      "p \<noteq> NULL \<Longrightarrow> ll_get p m' = find (aim_is ?s) (map snd ra')" by blast
  have kept: "ll_get p l' = Some d" if "D p = Some d" for p d
    using that n(2,3) l'(2) domI [of D p d] by (metis disjoint_iff)
  have "table_nodes D (Some l')"
    unfolding table_nodes_def using st(2) l'(1) n(1,2) kept
    by (intro exI [of _ l'] exI [of _ "[]"]) (auto simp: address_table_def)
  from idle_table [OF w1(3) this st(2)]
  have after: "idle (w1\<lparr>addressEntryHead := Some l'\<rparr>) (whois_state ops k, []) D" by simp
  let ?f = "filter (\<lambda>e. ip_of e = Some ?s) devices"
  have "map_option aim_instance (find (aim_is ?s) (map snd ra')) =
      (case ?f of [] \<Rightarrow> None | x # xs \<Rightarrow> Some (ae_device_id (last (x # xs))))"
  proof -
    have "find (aim_is ?s) (map snd ra') = find (aim_is ?s) (stored_mappings devices)"
      unfolding st(5) find_append assms(5) by (cases "find (aim_is ?s) (stored_mappings devices)") (simp_all only: option.case)
    then show ?thesis by (simp only: find_stored)
  qed
  moreover have "ip_to_instance ops t env False ?s m w =
      Some (if p = NULL then 0 else aim_instance (the (find (aim_is ?s) (map snd ra'))), m', w1\<lparr>addressEntryHead := Some l'\<rparr>)"
    using g w1(1) st(1) p by (cases "p = NULL") (auto simp: ip_to_instance_def inet_pton4_print_ip)
  ultimately show ?thesis using after p(2) st(3-5)
    by (intro exI [of _ m'] exI [of _ "w1\<lparr>addressEntryHead := Some l'\<rparr>"] exI [of _ ra'])
      (auto split: list.splits)
qed

lemma ip_to_instance_correct_witness:
  "\<exists>m' w'. ip_to_instance sample_stack sample_handlers
      (sample_env [Unconfirmed SERVICE_UNCONFIRMED_I_AM [7] sample_address]) False (print_ip 10 0 0 7)
      address_instance_map_alloc sample_world = Some (7, m', w')"
  using ip_to_instance_correct [where ops = sample_stack and t = sample_handlers and ra = "[]" and
      env = "sample_env [Unconfirmed SERVICE_UNCONFIRMED_I_AM [7] sample_address]" and
      m = address_instance_map_alloc and a = 10 and b = 0 and c = 0 and d = 7, OF sample_idle]
  by (simp add: sample_env_def table_add_def ip_keys_def address_instance_map_alloc_def new_entry_def ip_of_def)
    (simp add: sample_address_def zero_address_def, blast)

end
