(* ===== verification/Service.thy ===== *)
theory Service
  imports Receive Attributes AddressInstanceMap
begin

text \<open>
  The life of the service: \<open>init_bacnet_driver\<close> and \<open>deinit_bacnet_driver\<close> of driver.c and
  \<open>bacnet_init\<close>, \<open>bacnet_stop\<close> and \<open>main\<close> of main.c. Configuration, environment variables and
  the files that exist are maps; \<open>main\<close> is the list of what it does, in order, with its exit code.
\<close>

section \<open>The driver object\<close>

text \<open>\<open>datalink_thread\<close>: the thread has been created and not been joined.\<close>

record bacnet_driver =
  aim_ll :: "address_instance_map_ll option"
  datalink_thread :: bool
  running_thread :: bool
  default_device_path :: "string option"

definition zero_driver :: bacnet_driver where
  "zero_driver = \<lparr>aim_ll = None, datalink_thread = False, running_thread = False, default_device_path = None\<rparr>"

text \<open>The state of the process besides the driver object: environment, handler tables, shared data.\<close>

record 'k process =
  driver :: bacnet_driver
  environ :: "string \<Rightarrow> string option"
  handlers :: apdu_handlers
  shared :: "'k world"

section \<open>Starting and stopping the stack\<close>

definition init_bacnet_driver :: "'k bacnet_stack \<Rightarrow> 'k process \<Rightarrow> int \<times> 'k process" where
  "init_bacnet_driver ops s =
     (let w = stack_call (Device_Init ops) (shared s);
          s = s\<lparr>handlers := init_service_handlers (handlers s)\<rparr>;
          w = stack_call (Device_Set_Object_Instance_Number ops (BACNET_MAX_INSTANCE ops)) w;
          w = stack_call (address_init ops) w;
          (r, k) = dlenv_init ops (stk w);
          w = w\<lparr>stk := k\<rparr>
      in if r \<noteq> 0 then (1, s\<lparr>shared := w\<rparr>)
         else let w = w\<lparr>deviceCondtionMapHead := Some device_condition_map_alloc\<rparr>;
                  w = w\<lparr>returnDataHead := Some return_data_alloc\<rparr>;
                  w = w\<lparr>addressEntryHead := Some address_entry_alloc\<rparr>
              in (0, s\<lparr>shared := w, driver := (driver s)\<lparr>datalink_thread := True\<rparr>\<rparr>))"

text \<open>
  What is left when the driver is gone: the nodes of the three lists that are still allocated, the
  values, and the stack. The globals are dangling pointers from here on.
\<close>

record 'k remains =
  entries_left :: "address_entry node heap"
  waits_left :: "device_condition node heap"
  calls_left :: "return_data node heap"
  values_left :: "value_cell heap"
  stack_left :: 'k

text \<open>
  \<open>in_hand\<close>: the datagram the thread may be working on when the flag is cleared. Joining a thread
  that was never created is undefined, and so is freeing a list that was never allocated.
\<close>

definition deinit_bacnet_driver ::
    "'k bacnet_stack \<Rightarrow> (bacnet_address \<Rightarrow> u8 list \<Rightarrow> event list) \<Rightarrow> (bacnet_address \<times> u8 list) option \<Rightarrow>
     'k process \<Rightarrow> (bacnet_driver \<times> 'k remains) option" where
  "deinit_bacnet_driver ops npdu in_hand s = do {
     let d = (driver s)\<lparr>running_thread := False\<rparr>;
     w \<leftarrow> (if datalink_thread d
           then receive_data ops (handlers s) npdu
                  ((case in_hand of None \<Rightarrow> [] | Some (src, pdu) \<Rightarrow> [(True, src, pdu)]) @
                   [(running_thread d, zero_address, [])]) (shared s)
           else None);
     let d = d\<lparr>datalink_thread := False\<rparr>;
     let w = stack_call (datalink_cleanup ops) w;
     entries \<leftarrow> addressEntryHead w;
     entries \<leftarrow> address_entry_free entries;
     conditions \<leftarrow> deviceCondtionMapHead w;
     conditions \<leftarrow> device_condition_map_free conditions;
     pending \<leftarrow> returnDataHead w;
     pending \<leftarrow> return_data_free pending;
     Some (d, \<lparr>entries_left = entries, waits_left = conditions, calls_left = pending,
              values_left = app_values w, stack_left = stk w\<rparr>)
   }"

section \<open>The callbacks\<close>

text \<open>\<open>setenv\<close> with overwriting.\<close>

definition setenv :: "string \<Rightarrow> string \<Rightarrow> 'k process \<Rightarrow> 'k process" where
  "setenv name v s = s\<lparr>environ := (environ s)(name \<mapsto> v)\<rparr>"

text \<open>
  The first step of \<open>bacnet_init\<close>: false when the serial device is not there. A configuration
  entry that is missing is read through NULL.
\<close>

definition configure ::
    "datalink \<Rightarrow> (string \<Rightarrow> bool) \<Rightarrow> (string \<Rightarrow> string option) \<Rightarrow> 'k process \<Rightarrow> (bool \<times> 'k process) option" where
  "configure dl exists config s =
     (case dl of
        BACDL_MSTP \<Rightarrow> do {
          path \<leftarrow> config ''DefaultDevicePath'';
          let s = s\<lparr>driver := (driver s)\<lparr>default_device_path := Some path\<rparr>\<rparr>;
          if \<not> exists path then Some (False, s)
          else Some (True, setenv ''BACNET_IFACE'' path s)
        }
      | BACDL_BIP \<Rightarrow> do {
          addr \<leftarrow> config ''BBMD_ADDRESS'';
          let s = (if addr \<noteq> [] then setenv ''BACNET_BBMD_ADDRESS'' addr s else s);
          port \<leftarrow> config ''BBMD_PORT'';
          let s = (if port \<noteq> [] then setenv ''BACNET_BBMD_PORT'' port s else s);
          Some (True, s)
        })"

definition bacnet_init ::
    "'k bacnet_stack \<Rightarrow> (string \<Rightarrow> bool) \<Rightarrow> (string \<Rightarrow> string option) \<Rightarrow> 'k process \<Rightarrow> (bool \<times> 'k process) option" where
  "bacnet_init ops exists config s = do {
     (ok, s) \<leftarrow> configure (datalink ops) exists config s;
     if \<not> ok then Some (False, s)
     else do {
       let s = s\<lparr>driver := (driver s)\<lparr>aim_ll := Some address_instance_map_alloc\<rparr>\<rparr>;
       let s = s\<lparr>driver := (driver s)\<lparr>running_thread := True\<rparr>\<rparr>;
       let (r, s) = init_bacnet_driver ops s;
       if r \<noteq> 0 then do {
         (d, _) \<leftarrow> deinit_bacnet_driver ops (\<lambda>_ _. []) None s;
         Some (False, s\<lparr>driver := d\<rparr>)
       }
       else Some (True, s)
     }
   }"

definition bacnet_stop ::
    "'k bacnet_stack \<Rightarrow> (bacnet_address \<Rightarrow> u8 list \<Rightarrow> event list) \<Rightarrow> (bacnet_address \<times> u8 list) option \<Rightarrow>
     'k process \<Rightarrow> (address_instance node heap \<times> bacnet_driver \<times> 'k remains) option" where
  "bacnet_stop ops npdu in_hand s = do {
     m \<leftarrow> aim_ll (driver s);
     h \<leftarrow> address_instance_map_free m;
     (d, left) \<leftarrow> deinit_bacnet_driver ops npdu in_hand s;
     Some (h, d, left)
   }"

definition bacnet_freeaddress :: "datalink \<Rightarrow> ptr \<Rightarrow> bacnet_address_t heap \<Rightarrow> bacnet_address_t heap option" where
  "bacnet_freeaddress dl address h = (case dl of BACDL_MSTP \<Rightarrow> Some h | BACDL_BIP \<Rightarrow> free h address)"

section \<open>The main program\<close>

text \<open>What the library calls of \<open>main\<close> return, where it looks at that.\<close>

record main_results =
  attr_init_result :: int
  getstacksize_result :: "int \<times> nat"
  setstacksize_result :: "nat \<Rightarrow> int"
  setattr_default_result :: int
  service_new_code :: int
  service_start_code :: int
  service_stop_code :: int

datatype main_action =
    Printed string
  | Attr_destroy
  | Default_stack_size nat
  | Service_new string
  | Error_reported int
  | Usage
  | Service_start "string \<Rightarrow> string option"
  | Sigint_awaited
  | Service_stop
  | Defaults_freed
  | Service_freed
  | Callbacks_freed
  | Impl_freed

definition SMALL_STACK :: nat where "SMALL_STACK = 100000"
definition DEFAULT_MSTP_PATH :: string where "DEFAULT_MSTP_PATH = ''/dev/ttyUSB0''"

definition default_configuration :: "datalink \<Rightarrow> string \<Rightarrow> string option" where
  "default_configuration dl =
     (case dl of
        BACDL_MSTP \<Rightarrow> [''DefaultDevicePath'' \<mapsto> DEFAULT_MSTP_PATH]
      | BACDL_BIP \<Rightarrow> [''BBMD_ADDRESS'' \<mapsto> [], ''BBMD_PORT'' \<mapsto> []])"

text \<open>The stack size of the threads created later: whether \<open>main\<close> goes on, and what it did.\<close>

definition enlarge_stack :: "main_results \<Rightarrow> nat \<Rightarrow> bool \<times> main_action list" where
  "enlarge_stack r ssize =
     (if ssize < SMALL_STACK then
        (let ssize = ssize * 2
         in if setstacksize_result r ssize \<noteq> 0
            then (False, [Printed ''Error setting stack size attribute'', Attr_destroy, Impl_freed])
            else if setattr_default_result r \<noteq> 0
            then (False, [Printed ''Error setting stack size attribute'', Attr_destroy, Impl_freed])
            else (True, [Default_stack_size ssize]))
      else (True, []))"

text \<open>The label \<open>exit\<close>.\<close>

definition main_exit :: "main_action list" where
  "main_exit = [Defaults_freed, Service_freed, Callbacks_freed, Impl_freed]"

text \<open>\<open>args\<close>: the arguments \<open>devsdk_service_new\<close> has left in \<open>argv\<close>, without the program's name.\<close>

definition main_service :: "datalink \<Rightarrow> main_results \<Rightarrow> string list \<Rightarrow> int \<times> main_action list" where
  "main_service dl r args =
     (let new = [Service_new (case dl of BACDL_MSTP \<Rightarrow> ''device-bacnet-mstp'' | BACDL_BIP \<Rightarrow> ''device-bacnet-ip'')]
      in if service_new_code r \<noteq> 0 then (service_new_code r, new @ [Error_reported (service_new_code r)])
         else case args of
             arg # _ \<Rightarrow>
               (if arg = ''-h'' \<or> arg = ''--help'' then (0, new @ [Usage] @ main_exit)
                else (0, new @ [Printed (''Unrecognized option '' @ arg)] @ main_exit))
           | [] \<Rightarrow>
               (let start = new @ [Service_start (default_configuration dl)]
                in if service_start_code r \<noteq> 0
                   then (service_start_code r, start @ [Error_reported (service_start_code r)])
                   else let stop = start @ [Sigint_awaited, Service_stop]
                        in if service_stop_code r \<noteq> 0
                           then (service_stop_code r, stop @ [Error_reported (service_stop_code r)])
                           else (0, stop @ main_exit)))"

definition main :: "datalink \<Rightarrow> main_results \<Rightarrow> string list \<Rightarrow> int \<times> main_action list" where
  "main dl r args =
     (if attr_init_result r \<noteq> 0 then (1, [Printed ''Error initializing thread attribute'', Impl_freed])
      else let (error, ssize) = getstacksize_result r
      in if error \<noteq> 0 then (1, [Printed ''Error getting stack size attribute'', Attr_destroy, Impl_freed])
      else let (go_on, acts) = enlarge_stack r ssize
      in if \<not> go_on then (1, acts)
      else let (code, rest) = main_service dl r args in (code, acts @ rest))"

end
