(* ===== verification/Working.thy ===== *)
theory Working
  imports Commands TableNodes
begin

text \<open>
  The service between start and stop, for any messages: a call leaves the lists well-formed and
  returns a value of its own, the loops of the commands come to an end, and a command gives back
  all memory of its requests and results, whatever the devices answer.
\<close>

section \<open>The value a read returns\<close>

text \<open>
  \<open>extends H h\<close>: the cells of \<open>H\<close> are as they were. \<open>own_value H p A\<close>: what the call \<open>p\<close> has been
  given, if anything, is a cell of its own that was not there in \<open>H\<close>.
\<close>

definition extends :: "value_cell heap \<Rightarrow> value_cell heap \<Rightarrow> bool" where
  "extends H h \<longleftrightarrow> heap_ok h \<and> (\<forall>x \<in> allocated H. cells h x = cells H x)"

definition new_value :: "value_cell heap \<Rightarrow> value_cell heap \<Rightarrow> ptr \<Rightarrow> bool" where
  "new_value H h q \<longleftrightarrow> q = NULL \<or>
     q \<notin> allocated H \<and> (\<exists>v. cells h q = Some \<lparr>value_next = NULL, value_data = v\<rparr>)"

definition own_value :: "value_cell heap \<Rightarrow> ptr \<Rightarrow> 'k view \<Rightarrow> bool" where
  "own_value H p A \<longleftrightarrow> extends H (vals A) \<and> new_value H (vals A) (value_of p A)"

lemma extends_refl: "heap_ok h \<Longrightarrow> extends h h"
  by (simp add: extends_def)

lemma extends_malloc:
  assumes "extends H h" and "malloc \<lparr>value_next = NULL, value_data = v\<rparr> h = (q, h')"
  shows "extends H h'" and "new_value H h' q" and "new_value H h x \<Longrightarrow> new_value H h' x"
proof -
  have ok: "heap_ok h" using assms(1) by (simp add: extends_def)
  note f = malloc_fresh [OF ok assms(2)]
  have "allocated H \<subseteq> allocated h" using assms(1) by (auto simp: extends_def allocated_def domIff)
  then have q: "q \<notin> allocated H" using f(2) by (auto simp: allocated_def)
  then show "extends H h'" using assms(1) f by (auto simp: extends_def)
  show "new_value H h' q" using f(3) q by (simp add: new_value_def)
  show "new_value H h x \<Longrightarrow> new_value H h' x" using f(2,3) by (auto simp: new_value_def)
qed

lemma own_value_cong:
  "vals B = vals A \<Longrightarrow> value_of p B = value_of p A \<Longrightarrow> own_value H p B = own_value H p A"
  by (simp add: own_value_def)

lemma own_value_upd_call:
  "(\<And>d. rd_value (f d) = rd_value d) \<Longrightarrow> own_value H p (upd_call q f A) = own_value H p A"
  by (rule own_value_cong) (simp_all add: value_of_upd_call del: upd_call_simps(1))

lemma own_value_read_ack:
  assumes "own_value H p A"
  shows "own_value H p (view_read_ack ops req src j A)"
proof -
  have given: "own_value H p ((upd_call c (\<lambda>d. d\<lparr>rd_value := q, rd_condition := True\<rparr>) A)\<lparr>vals := h\<rparr>)"
    if "malloc \<lparr>value_next = NULL, value_data = v\<rparr> (vals A) = (q, h)" for c q h v
  proof -
    have old: "extends H (vals A)" "new_value H (vals A) (value_of p A)"
      using assms by (simp_all add: own_value_def)
    note new = extends_malloc(1,2) [OF old(1) that] extends_malloc(3) [OF old(1) that old(2)]
    have "value_of p ((upd_call c (\<lambda>d. d\<lparr>rd_value := q, rd_condition := True\<rparr>) A)\<lparr>vals := h\<rparr>) \<in> {q, value_of p A}"
      by (cases "c = p") (auto simp: value_of_def map_of_map_entry_other split: option.splits)
    with new show ?thesis by (auto simp: own_value_def)
  qed
  have told: "own_value H p (upd_call c (rd_condition_update (\<lambda>_. True)) A)" for c
    using assms by (simp add: own_value_upd_call)
  show ?thesis
    using assms given told by (auto simp: view_read_ack_def split: option.splits prod.splits)
qed

lemma own_value_handle: "own_value H p A \<Longrightarrow> own_value H p (view_handle ops t e A)"
proof (cases e)
  case (Unconfirmed s req src)
  assume "own_value H p A"
  moreover have "own_value H p (view_i_am ops req src A) = own_value H p A"
    by (rule own_value_cong) (auto simp: view_i_am_def value_of_def split: prod.splits option.splits)
  ultimately show ?thesis using Unconfirmed by simp
qed (auto simp: own_value_read_ack view_write_ack_def view_failure_def own_value_upd_call)

lemma own_value_handle_all: "own_value H p A \<Longrightarrow> own_value H p (view_handle_all ops t es A)"
  by (induction es arbitrary: A) (simp_all add: own_value_handle)

lemma own_value_bind:
  assumes "own_value H p A"
  shows "own_value H p (snd (view_bind_request ops dev p' A))"
proof -
  have "own_value H p (A\<lparr>vstk := k\<rparr>)" for k
    using assms own_value_cong [of "A\<lparr>vstk := k\<rparr>" A p H] by (simp add: value_of_def)
  then show ?thesis
    by (auto simp: view_bind_request_def Let_def own_value_upd_call split: prod.splits option.splits)
qed

lemma own_value_whois_one:
  assumes "own_value H p A"
  shows "own_value H p (view_whois_one ops t es dev q A)"
proof -
  have same: "own_value H p (B\<lparr>waits := ws\<rparr>) = own_value H p B"
    "own_value H p (B\<lparr>waits := ws, vstk := k\<rparr>) = own_value H p B" for B :: "'a view" and ws k
    by (simp_all add: own_value_def value_of_def)
  show ?thesis using assms by (simp add: view_whois_one_def Let_def same own_value_handle_all)
qed

lemma own_value_find_and_bind:
  assumes "own_value H p A"
  shows "own_value H p (snd (view_find_and_bind ops t env p port dev q A))"
proof -
  have port: "own_value H p (view_set_port ops port A)"
    using assms own_value_cong [of "view_set_port ops port A" A p H]
    by (simp add: view_set_port_def value_of_def)
  have error: "own_value H p (view_error p B) = own_value H p B" for B :: "'a view"
    by (simp add: view_error_def own_value_upd_call)
  obtain f1 A1 where b1: "view_bind_request ops dev p (view_set_port ops port A) = (f1, A1)" by fastforce
  have A1: "own_value H p A1" using own_value_bind [OF port, of ops dev p] b1 by simp
  let ?A2 = "view_whois_one ops t (bind_events env) dev q A1"
  have A2: "own_value H p ?A2" by (rule own_value_whois_one [OF A1])
  obtain f3 A3 where b3: "view_bind_request ops dev p ?A2 = (f3, A3)" by fastforce
  have A3: "own_value H p A3" using own_value_bind [OF A2, of ops dev p] b3 by simp
  show ?thesis using assms A1 A2 A3 by (simp add: view_find_and_bind_def Let_def b1 b3 error)
qed

lemma own_value_await:
  assumes "own_value H p A"
  shows "own_value H p (view_await ops t es p ik A)"
proof -
  have "own_value H p ((upd_call p (rd_requestInvokeID_update (\<lambda>_. fst ik)) A)\<lparr>vstk := snd ik\<rparr>) =
      own_value H p (upd_call p (rd_requestInvokeID_update (\<lambda>_. fst ik)) A)"
    by (rule own_value_cong) (simp_all add: value_of_def)
  with assms show ?thesis
    unfolding view_await_def by (intro own_value_handle_all) (simp add: own_value_upd_call)
qed

lemma view_read_own:
  assumes "heap_ok (vals A)" and "view_read ops t env dev ty inst pr idx port p q A = (ret, C)"
  shows "extends (vals A) (vals C) \<and> new_value (vals A) (vals C) ret"
proof -
  have "value_of p (begin_call p A) = NULL" by (simp add: value_of_def)
  with assms(1) have b: "own_value (vals A) p (begin_call p A)"
    by (simp add: own_value_def extends_refl new_value_def)
  have [simp]: "vals (end_call p B) = vals B" for B :: "'a view" by (simp add: end_call_def)
  obtain f B where B: "view_find_and_bind ops t env p port dev q (begin_call p A) = (f, B)" by fastforce
  have o: "own_value (vals A) p B" using own_value_find_and_bind [OF b, of ops t env port dev q] B by simp
  note own_value_await [OF o, of ops t "reply_events env" "Send_Read_Property_Request ops dev ty inst pr idx (vstk B)"]
  with assms(2) B o show ?thesis
    by (auto simp: view_read_def own_value_def new_value_def Let_def split: if_splits)
qed

section \<open>Calls and commands come to an end\<close>

text \<open>The lists are well-formed, no mutex is held and every node of the three lists is on its list.\<close>

definition healthy :: "'k world \<Rightarrow> bool" where
  "healthy w \<longleftrightarrow> (\<exists>A. sim w A \<and> quiet A) \<and> tidy_table w"

lemma healthy_values: "healthy w \<Longrightarrow> heap_ok (app_values w)"
  by (auto simp: healthy_def dest: sim_app_values)

lemma healthy_set_values:
  assumes "healthy w" and "heap_ok h"
  shows "healthy (w\<lparr>app_values := h\<rparr>)"
proof -
  from assms(1) obtain A where A: "sim w A" "quiet A" "tidy_table w" by (auto simp: healthy_def)
  have "quiet (A\<lparr>vals := h\<rparr>)" using A(2) by (simp add: quiet_def)
  with sim_vals [OF A(1) assms(2)] A(3) show ?thesis by (auto simp: healthy_def)
qed

lemma handle_all_healthy:
  assumes "healthy w" and "list_all event_wf es"
  shows "\<exists>w'. handle_all ops t es w = Some w' \<and> healthy w'"
proof -
  from assms(1) obtain A where A: "sim w A" "quiet A" "tidy_table w" by (auto simp: healthy_def)
  from handle_all_sim [OF A(1,2) assms(2), of ops t] handle_all_nodes [OF _ assms(2), of ops t w] A(3)
  show ?thesis by (auto simp: healthy_def)
qed

lemma read_healthy:
  assumes "healthy w" and "env_wf env"
  shows "\<exists>ret w'. bacnetReadProperty ops t env dev ty inst pr idx port w = Some (ret, w') \<and> healthy w' \<and>
    extends (app_values w) (app_values w') \<and> new_value (app_values w) (app_values w') ret"
proof -
  from assms(1) obtain A where A: "sim w A" "quiet A" "tidy_table w" by (auto simp: healthy_def)
  have wf: "list_all event_wf (bind_events env)" "list_all event_wf (reply_events env)"
    using assms(2) by (simp_all add: env_wf_def)
  from read_sim [OF A(1,2) wf, of ops t dev ty inst pr idx port] obtain p q w' where
    r: "bacnetReadProperty ops t env dev ty inst pr idx port w =
        Some (fst (view_read ops t env dev ty inst pr idx port p q A), w')"
      "sim w' (snd (view_read ops t env dev ty inst pr idx port p q A))"
      "quiet (snd (view_read ops t env dev ty inst pr idx port p q A))" by blast
  obtain ret C where C: "view_read ops t env dev ty inst pr idx port p q A = (ret, C)" by fastforce
  have "tidy_table w'" using read_nodes [OF r(1) assms(2)] A(3) by simp
  with r C have "bacnetReadProperty ops t env dev ty inst pr idx port w = Some (ret, w')" "healthy w'"
    by (auto simp: healthy_def)
  moreover have "vals A = app_values w" "vals C = app_values w'" "heap_ok (vals A)"
    using sim_app_values [OF A(1)] sim_app_values [OF r(2)] C by simp_all
  ultimately show ?thesis using view_read_own [OF _ C] by simp
qed

lemma write_healthy:
  assumes "healthy w" and "env_wf env"
  shows "\<exists>ret w'. bacnetWriteProperty ops t env dev ty inst pr idx port prio v w = Some (ret, w') \<and> healthy w'"
proof -
  from assms(1) obtain A where A: "sim w A" "quiet A" "tidy_table w" by (auto simp: healthy_def)
  have wf: "list_all event_wf (bind_events env)" "list_all event_wf (reply_events env)"
    using assms(2) by (simp_all add: env_wf_def)
  from write_sim [OF A(1,2) wf, of ops t dev ty inst pr idx port prio v] obtain p q w' where
    r: "bacnetWriteProperty ops t env dev ty inst pr idx port prio v w =
        Some (fst (view_write ops t env dev ty inst pr idx port prio v p q A), w')"
      "sim w' (snd (view_write ops t env dev ty inst pr idx port prio v p q A))"
      "quiet (snd (view_write ops t env dev ty inst pr idx port prio v p q A))" by blast
  with write_nodes [OF r(1) assms(2)] A(3) show ?thesis by (auto simp: healthy_def)
qed

text \<open>The list of results: at most \<open>n\<close> cells.\<close>

definition results_list :: "value_cell heap \<Rightarrow> ptr \<Rightarrow> nat \<Rightarrow> bool" where
  "results_list h p n \<longleftrightarrow> heap_ok h \<and>
     (\<exists>r. sseg value_next value_data h p r \<and> distinct (map fst r) \<and> length r \<le> n)"

lemma results_list_mono: "results_list h p n \<Longrightarrow> n \<le> m \<Longrightarrow> results_list h p m"
  by (auto simp: results_list_def intro: order_trans)

lemma results_list_extends:
  assumes "results_list H p n" and "extends H h"
  shows "results_list h p n"
proof -
  from assms(1) obtain r where r: "sseg value_next value_data H p r" "distinct (map fst r)" "length r \<le> n"
    by (auto simp: results_list_def)
  have "sseg value_next value_data h p r = sseg value_next value_data H p r"
    using assms(2) sseg_allocated [OF r(1)] by (intro sseg_frame) (auto simp: extends_def)
  with r assms(2) show ?thesis by (auto simp: results_list_def extends_def)
qed

lemma results_list_add:
  assumes "results_list H p n" and "extends H h" and "new_value H h q" and "q \<noteq> NULL"
  shows "\<exists>p' h'. bacnet_read_application_data_value_add p q h = Some (p', h') \<and> heap_ok h' \<and>
    results_list h' p' (Suc n)"
proof -
  from assms(1) obtain r where r: "sseg value_next value_data H p r" "distinct (map fst r)" "length r \<le> n"
    by (auto simp: results_list_def)
  have ok: "heap_ok h" using assms(2) by (simp add: extends_def)
  have seg: "sseg value_next value_data h p r"
    using assms(2) sseg_allocated [OF r(1)] r(1) sseg_frame [of r h H value_next value_data p]
    by (auto simp: extends_def)
  from assms(3,4) obtain v where v: "cells h q = Some \<lparr>value_next = NULL, value_data = v\<rparr>" "q \<notin> allocated H"
    by (auto simp: new_value_def)
  have "q \<notin> fst ` set r" using sseg_allocated [OF r(1)] v(2) by auto
  from value_append [OF ok seg r(2) v(1) this] obtain p' h' where
    "bacnet_read_application_data_value_add p q h = Some (p', h')" "heap_ok h'"
    "sseg value_next value_data h' p' (r @ [(q, v)])" by blast
  with r \<open>q \<notin> fst ` set r\<close> show ?thesis
    by (auto simp: results_list_def intro!: exI [of _ "r @ [(q, v)]"])
qed

text \<open>A list of requests whose properties are all there.\<close>

definition request_list :: "'q access_store \<Rightarrow> ptr \<Rightarrow> (ptr \<times> u32 \<times> u32 \<times> ptr) list \<Rightarrow> bool" where
  "request_list st c r \<longleftrightarrow> sseg access_next access_data (access_cells st) c r \<and> heap_ok (properties st) \<and>
     (\<forall>x \<in> set r. cells (properties st) (prop_ptr x) \<noteq> None)"

lemma request_list_Cons:
  assumes "request_list st c (x # r)"
  obtains d y where "c \<noteq> NULL" and "deref (access_cells st) c = Some d"
    and "deref (properties st) (listOfProperties d) = Some y" and "request_list st (access_next d) r"
proof -
  obtain b ty inst q where x: "x = (b, ty, inst, q)" by (metis prod_cases4)
  with assms obtain d where d: "cells (access_cells st) b = Some d" "c = b" "b \<noteq> NULL"
    "listOfProperties d = q" "sseg access_next access_data (access_cells st) (access_next d) r"
    by (auto simp: request_list_def access_data_eq split: option.splits)
  moreover obtain y where "cells (properties st) q = Some y" using assms x by (auto simp: request_list_def)
  then have "deref (properties st) q = Some y" using assms by (simp add: request_list_def deref_Some_iff)
  ultimately show thesis using that [of d y] assms by (simp add: deref_def request_list_def)
qed

lemma holds_request_list:
  assumes "holds st0 st head xs"
  obtains r where "request_list st head r" and "length r = length xs"
proof -
  from assms obtain r where r: "sseg access_next access_data (access_cells st) head r" "heap_ok (properties st)"
    "map (\<lambda>(p, t, i, q). (t, i, cells (properties st) q)) r = map (\<lambda>(t, i, x). (t, i, Some x)) xs"
    unfolding holds_def by blast
  have "cells (properties st) (prop_ptr x) \<noteq> None" if "x \<in> set r" for x
  proof -
    from that have "(\<lambda>(p, t, i, q). (t, i, cells (properties st) q)) x \<in>
        set (map (\<lambda>(t, i, x). (t, i, Some x)) xs)" unfolding r(3) [symmetric] by simp
    then show ?thesis by (auto split: prod.splits)
  qed
  with r(1,2) have "request_list st head r" by (simp add: request_list_def)
  moreover have "length r = length xs" using arg_cong [OF r(3), of length] by simp
  ultimately show thesis by (rule that)
qed

lemma get_loop_returns:
  assumes env: "\<And>n. env_wf (env n)"
  shows "request_list st c r \<Longrightarrow> healthy w \<Longrightarrow> results_list (app_values w) p m \<Longrightarrow>
    \<exists>ok p' w'. get_loop ops t env (Ip_Address addr) st n c p w = Some (ok, p', w') \<and> healthy w' \<and>
      results_list (app_values w') p' (m + length r)"
proof (induction r arbitrary: c w p m n)
  case Nil
  then show ?case by (subst get_loop.simps) (auto simp: request_list_def)
next
  case (Cons x r)
  from request_list_Cons [OF Cons.prems(1)] obtain d y where
    d: "c \<noteq> NULL" "deref (access_cells st) c = Some d" "deref (properties st) (listOfProperties d) = Some y"
    and rest: "request_list st (access_next d) r" .
  from read_healthy [OF Cons.prems(2) env [of n], of ops t "addr_deviceInstance addr" "object_type d" "object_instance d"
      "propertyIdentifier y" "propertyArrayIndex y" "addr_port addr"] obtain ret w1 where
    read: "bacnetReadProperty ops t (env n) (addr_deviceInstance addr) (object_type d) (object_instance d)
      (propertyIdentifier y) (propertyArrayIndex y) (addr_port addr) w = Some (ret, w1)"
    and w1: "healthy w1" "extends (app_values w) (app_values w1)" "new_value (app_values w) (app_values w1) ret"
    by blast
  show ?case
  proof (cases "ret = NULL")
    case True
    have "get_loop ops t env (Ip_Address addr) st n c p w = Some (False, p, w1)"
      using d read True by (subst get_loop.simps) (simp add: print_read_error_def)
    moreover have "results_list (app_values w1) p (m + length (x # r))"
      using results_list_mono [OF results_list_extends [OF Cons.prems(3) w1(2)]] by simp
    ultimately show ?thesis using w1(1) by blast
  next
    case False
    from results_list_add [OF Cons.prems(3) w1(2,3) False] obtain p1 h where
      add: "bacnet_read_application_data_value_add p ret (app_values w1) = Some (p1, h)" "heap_ok h"
      "results_list h p1 (Suc m)" by blast
    have w2: "healthy (w1\<lparr>app_values := h\<rparr>)" by (rule healthy_set_values [OF w1(1) add(2)])
    have "results_list (app_values (w1\<lparr>app_values := h\<rparr>)) p1 (Suc m)" using add(3) by simp
    from Cons.IH [OF rest w2 this, of "Suc n"] obtain ok p' w' where
      loop: "get_loop ops t env (Ip_Address addr) st (Suc n) (access_next d) p1 (w1\<lparr>app_values := h\<rparr>) = Some (ok, p', w')"
      "healthy w'" "results_list (app_values w') p' (Suc m + length r)" by blast
    have "get_loop ops t env (Ip_Address addr) st n c p w = Some (ok, p', w')"
      using d read False add(1) loop(1) by (subst get_loop.simps) simp
    with loop(2,3) show ?thesis by simp
  qed
qed

lemma put_loop_returns:
  assumes env: "\<And>n. env_wf (env n)"
  shows "request_list st c r \<Longrightarrow> healthy w \<Longrightarrow>
    \<exists>e w'. put_loop ops t env (Ip_Address addr) st n c w = Some (e, w') \<and> healthy w'"
proof (induction r arbitrary: c w n)
  case Nil
  then show ?case by (subst put_loop.simps) (auto simp: request_list_def)
next
  case (Cons x r)
  from request_list_Cons [OF Cons.prems(1)] obtain d y where
    d: "c \<noteq> NULL" "deref (access_cells st) c = Some d" "deref (properties st) (listOfProperties d) = Some y"
    and rest: "request_list st (access_next d) r" .
  from write_healthy [OF Cons.prems(2) env [of n], of ops t "addr_deviceInstance addr" "object_type d" "object_instance d"
      "propertyIdentifier y" "propertyArrayIndex y" "addr_port addr" "pv_priority y" "pv_value y"] obtain e w1 where
    wr: "bacnetWriteProperty ops t (env n) (addr_deviceInstance addr) (object_type d) (object_instance d)
      (propertyIdentifier y) (propertyArrayIndex y) (addr_port addr) (pv_priority y) (pv_value y) w = Some (e, w1)"
    and w1: "healthy w1" by blast
  from Cons.IH [OF rest w1, of "Suc n"] obtain e' w' where
    loop: "put_loop ops t env (Ip_Address addr) st (Suc n) (access_next d) w1 = Some (e', w')" "healthy w'" by blast
  have "put_loop ops t env (Ip_Address addr) st n c w = (if e \<noteq> 0 then Some (e, w1) else Some (e', w'))"
    using d wr loop(1) by (subst put_loop.simps) simp
  with w1 loop(2) show ?case by auto
qed

lemma get_healthy:
  assumes "healthy w" and "\<And>n. env_wf (env n)" and "heap_ok (access_cells st)" and "heap_ok (properties st)"
    and "length readings = length requests"
  shows "\<exists>res st' w'. bacnet_get_handler ops t env (Ip_Address addr) requests readings st w = Some (res, st', w') \<and>
    same_store st st' \<and> healthy w'"
proof -
  from read_populate_spec [OF holds_Nil [OF assms(3,4)], of requests] obtain head st1 where
    pop: "read_access_data_populate NULL requests st = Some (True, head, st1)"
    and holds: "holds st st1 head (map read_item requests)" by auto
  from holds_request_list [OF holds] obtain r where r: "request_list st1 head r" "length r = length requests"
    by auto
  have "results_list (app_values w) NULL 0" using healthy_values [OF assms(1)] by (simp add: results_list_def)
  from get_loop_returns [where env = env and ops = ops and t = t and addr = addr and n = 0, OF assms(2) r(1) assms(1) this] obtain ok p w1 where
    loop: "get_loop ops t env (Ip_Address addr) st1 0 head NULL w = Some (ok, p, w1)" "healthy w1"
    "results_list (app_values w1) p (length requests)" using r(2) by auto
  from holds_free [OF holds] obtain st2 where
    fr: "read_access_data_free head st1 = Some st2" "same_store st st2" by blast
  from loop(3) obtain rs where rs: "sseg value_next value_data (app_values w1) p rs" "distinct (map fst rs)"
    "length rs \<le> length requests" "heap_ok (app_values w1)" by (auto simp: results_list_def)
  from commandresult_loop_spec [OF rs(1,2,4), of "length requests" 0 readings] rs(3) assms(5) obtain rd h where
    h: "devsdk_commandresult_populate readings p (length requests) (app_values w1) = Some (rd, h)" "heap_ok h"
    by (auto simp: devsdk_commandresult_populate_def)
  have "healthy (w1\<lparr>app_values := h\<rparr>)" by (rule healthy_set_values [OF loop(2) h(2)])
  with pop loop(1) fr h(1) show ?thesis by (auto simp: bacnet_get_handler_def)
qed

lemma put_healthy:
  assumes "healthy w" and "\<And>n. env_wf (env n)" and "heap_ok (access_cells st)" and "heap_ok (properties st)"
  shows "\<exists>res st' w'. bacnet_put_handler ops t env (Ip_Address addr) requests st w = Some (res, st', w') \<and>
    same_store st st' \<and> healthy w'"
proof (cases "write_items ops requests")
  case None
  with write_populate_spec [OF holds_Nil [OF assms(3,4)], of ops requests] assms(1) show ?thesis
    by (auto simp: bacnet_put_handler_def)
next
  case (Some items)
  with write_populate_spec [OF holds_Nil [OF assms(3,4)], of ops requests] obtain head st1 where
    pop: "write_access_data_populate ops NULL requests st = Some (True, head, st1)"
    and holds: "holds st st1 head (rev items)" by auto
  from holds_request_list [OF holds] obtain r where r: "request_list st1 head r" by auto
  from put_loop_returns [where env = env and ops = ops and t = t and addr = addr and n = 0, OF assms(2) r assms(1)] obtain e w1 where
    loop: "put_loop ops t env (Ip_Address addr) st1 0 head w = Some (e, w1)" "healthy w1" by blast
  from holds_free [OF holds] obtain st2 where
    fr: "write_access_data_free head st1 = Some st2" "same_store st st2" unfolding write_free_eq by blast
  from pop loop fr show ?thesis by (auto simp: bacnet_put_handler_def)
qed

section \<open>A service at work\<close>

text \<open>
  What happens between start and stop: the receive thread handles datagrams, a get command or a put
  command runs to its end. The state is the memory of the requests of either command, and
  the shared lists.
\<close>

datatype activity =
    Datagrams "(bool \<times> bacnet_address \<times> u8 list) list"
  | Get_Command bacnet_address_t "bacnet_attributes_t list" "iot_data option list" "nat \<Rightarrow> call_env"
  | Put_Command bacnet_address_t "(bacnet_attributes_t \<times> iot_data) list" "nat \<Rightarrow> call_env"

type_synonym 'k at_work = "property_reference access_store \<times> property_value access_store \<times> 'k world"

fun work :: "'k bacnet_stack \<Rightarrow> apdu_handlers \<Rightarrow> (bacnet_address \<Rightarrow> u8 list \<Rightarrow> event list) \<Rightarrow> activity \<Rightarrow>
    'k at_work \<Rightarrow> 'k at_work option" where
  "work ops t npdu (Datagrams rounds) (rs, ws, w) = do {
     w \<leftarrow> receive_data ops t npdu rounds w;
     Some (rs, ws, w)
   }"
| "work ops t npdu (Get_Command addr requests readings env) (rs, ws, w) = do {
     (_, rs, w) \<leftarrow> bacnet_get_handler ops t env (Ip_Address addr) requests readings rs w;
     Some (rs, ws, w)
   }"
| "work ops t npdu (Put_Command addr requests env) (rs, ws, w) = do {
     (_, ws, w) \<leftarrow> bacnet_put_handler ops t env (Ip_Address addr) requests ws w;
     Some (rs, ws, w)
   }"

fun work_all :: "'k bacnet_stack \<Rightarrow> apdu_handlers \<Rightarrow> (bacnet_address \<Rightarrow> u8 list \<Rightarrow> event list) \<Rightarrow>
    activity list \<Rightarrow> 'k at_work \<Rightarrow> 'k at_work option" where
  "work_all ops t npdu [] s = Some s"
| "work_all ops t npdu (a # as) s = do { s \<leftarrow> work ops t npdu a s; work_all ops t npdu as s }"

text \<open>The SDK has room for one reading per request, and messages carry addresses.\<close>

fun activity_wf :: "activity \<Rightarrow> bool" where
  "activity_wf (Datagrams rounds) = True"
| "activity_wf (Get_Command addr requests readings env) =
     (length readings = length requests \<and> (\<forall>n. env_wf (env n)))"
| "activity_wf (Put_Command addr requests env) = (\<forall>n. env_wf (env n))"

lemma receive_data_healthy:
  assumes "\<And>src pdu. list_all event_wf (npdu src pdu)"
  shows "healthy w \<Longrightarrow> \<exists>w'. receive_data ops t npdu rounds w = Some w' \<and> healthy w'"
proof (induction rounds arbitrary: w)
  case (Cons x rounds)
  obtain running src pdu where x: "x = (running, src, pdu)" by (metis prod_cases3)
  from handle_all_healthy [OF Cons.prems, of "npdu src pdu" ops t] assms obtain w1 where
    "handle_all ops t (npdu src pdu) w = Some w1" "healthy w1" by blast
  with Cons x show ?case by auto
qed simp

lemma same_store_trans: "same_store st st' \<Longrightarrow> same_store st' st'' \<Longrightarrow> same_store st st''"
  by (simp add: same_store_def)

lemma work_healthy:
  assumes "\<And>src pdu. list_all event_wf (npdu src pdu)" and "activity_wf a"
    and "healthy w" and "same_store rs0 rs" and "same_store ws0 ws"
  shows "\<exists>rs' ws' w'. work ops t npdu a (rs, ws, w) = Some (rs', ws', w') \<and> healthy w' \<and>
    same_store rs0 rs' \<and> same_store ws0 ws'"
proof (cases a)
  case (Datagrams rounds)
  with receive_data_healthy [where npdu = npdu and rounds = rounds and ops = ops and t = t, OF assms(1,3)] assms(4,5)
  show ?thesis by auto
next
  case (Get_Command addr requests readings env)
  with assms(2) have env: "env_wf (env n)" and len: "length readings = length requests" for n by simp_all
  have ok: "heap_ok (access_cells rs)" "heap_ok (properties rs)" using assms(4) by (simp_all add: same_store_def)
  from get_healthy [where env = env and addr = addr and ops = ops and t = t, OF assms(3) env ok len]
  obtain res rs' w' where
    "bacnet_get_handler ops t env (Ip_Address addr) requests readings rs w = Some (res, rs', w')"
    "same_store rs rs'" "healthy w'" by blast
  with Get_Command assms(5) same_store_trans [OF assms(4)] show ?thesis by auto
next
  case (Put_Command addr requests env)
  with assms(2) have env: "env_wf (env n)" for n by simp
  have ok: "heap_ok (access_cells ws)" "heap_ok (properties ws)" using assms(5) by (simp_all add: same_store_def)
  from put_healthy [where env = env and addr = addr and ops = ops and t = t and requests = requests,
      OF assms(3) env ok] obtain res ws' w' where
    "bacnet_put_handler ops t env (Ip_Address addr) requests ws w = Some (res, ws', w')"
    "same_store ws ws'" "healthy w'" by blast
  with Put_Command assms(4) same_store_trans [OF assms(5)] show ?thesis by auto
qed

lemma work_all_healthy:
  assumes "\<And>src pdu. list_all event_wf (npdu src pdu)"
  shows "list_all activity_wf as \<Longrightarrow> healthy w \<Longrightarrow> same_store rs0 rs \<Longrightarrow> same_store ws0 ws \<Longrightarrow>
    \<exists>rs' ws' w'. work_all ops t npdu as (rs, ws, w) = Some (rs', ws', w') \<and> healthy w' \<and>
      same_store rs0 rs' \<and> same_store ws0 ws'"
proof (induction as arbitrary: rs ws w)
  case (Cons a as)
  from Cons.prems(1) have "activity_wf a" by simp
  from work_healthy [where npdu = npdu and ops = ops and t = t, OF assms this Cons.prems(2-4)] obtain rs1 ws1 w1 where
    "work ops t npdu a (rs, ws, w) = Some (rs1, ws1, w1)" "healthy w1" "same_store rs0 rs1" "same_store ws0 ws1"
    by blast
  with Cons.IH [of w1 rs1 ws1] Cons.prems(1) show ?case by simp
qed simp

end
