(* ===== verification/Lifecycle.thy ===== *)
theory Lifecycle
  imports Service Working
begin

text \<open>
  The properties of the service's life: what starting it sets up, that a failed start is
  undefined, that a service leaves nothing behind when it is stopped, whatever commands and
  messages came before, and how \<open>main\<close> ends.
\<close>

section \<open>While nothing is pending\<close>









section \<open>Starting and stopping\<close>


lemma stack_call_lists [simp]:
  "returnDataHead (stack_call f w) = returnDataHead w"
  "deviceCondtionMapHead (stack_call f w) = deviceCondtionMapHead w"
  "app_values (stack_call f w) = app_values w"
  by (simp_all add: stack_call_def)


definition configured_environ ::
    "datalink \<Rightarrow> (string \<Rightarrow> string option) \<Rightarrow> (string \<Rightarrow> string option) \<Rightarrow> string \<Rightarrow> string option" where
  "configured_environ dl config env =
     (case dl of
        BACDL_MSTP \<Rightarrow> env(''BACNET_IFACE'' := config ''DefaultDevicePath'')
      | BACDL_BIP \<Rightarrow>
          (\<lambda>n. if n = ''BACNET_BBMD_ADDRESS'' \<and> config ''BBMD_ADDRESS'' \<noteq> Some [] then config ''BBMD_ADDRESS''
               else if n = ''BACNET_BBMD_PORT'' \<and> config ''BBMD_PORT'' \<noteq> Some [] then config ''BBMD_PORT''
               else env n))"

text \<open>The configuration has at least the entries \<open>main\<close> gives defaults for, and the device file is there.\<close>

definition usable :: "datalink \<Rightarrow> (string \<Rightarrow> bool) \<Rightarrow> (string \<Rightarrow> string option) \<Rightarrow> bool" where
  "usable dl exists config \<longleftrightarrow> dom (default_configuration dl) \<subseteq> dom config \<and>
     (dl = BACDL_MSTP \<longrightarrow> exists (the (config ''DefaultDevicePath'')))"

lemma configure_usable:
  assumes "usable dl exists config"
  obtains s' where "configure dl exists config s = Some (True, s')"
    and "environ s' = configured_environ dl config (environ s)"
    and "handlers s' = handlers s" and "shared s' = shared s"
    and "datalink_thread (driver s') = datalink_thread (driver s)"
proof (cases dl)
  case BACDL_MSTP
  with assms obtain path where "config ''DefaultDevicePath'' = Some path" "exists path"
    by (auto simp: usable_def default_configuration_def)
  with BACDL_MSTP that show thesis by (simp add: configure_def setenv_def configured_environ_def)
next
  case BACDL_BIP
  with assms obtain addr port where "config ''BBMD_ADDRESS'' = Some addr" "config ''BBMD_PORT'' = Some port"
    by (auto simp: usable_def default_configuration_def)
  with BACDL_BIP that show thesis
    by (auto simp: configure_def setenv_def configured_environ_def Let_def fun_eq_iff split: if_splits)
qed

definition started_stack :: "'k bacnet_stack \<Rightarrow> 'k \<Rightarrow> int \<times> 'k" where
  "started_stack ops k = dlenv_init ops (address_init ops
     (Device_Set_Object_Instance_Number ops (BACNET_MAX_INSTANCE ops) (Device_Init ops k)))"


section \<open>Properties\<close>


definition sample_process :: "unit process" where
  "sample_process = \<lparr>driver = zero_driver, environ = Map.empty,
     handlers = \<lparr>unrecognized_service_handler = None, unconfirmed_handler = \<lambda>_. None, confirmed_handler = \<lambda>_. None,
       confirmed_ack_handler = \<lambda>_. None, confirmed_simple_ack_handler = \<lambda>_. None,
       error_handler = \<lambda>_. None, abort_handler = None, reject_handler = None\<rparr>,
     shared = \<lparr>returnDataHead = None, deviceCondtionMapHead = None, addressEntryHead = None,
       app_values = empty_heap, stk = ()\<rparr>\<rparr>"





text \<open>
  C21. A start that fails. In the build for BACnet/MSTP a device file that does not exist is
  reported before anything has been set up, and only the path is remembered. When the data link
  does not come up, the driver that was never set up is torn down: a thread that was never
  created is joined and lists that were never allocated are freed, which is undefined.
\<close>

theorem bacnet_init_failures:
  assumes "datalink ops = BACDL_MSTP" and "config ''DefaultDevicePath'' = Some path" and "\<not> exists path"
    and "usable (datalink ops') exists' config'" and "fst (started_stack ops' (stk (shared s))) \<noteq> 0"
    and "\<not> datalink_thread (driver s)"
  shows "bacnet_init ops exists config s = Some (False, s\<lparr>driver := (driver s)\<lparr>default_device_path := Some path\<rparr>\<rparr>) \<and>
    bacnet_init ops' exists' config' s = None"
proof -
  from configure_usable [OF assms(4), of s] obtain s1 where
    s1: "configure (datalink ops') exists' config' s = Some (True, s1)" "shared s1 = shared s"
      "datalink_thread (driver s1) = datalink_thread (driver s)" by metis
  obtain r k where dl: "dlenv_init ops' (address_init ops' (Device_Set_Object_Instance_Number ops'
      (BACNET_MAX_INSTANCE ops') (Device_Init ops' (stk (shared s))))) = (r, k)" "r \<noteq> 0"
    using assms(5) by (cases "started_stack ops' (stk (shared s))") (simp add: started_stack_def)
  have "bacnet_init ops' exists' config' s = None"
    using s1 dl assms(6)
    by (simp add: bacnet_init_def init_bacnet_driver_def stack_call_def deinit_bacnet_driver_def)
  then show ?thesis using assms(1-3) by (simp add: bacnet_init_def configure_def)
qed

lemma bacnet_init_failures_witness:
  "bacnet_init (sample_stack\<lparr>datalink := BACDL_MSTP\<rparr>) (\<lambda>_. False) (default_configuration BACDL_MSTP) sample_process =
     Some (False, sample_process\<lparr>driver := zero_driver\<lparr>default_device_path := Some ''/dev/ttyUSB0''\<rparr>\<rparr>) \<and>
   bacnet_init (sample_stack\<lparr>dlenv_init := \<lambda>k. (1, k)\<rparr>) (\<lambda>_. False) (default_configuration BACDL_BIP) sample_process = None"
  using bacnet_init_failures [of "sample_stack\<lparr>datalink := BACDL_MSTP\<rparr>" "default_configuration BACDL_MSTP"
      "''/dev/ttyUSB0''" "\<lambda>_. False" "sample_stack\<lparr>dlenv_init := \<lambda>k. (1, k)\<rparr>" "\<lambda>_. False"
      "default_configuration BACDL_BIP" sample_process]
  by (simp add: default_configuration_def DEFAULT_MSTP_PATH_def usable_def started_stack_def sample_stack_def simple_stack_def
      sample_process_def zero_driver_def)




definition stack_ok :: "main_results \<Rightarrow> bool" where
  "stack_ok r \<longleftrightarrow> attr_init_result r = 0 \<and> fst (getstacksize_result r) = 0 \<and>
     (snd (getstacksize_result r) < SMALL_STACK \<longrightarrow>
        setstacksize_result r (2 * snd (getstacksize_result r)) = 0 \<and> setattr_default_result r = 0)"

text \<open>
  C22. How \<open>main\<close> ends, on every path. The exit code is 1 when the stack size cannot be read or
  set, else the code of the first library call that fails, else 0, also for an unknown option. The
  service runs until it is stopped exactly when there is no argument left and nothing failed
  before. A default stack size is set only when the current one is below 100000, to its
  double. The driver object is freed exactly once, as the last action, except after a reported error of the
  library, where it and the service are not freed at all.
\<close>

theorem main_outcome:
  "(let (code, acts) = main dl r args;
        size = snd (getstacksize_result r);
        reported = (\<exists>e. Error_reported e \<in> set acts)
    in code = (if \<not> stack_ok r then 1
               else if service_new_code r \<noteq> 0 then service_new_code r
               else if args \<noteq> [] then 0
               else if service_start_code r \<noteq> 0 then service_start_code r
               else service_stop_code r) \<and>
       (Sigint_awaited \<in> set acts) = (stack_ok r \<and> service_new_code r = 0 \<and> args = [] \<and> service_start_code r = 0) \<and>
       {n. Default_stack_size n \<in> set acts} = (if stack_ok r \<and> size < 100000 then {2 * size} else {}) \<and>
       count_list acts Impl_freed = (if reported then 0 else 1) \<and>
       (last acts = Impl_freed) = (\<not> reported) \<and>
       count_list acts Service_freed = (if stack_ok r then if reported then 0 else 1 else 0))"
proof -
  obtain e n where g: "getstacksize_result r = (e, n)" by fastforce
  show ?thesis
    by (cases args; cases dl)
      (auto simp: main_def main_service_def enlarge_stack_def main_exit_def stack_ok_def SMALL_STACK_def g Let_def
        mult.commute split: prod.splits if_splits)
qed

end
