(* ===== verification/Threads.thy ===== *)
theory Threads
  imports Requests Samples
begin

text \<open>
  The threads of the program side by side. Any number of threads run \<open>bacnetReadProperty\<close>,
  \<open>bacnetWriteProperty\<close> or \<open>bacnetWhoIs\<close>, one thread runs the handlers, and they share one \<open>world\<close>.

  The functions of \<open>Requests\<close> and \<open>Handlers\<close> are cut into the stretches that one thread runs
  without another being able to come in between: a call of a list module (under the mutex of the
  list), taking or giving back the mutex of an entry, an access to an entry. A thread is where it
  is in its function, with the pointers its local variables hold.

  A stretch whose result is None cannot run: the mutex it asks for is held, or the memory it
  accesses is gone.
\<close>

section \<open>Threads that send requests\<close>

text \<open>What a call returned: the value read, the code of a write, the table of devices.\<close>

datatype result = No_Call | Value ptr | Code int | Table

datatype kind = Read | Write | Who_Is

text \<open>
  The arguments of a call: the device, the port, the function of the stack that sends the
  request, which function is called, and the seconds between the two clock readings of
  \<open>find_and_bind\<close>. A Who-Is uses neither device nor port.
\<close>

record 'k request =
  rq_device :: u32
  rq_port :: u16
  rq_send :: "'k \<Rightarrow> u8 \<times> 'k"
  rq_kind :: kind
  rq_elapsed :: int

text \<open>The first pointer is \<open>data\<close>, the second \<open>map\<close> in \<open>find_and_bind\<close>.\<close>

datatype caller =
    Out result
  | Added ptr                \<comment> \<open>the entry is on the list\<close>
  | Binding ptr              \<comment> \<open>at the start of \<open>find_and_bind\<close>\<close>
  | Wait_Added ptr           \<comment> \<open>\<open>device_condition_map_set\<close> is done\<close>
  | Wait_Found ptr ptr       \<comment> \<open>\<open>device_condition_map_get\<close> is done\<close>
  | Wait_Locked ptr ptr
  | Wait_Blocked ptr ptr     \<comment> \<open>in \<open>pthread_cond_timedwait\<close>\<close>
  | Wait_Woken ptr ptr
  | Wait_Over ptr ptr
  | Wait_Removed ptr         \<comment> \<open>\<open>device_condition_map_remove\<close> is done\<close>
  | Rebinding ptr
  | Bound ptr                \<comment> \<open>\<open>find_and_bind\<close> returned true, or nothing to bind\<close>
  | Call_Locked ptr
  | Call_Sent ptr            \<comment> \<open>the request is sent and its invoke ID noted\<close>
  | Call_Blocked ptr         \<comment> \<open>in \<open>pthread_cond_timedwait\<close>\<close>
  | Call_Woken ptr
  | Call_Over ptr
  | Leaving ptr result       \<comment> \<open>before \<open>return_data_remove_by_ptr\<close>\<close>

text \<open>Sending with the list locked, so that no handler looks for the invoke ID before it is there.\<close>

definition send_request :: "('k \<Rightarrow> u8 \<times> 'k) \<Rightarrow> ptr \<Rightarrow> 'k world \<Rightarrow> 'k world option" where
  "send_request send data w = do {
     w \<leftarrow> rd_list_lock w;
     let (i, k) = send (stk w);
     w \<leftarrow> rd_write data (rd_requestInvokeID_update (\<lambda>_. i)) (w\<lparr>stk := k\<rparr>);
     rd_list_unlock w
   }"

definition failed :: "'k request \<Rightarrow> result" where
  "failed q = (if rq_kind q = Write then Code 1 else Value NULL)"

text \<open>The invoke ID a call asks \<open>return_data_set\<close> for.\<close>

definition asked_id :: "'k request \<Rightarrow> u8" where
  "asked_id q = (if rq_kind q = Who_Is then 255 else 0)"

fun advance ::
    "'k bacnet_stack \<Rightarrow> 'k request \<Rightarrow> caller \<Rightarrow> 'k world \<Rightarrow> (caller \<times> 'k world) option" where
  "advance ops q (Out r) w = None"
| "advance ops q (Added p) w = do {
     w \<leftarrow> (if rq_kind q \<noteq> Read then rd_write p (rd_errorDetected_update (\<lambda>_. False)) w else Some w);
     Some (if rq_kind q = Who_Is
           then (Bound p, if datalink ops = BACDL_BIP then stack_call (bip_set_port ops (htons 0xBAC0)) w else w)
           else (Binding p, w))
   }"
| "advance ops q (Binding p) w =
     (if BACNET_MAX_INSTANCE ops < rq_device q then Some (Leaving p (failed q), w)
      else do {
        let w = (if datalink ops = BACDL_BIP then stack_call (bip_set_port ops (htons (rq_port q))) w else w);
        (found, w) \<leftarrow> bind_request ops (rq_device q) p w;
        if found then Some (Bound p, w)
        else do {
          w \<leftarrow> dcm_set_world (rq_device q) (Some zero_address) w;
          Some (Wait_Added p, w)
        }
      })"
| "advance ops q (Wait_Added p) w = do {
     (m, w) \<leftarrow> dcm_get_world (rq_device q) w;
     Some (Wait_Found p m, w)
   }"
| "advance ops q (Wait_Found p m) w = do { w \<leftarrow> dcm_lock m w; Some (Wait_Locked p m, w) }"
| "advance ops q (Wait_Locked p m) w = do {
     let w = stack_call (Send_WhoIs ops (rq_device q) (rq_device q)) w;
     w \<leftarrow> dcm_unlock m w;
     Some (Wait_Blocked p m, w)
   }"
| "advance ops q (Wait_Blocked p m) w = do { w \<leftarrow> dcm_lock m w; Some (Wait_Woken p m, w) }"
| "advance ops q (Wait_Woken p m) w = do { w \<leftarrow> dcm_unlock m w; Some (Wait_Over p m, w) }"
| "advance ops q (Wait_Over p m) w = do {
     w \<leftarrow> dcm_remove_world (rq_device q) w;
     Some (Wait_Removed p, w)
   }"
| "advance ops q (Wait_Removed p) w = do {
     d \<leftarrow> rd_read p w;
     Some (if rd_errorDetected d then Leaving p (failed q) else Rebinding p, w)
   }"
| "advance ops q (Rebinding p) w = do {
     (bound, w) \<leftarrow> rebind ops (rq_elapsed q) p (rq_device q) w;
     Some (if bound then Bound p else Leaving p (failed q), w)
   }"
| "advance ops q (Bound p) w = do { w \<leftarrow> rd_lock p w; Some (Call_Locked p, w) }"
| "advance ops q (Call_Locked p) w = do {
     w \<leftarrow> (if rq_kind q = Who_Is
          then Some (stack_call (Send_WhoIs_To_Network ops (datalink_get_broadcast_address ops) (-1) (-1)) w)
          else send_request (rq_send q) p w);
     Some (Call_Sent p, w)
   }"
| "advance ops q (Call_Sent p) w = do { w \<leftarrow> rd_unlock p w; Some (Call_Blocked p, w) }"
| "advance ops q (Call_Blocked p) w = do { w \<leftarrow> rd_lock p w; Some (Call_Woken p, w) }"
| "advance ops q (Call_Woken p) w = do { w \<leftarrow> rd_unlock p w; Some (Call_Over p, w) }"
| "advance ops q (Call_Over p) w =
     (if rq_kind q = Who_Is then Some (Leaving p Table, w)
      else do {
        d \<leftarrow> rd_read p w;
        Some (if rq_kind q = Write then (if rd_errorDetected d then Out (Code 1) else Leaving p (Code 0))
              else Leaving p (Value (rd_value d)), w)
      })"
| "advance ops q (Leaving p r) w = do { w \<leftarrow> rd_remove_world p w; Some (Out r, w) }"

section \<open>The thread that receives\<close>

datatype receiver =
    R_Idle
  | R_Failure bacnet_address ptr          \<comment> \<open>error, abort or reject: the entry was looked up\<close>
  | R_Ack "u8 list" bacnet_address ptr    \<comment> \<open>acknowledged read: the entry was looked up\<close>
  | R_Ack_Free "u8 list" bacnet_address ptr  \<comment> \<open>it has no value yet\<close>
  | R_Decode "u8 list" bacnet_address ptr \<comment> \<open>its mutex is taken\<close>
  | R_Signal ptr                          \<comment> \<open>before taking the mutex to signal\<close>
  | R_Locked ptr
  | R_Signalled ptr
  | R_I_Am u32 u32 bacnet_address ptr     \<comment> \<open>I-Am: the waiting binding was looked up\<close>
  | R_Device ptr
  | R_Device_Locked ptr
  | R_Device_Signalled ptr

text \<open>A handler up to and including its first lookup.\<close>

definition look_up :: "(ptr \<Rightarrow> receiver) \<Rightarrow> u8 \<Rightarrow> 'k world \<Rightarrow> (receiver \<times> 'k world) option" where
  "look_up next invoke_id w = do {
     (p, w) \<leftarrow> rd_get_world invoke_id w;
     Some (if p \<noteq> NULL then next p else R_Idle, w)
   }"

definition look_up_device ::
    "'k bacnet_stack \<Rightarrow> u8 list \<Rightarrow> bacnet_address \<Rightarrow> 'k world \<Rightarrow> (receiver \<times> 'k world) option" where
  "look_up_device ops req src w =
     (let (len, device_id, max_apdu) = iam_decode_service_request ops req
      in if len \<noteq> -1 then do {
           (m, w) \<leftarrow> dcm_get_world device_id w;
           if m \<noteq> NULL then Some (R_I_Am device_id max_apdu src m, w)
           else do { w \<leftarrow> ae_set_world device_id max_apdu src w; Some (R_Idle, w) }
         }
         else Some (R_Idle, w))"

fun start :: "'k bacnet_stack \<Rightarrow> apdu_handlers \<Rightarrow> event \<Rightarrow> 'k world \<Rightarrow> (receiver \<times> 'k world) option" where
  "start ops t (Unconfirmed s req src) w =
     (if unconfirmed_handler t s = Some Handler_IAm then look_up_device ops req src w else Some (R_Idle, w))"
| "start ops t (Confirmed_Ack s req src i) w =
     (if confirmed_ack_handler t s = Some Handler_ReadAck then look_up (R_Ack req src) i w else Some (R_Idle, w))"
| "start ops t (Simple_Ack s src i) w =
     (if confirmed_simple_ack_handler t s = Some Handler_WriteAck then look_up R_Signal i w else Some (R_Idle, w))"
| "start ops t (Error_PDU s src i c e) w =
     (if error_handler t s = Some Handler_Error then look_up (R_Failure src) i w else Some (R_Idle, w))"
| "start ops t (Abort_PDU src i r server) w =
     (if abort_handler t = Some Handler_Abort then look_up (R_Failure src) i w else Some (R_Idle, w))"
| "start ops t (Reject_PDU src i r) w =
     (if reject_handler t = Some Handler_Reject then look_up (R_Failure src) i w else Some (R_Idle, w))"

text \<open>The rest of a handler, one stretch at a time.\<close>

fun proceed :: "'k bacnet_stack \<Rightarrow> receiver \<Rightarrow> 'k world \<Rightarrow> (receiver \<times> 'k world) option" where
  "proceed ops R_Idle w = None"
| "proceed ops (R_Failure src p) w = do {
     d \<leftarrow> rd_read p w;
     w \<leftarrow> (if address_match ops (rd_targetAddress d) src
          then rd_write p (rd_errorDetected_update (\<lambda>_. True)) w else Some w);
     Some (R_Signal p, w)
   }"
| "proceed ops (R_Ack req src p) w = do {
     d \<leftarrow> rd_read p w;
     Some (if rd_value d = NULL then R_Ack_Free req src p else R_Idle, w)
   }"
| "proceed ops (R_Ack_Free req src p) w = do { w \<leftarrow> rd_lock p w; Some (R_Decode req src p, w) }"
| "proceed ops (R_Decode req src p) w = do {
     d \<leftarrow> rd_read p w;
     w \<leftarrow> (if src_matches ops d (Some src)
          then (case decode_ack ops req of
              Some v \<Rightarrow>
                (let (q, h) = malloc \<lparr>value_next = NULL, value_data = v\<rparr> (app_values w)
                 in rd_write p (rd_value_update (\<lambda>_. q)) (w\<lparr>app_values := h\<rparr>))
            | None \<Rightarrow> Some w)
          else Some w);
     Some (R_Locked p, w)
   }"
| "proceed ops (R_Signal p) w = do { w \<leftarrow> rd_lock p w; Some (R_Locked p, w) }"
| "proceed ops (R_Locked p) w = do { w \<leftarrow> rd_signal p w; Some (R_Signalled p, w) }"
| "proceed ops (R_Signalled p) w = do { w \<leftarrow> rd_unlock p w; Some (R_Idle, w) }"
| "proceed ops (R_I_Am device_id max_apdu src m) w = do {
     d \<leftarrow> dcm_read m w;
     a \<leftarrow> dcm_address d;
     Some (R_Device m, if mac_len a = 0 then stack_call (address_add_binding ops device_id max_apdu src) w
                       else w)
   }"
| "proceed ops (R_Device m) w = do { w \<leftarrow> dcm_lock m w; Some (R_Device_Locked m, w) }"
| "proceed ops (R_Device_Locked m) w = do { w \<leftarrow> dcm_signal m w; Some (R_Device_Signalled m, w) }"
| "proceed ops (R_Device_Signalled m) w = do { w \<leftarrow> dcm_unlock m w; Some (R_Idle, w) }"

section \<open>The system\<close>

record 'k system =
  mem :: "'k world"
  pcs :: "nat \<Rightarrow> caller"
  reqs :: "nat \<Rightarrow> 'k request"
  rcv :: receiver

definition move :: "nat \<Rightarrow> caller \<times> 'k world \<Rightarrow> 'k system \<Rightarrow> 'k system" where
  "move c x s = s\<lparr>mem := snd x, pcs := (pcs s)(c := fst x)\<rparr>"

definition move_rcv :: "receiver \<times> 'k world \<Rightarrow> 'k system \<Rightarrow> 'k system" where
  "move_rcv x s = s\<lparr>mem := snd x, rcv := fst x\<rparr>"

fun active :: "caller \<Rightarrow> bool" where
  "active (Out r) = False"
| "active _ = True"

text \<open>
  No other thread has a call to the device in progress. (A Who-Is may carry any device that is not
  in use.)
\<close>

definition alone_with :: "'k system \<Rightarrow> nat \<Rightarrow> u32 \<Rightarrow> bool" where
  "alone_with s c device \<longleftrightarrow> (\<forall>c'. c' \<noteq> c \<longrightarrow> active (pcs s c') \<longrightarrow> rq_device (reqs s c') \<noteq> device)"

text \<open>
  The steps of the system. \<open>excl\<close> says whether the threads are known to call different devices;
  nothing in the code makes sure of it.
\<close>

inductive step ::
    "'k bacnet_stack \<Rightarrow> apdu_handlers \<Rightarrow> bool \<Rightarrow> 'k system \<Rightarrow> 'k system \<Rightarrow> bool"
  for ops t excl where
  call: "pcs s c = Out r \<Longrightarrow> (excl \<Longrightarrow> alone_with s c (rq_device q)) \<Longrightarrow>
     rd_set_world (asked_id q) (mem s) = Some (p, w) \<Longrightarrow>
     step ops t excl s (move c (Added p, w) (s\<lparr>reqs := (reqs s)(c := q)\<rparr>))"
| go_on: "advance ops (reqs s c) (pcs s c) (mem s) = Some x \<Longrightarrow> step ops t excl s (move c x s)"
| message: "rcv s = R_Idle \<Longrightarrow> event_wf e \<Longrightarrow> start ops t e (mem s) = Some x \<Longrightarrow>
     step ops t excl s (move_rcv x s)"
| handle_on: "proceed ops (rcv s) (mem s) = Some x \<Longrightarrow> step ops t excl s (move_rcv x s)"

abbreviation steps where
  "steps ops t excl \<equiv> (step ops t excl)\<^sup>*\<^sup>*"

lemma move_simps [simp]:
  "mem (move c x s) = snd x" "pcs (move c x s) = (pcs s)(c := fst x)"
  "reqs (move c x s) = reqs s" "rcv (move c x s) = rcv s"
  "mem (move_rcv y s) = snd y" "pcs (move_rcv y s) = pcs s"
  "reqs (move_rcv y s) = reqs s" "rcv (move_rcv y s) = fst y"
  by (simp_all add: move_def move_rcv_def)

text \<open>A schedule: who runs next, and what comes in.\<close>

datatype 'k choice = Call nat "'k request" | Go nat | Message event | Handle

fun perform :: "'k bacnet_stack \<Rightarrow> apdu_handlers \<Rightarrow> 'k choice \<Rightarrow> 'k system \<Rightarrow> 'k system option" where
  "perform ops t (Call c q) s =
     (if active (pcs s c) then None
      else do { (p, w) \<leftarrow> rd_set_world (asked_id q) (mem s); Some (move c (Added p, w) (s\<lparr>reqs := (reqs s)(c := q)\<rparr>)) })"
| "perform ops t (Go c) s = do { x \<leftarrow> advance ops (reqs s c) (pcs s c) (mem s); Some (move c x s) }"
| "perform ops t (Message e) s =
     (if rcv s = R_Idle \<and> event_wf e then do { x \<leftarrow> start ops t e (mem s); Some (move_rcv x s) } else None)"
| "perform ops t Handle s = do { x \<leftarrow> proceed ops (rcv s) (mem s); Some (move_rcv x s) }"

fun run :: "'k bacnet_stack \<Rightarrow> apdu_handlers \<Rightarrow> 'k choice list \<Rightarrow> 'k system \<Rightarrow> 'k system option" where
  "run ops t [] s = Some s"
| "run ops t (x # xs) s = do { s \<leftarrow> perform ops t x s; run ops t xs s }"

inductive_cases stepE: "step ops t excl s s'"

lemma active_iff: "active x \<longleftrightarrow> (\<forall>r. x \<noteq> Out r)"
  by (cases x) auto

lemma perform_step: "perform ops t x s = Some s' \<Longrightarrow> step ops t False s s'"
  by (cases x) (auto simp: active_iff split: Option.bind_splits if_splits intro: step.intros)

lemma run_steps: "run ops t xs s = Some s' \<Longrightarrow> steps ops t False s s'"
proof (induction xs arbitrary: s)
  case (Cons x xs)
  then obtain s1 where "perform ops t x s = Some s1" "run ops t xs s1 = Some s'"
    by (auto split: Option.bind_splits)
  with Cons.IH [of s1] perform_step show ?case by (metis converse_rtranclp_into_rtranclp)
qed simp

end
