(* ===== verification/Ownership.thy ===== *)
theory Ownership
  imports Threads
begin

text \<open>
  Who may use an entry of a shared list. What a successful access does to the contents of the
  lists, and the ownership relation the threads keep: every call owns its entry, the mutex of an
  entry is held by its owner or by the receive thread.
\<close>

section \<open>Successful accesses\<close>

text \<open>The addresses the two lists have used so far; \<open>malloc\<close> never returns one of them again.\<close>

definition rd_brk :: "'k world \<Rightarrow> ptr" where
  "rd_brk w = (case returnDataHead w of None \<Rightarrow> 0 | Some l \<Rightarrow> brk (nodes l))"

definition dcm_brk :: "'k world \<Rightarrow> ptr" where
  "dcm_brk w = (case deviceCondtionMapHead w of None \<Rightarrow> 0 | Some l \<Rightarrow> brk (nodes l))"

named_theorems access \<comment> \<open>what a successful access to the shared state does\<close>

lemma brk_simps [simp]:
  "rd_brk (stack_call f w) = rd_brk w" "dcm_brk (stack_call f w) = dcm_brk w"
  "rd_brk (w\<lparr>stk := k\<rparr>) = rd_brk w" "dcm_brk (w\<lparr>stk := k\<rparr>) = dcm_brk w"
  "rd_brk (w\<lparr>app_values := h\<rparr>) = rd_brk w" "dcm_brk (w\<lparr>app_values := h\<rparr>) = dcm_brk w"
  by (simp_all add: rd_brk_def dcm_brk_def stack_call_def)

lemma rep_below: "rep l r \<Longrightarrow> p \<in> fst ` set r \<Longrightarrow> p < brk (nodes l)"
  using rep_allocated [of l r] rep_heap_ok [of l r] by (auto simp: allocated_def heap_ok_def)

lemma sim_below: "sim w A \<Longrightarrow> p \<in> fst ` set (calls A) \<Longrightarrow> p < rd_brk w"
  unfolding sim_def rd_brk_def by (elim exE conjE) (simp add: rep_below)

lemma dcm_below: "sim w A \<Longrightarrow> m \<in> fst ` set (waits A) \<Longrightarrow> m < dcm_brk w"
  unfolding sim_def dcm_brk_def by (elim exE conjE) (simp add: rep_below)

lemma ll_put_D:
  assumes "ll_put p f l = Some l'" and "rep l r"
  shows "rep l' (AList.map_entry p f r) \<and> brk (nodes l') = brk (nodes l) \<and> p < brk (nodes l) \<and>
    allocated (nodes l') = allocated (nodes l)"
proof -
  from assms(1) obtain d where "deref (nodes l) p = Some d" and b: "brk (nodes l') = brk (nodes l)"
    by (auto simp: ll_put_def modify_def)
  then have "p \<in> allocated (nodes l)" by (auto simp: deref_def allocated_def split: if_splits)
  moreover from this have "p < brk (nodes l)" using rep_heap_ok [OF assms(2)]
    by (auto simp: allocated_def heap_ok_def)
  ultimately show ?thesis using ll_put_spec [OF rep_heap_ok [OF assms(2)], of p f] assms b by auto
qed

lemma rd_write_D [access]:
  assumes "rd_write p f w = Some w'" and "sim w A"
  shows "sim w' (upd_call p f A) \<and> rd_brk w' = rd_brk w \<and> dcm_brk w' = dcm_brk w \<and> p < rd_brk w"
proof -
  from sim_calls [OF assms(2)] obtain l where
    l: "returnDataHead w = Some l" "rep l (calls A)" "allocated (nodes l) = fst ` set (calls A)" by blast
  with assms(1) obtain l' where l': "ll_put p f l = Some l'" "w' = w\<lparr>returnDataHead := Some l'\<rparr>"
    by (auto simp: rd_write_def split: Option.bind_splits)
  from ll_put_D [OF l'(1) l(2)] sim_set_calls [OF assms(2), of l'] l l'(2) show ?thesis
    by (simp add: upd_call_def rd_brk_def dcm_brk_def)
qed

lemma dcm_write_D [access]:
  assumes "dcm_write m f w = Some w'" and "sim w A"
  shows "sim w' (upd_wait m f A) \<and> rd_brk w' = rd_brk w \<and> dcm_brk w' = dcm_brk w \<and> m < dcm_brk w"
proof -
  from sim_waits [OF assms(2)] obtain l where
    l: "deviceCondtionMapHead w = Some l" "rep l (waits A)" "allocated (nodes l) = fst ` set (waits A)" by blast
  with assms(1) obtain l' where l': "ll_put m f l = Some l'" "w' = w\<lparr>deviceCondtionMapHead := Some l'\<rparr>"
    by (auto simp: dcm_write_def split: Option.bind_splits)
  from ll_put_D [OF l'(1) l(2)] sim_set_waits [OF assms(2), of l'] l l'(2) show ?thesis
    by (simp add: upd_wait_def rd_brk_def dcm_brk_def)
qed

lemma rd_lock_D [access]:
  assumes "rd_lock p w = Some w'" and "sim w A"
  shows "sim w' (upd_call p (rd_mutex_update (\<lambda>_. True)) A) \<and> rd_brk w' = rd_brk w \<and>
    dcm_brk w' = dcm_brk w \<and> p < rd_brk w \<and> (\<forall>d. map_of (calls A) p = Some d \<longrightarrow> \<not> rd_mutex d)"
  using assms rd_write_D [of p "rd_mutex_update (\<lambda>_. True)" w w' A] rd_read_sim [OF assms(2)]
  by (auto simp: rd_lock_def split: Option.bind_splits if_splits)

lemma rd_unlock_D [access]:
  assumes "rd_unlock p w = Some w'" and "sim w A"
  shows "sim w' (upd_call p (rd_mutex_update (\<lambda>_. False)) A) \<and> rd_brk w' = rd_brk w \<and>
    dcm_brk w' = dcm_brk w"
  using assms rd_write_D [of p "rd_mutex_update (\<lambda>_. False)" w w' A]
  by (auto simp: rd_unlock_def split: Option.bind_splits if_splits)

lemma rd_signal_D [access]:
  "rd_signal p w = Some w' \<Longrightarrow> sim w A \<Longrightarrow>
   sim w' (upd_call p (rd_condition_update (\<lambda>_. True)) A) \<and> rd_brk w' = rd_brk w \<and> dcm_brk w' = dcm_brk w"
  unfolding rd_signal_def by (drule (1) rd_write_D) simp

lemma dcm_lock_D [access]:
  assumes "dcm_lock m w = Some w'" and "sim w A"
  shows "sim w' (upd_wait m (dcm_mutex_update (\<lambda>_. True)) A) \<and> rd_brk w' = rd_brk w \<and>
    dcm_brk w' = dcm_brk w \<and> m < dcm_brk w \<and> (\<forall>d. map_of (waits A) m = Some d \<longrightarrow> \<not> dcm_mutex d)"
  using assms dcm_write_D [of m "dcm_mutex_update (\<lambda>_. True)" w w' A] dcm_read_sim [OF assms(2)]
  by (auto simp: dcm_lock_def split: Option.bind_splits if_splits)

lemma dcm_unlock_D [access]:
  assumes "dcm_unlock m w = Some w'" and "sim w A"
  shows "sim w' (upd_wait m (dcm_mutex_update (\<lambda>_. False)) A) \<and> rd_brk w' = rd_brk w \<and>
    dcm_brk w' = dcm_brk w"
  using assms dcm_write_D [of m "dcm_mutex_update (\<lambda>_. False)" w w' A]
  by (auto simp: dcm_unlock_def split: Option.bind_splits if_splits)

lemma dcm_signal_D [access]:
  "dcm_signal m w = Some w' \<Longrightarrow> sim w A \<Longrightarrow>
   sim w' (upd_wait m (dcm_condition_update (\<lambda>_. True)) A) \<and> rd_brk w' = rd_brk w \<and> dcm_brk w' = dcm_brk w"
  unfolding dcm_signal_def by (drule (1) dcm_write_D) simp

text \<open>The operations on the lists themselves.\<close>

lemma ll_push_brk: "ll_push d l = Some (p, l') \<Longrightarrow> p = brk (nodes l) \<and> brk (nodes l') = Suc p"
  by (auto simp: ll_push_def malloc_def modify_def split: Option.bind_splits if_splits)

lemma ll_unlink_free_brk:
  "ll_unlink p l = Some l' \<Longrightarrow> brk (nodes l') = brk (nodes l)"
  "ll_free_node p l = Some l' \<Longrightarrow> brk (nodes l') = brk (nodes l)"
  by (auto simp: ll_unlink_def ll_unlink_first_def ll_free_node_def modify_def free_def
      split: Option.bind_splits if_splits)

lemma ll_lock_brk:
  "ll_lock l = Some l' \<Longrightarrow> nodes l' = nodes l" "ll_unlock l = Some l' \<Longrightarrow> nodes l' = nodes l"
  by (auto simp: ll_lock_def ll_unlock_def split: if_splits)

lemma rd_set_brk: "rd_set_world i w = Some (p, w') \<Longrightarrow> p = rd_brk w \<and> rd_brk w' = Suc p \<and> dcm_brk w' = dcm_brk w"
  by (auto simp: rd_set_world_def return_data_set_def rd_brk_def dcm_brk_def Let_def
      split: Option.bind_splits dest!: ll_push_brk ll_lock_brk)

lemma rd_remove_brk: "rd_remove_world p w = Some w' \<Longrightarrow> rd_brk w' = rd_brk w \<and> dcm_brk w' = dcm_brk w"
  by (auto simp: rd_remove_world_def return_data_remove_by_ptr_def return_data_remove_by_ptr_locked_def
      rd_brk_def dcm_brk_def split: Option.bind_splits if_splits dest!: ll_unlink_free_brk ll_lock_brk)

lemma dcm_set_brk: "dcm_set_world i a w = Some w' \<Longrightarrow> dcm_brk w' = Suc (dcm_brk w) \<and> rd_brk w' = rd_brk w"
  by (auto simp: dcm_set_world_def device_condition_map_set_def rd_brk_def dcm_brk_def Let_def
      split: Option.bind_splits dest!: ll_push_brk ll_lock_brk)

lemma dcm_remove_brk: "dcm_remove_world i w = Some w' \<Longrightarrow> dcm_brk w' = dcm_brk w \<and> rd_brk w' = rd_brk w"
  by (auto simp: dcm_remove_world_def device_condition_map_remove_def rd_brk_def dcm_brk_def
      split: Option.bind_splits if_splits dest!: ll_unlink_free_brk ll_lock_brk)

lemma ae_set_brk: "ae_set_world i m a w = Some w' \<Longrightarrow> dcm_brk w' = dcm_brk w \<and> rd_brk w' = rd_brk w"
  by (auto simp: ae_set_world_def rd_brk_def dcm_brk_def split: Option.bind_splits)

lemma rd_set_D:
  assumes "rd_set_world i w = Some (p, w')" and "sim w A"
  shows "sim w' (A\<lparr>calls := (p, zero_return_data) # calls A\<rparr>) \<and> p = rd_brk w \<and> rd_brk w' = Suc p \<and>
    dcm_brk w' = dcm_brk w"
  using rd_set_sim [OF assms(2), of i] assms(1) rd_set_brk [OF assms(1)] by auto

lemma rd_remove_D:
  assumes "rd_remove_world p w = Some w'" and "sim w A" and "p \<in> fst ` set (calls A)"
  shows "sim w' (A\<lparr>calls := AList.delete p (calls A)\<rparr>) \<and> rd_brk w' = rd_brk w \<and> dcm_brk w' = dcm_brk w"
proof -
  from assms(3) obtain d where "map_of (calls A) p = Some d" by (metis map_of_eq_None_iff not_None_eq)
  from rd_remove_sim [OF assms(2) this] assms(1) rd_remove_brk [OF assms(1)] show ?thesis by auto
qed

lemma dcm_set_first:
  "dcm_set_world i a w = Some w' \<Longrightarrow> \<exists>l. deviceCondtionMapHead w' = Some l \<and> first l = dcm_brk w"
  by (auto simp: dcm_set_world_def device_condition_map_set_def dcm_brk_def ll_lock_def ll_unlock_def
      ll_push_def malloc_def Let_def split: Option.bind_splits if_splits)

lemma dcm_set_D:
  assumes "dcm_set_world i a w = Some w'" and "sim w A"
  shows "sim w' (A\<lparr>waits := (dcm_brk w, new_dcm (i, a)) # waits A\<rparr>) \<and> dcm_brk w \<notin> fst ` set (waits A) \<and>
    dcm_brk w' = Suc (dcm_brk w) \<and> rd_brk w' = rd_brk w"
proof -
  from dcm_set_sim [OF assms(2), of i a] assms(1) obtain m where
    m: "sim w' (A\<lparr>waits := (m, new_dcm (i, a)) # waits A\<rparr>)" "m \<notin> fst ` set (waits A)" by auto
  from dcm_set_first [OF assms(1)] m(1) have "m = dcm_brk w" by (auto simp: sim_def rep_def)
  with m dcm_set_brk [OF assms(1)] show ?thesis by simp
qed

lemma dcm_get_D: "dcm_get_world i w = Some (m, w') \<Longrightarrow> sim w A \<Longrightarrow> w' = w \<and> m = wait_for i A"
  by (simp add: dcm_get_sim)

lemma rd_get_D: "rd_get_world i w = Some (p, w') \<Longrightarrow> sim w A \<Longrightarrow> w' = w \<and> p = call_for i A"
  by (simp add: rd_get_sim)

lemma dcm_remove_D:
  assumes "dcm_remove_world i w = Some w'" and "sim w A"
  shows "sim w' (A\<lparr>waits := AList.delete (wait_for i A) (waits A)\<rparr>) \<and> rd_brk w' = rd_brk w \<and>
    dcm_brk w' = dcm_brk w"
proof (cases "wait_for i A = NULL")
  case False
  from dcm_remove_sim [OF assms(2) refl False] assms(1) dcm_remove_brk [OF assms(1)] show ?thesis by auto
next
  case True
  from assms(2) obtain l where l: "deviceCondtionMapHead w = Some l" "rep l (waits A)"
    by (auto simp: sim_def)
  from device_condition_map_remove_absent [OF l(2) True] l(1) assms(1) have "w' = w"
    by (auto simp: dcm_remove_world_def)
  moreover have "AList.delete NULL (waits A) = waits A"
    using sim_not_NULL [OF assms(2)] by (simp add: delete_not_key)
  ultimately show ?thesis using assms(2) True by simp
qed

text \<open>Accesses that leave the mutexes of the entries and the waiting bindings alone.\<close>

definition touches :: "ptr \<Rightarrow> 'k view \<Rightarrow> 'k view \<Rightarrow> bool" where
  "touches p A A' \<longleftrightarrow> waits A' = waits A \<and>
     (\<exists>f. calls A' = AList.map_entry p f (calls A) \<and> (\<forall>d. rd_mutex (f d) = rd_mutex d))"

lemma touches_upd: "(\<And>d. rd_mutex (f d) = rd_mutex d) \<Longrightarrow> touches p A (upd_call p f A)"
  by (auto simp: touches_def)

lemma touches_same: "calls A' = calls A \<Longrightarrow> waits A' = waits A \<Longrightarrow> touches p A A'"
  by (auto simp: touches_def intro!: exI [of _ "\<lambda>d. d"])

lemma touches_trans:
  assumes "touches p A B" and "touches p B C"
  shows "touches p A C"
proof -
  from assms obtain f g where "calls B = AList.map_entry p f (calls A)" "calls C = AList.map_entry p g (calls B)"
    "\<forall>d. rd_mutex (f d) = rd_mutex d" "\<forall>d. rd_mutex (g d) = rd_mutex d"
    "waits B = waits A" "waits C = waits B" by (auto simp: touches_def)
  then show ?thesis by (auto simp: touches_def intro!: exI [of _ "\<lambda>d. g (f d)"])
qed

lemma bind_request_D:
  assumes "bind_request ops dev p w = Some (b, w')" and "sim w A"
  shows "\<exists>A'. sim w' A' \<and> touches p A A' \<and> rd_brk w' = rd_brk w \<and> dcm_brk w' = dcm_brk w"
proof -
  obtain found k where a: "address_bind_request ops dev (stk w) = (found, k)" by fastforce
  have s: "sim (w\<lparr>stk := k\<rparr>) (A\<lparr>vstk := k\<rparr>)" by (rule sim_set_stk [OF assms(2)])
  show ?thesis
  proof (cases found)
    case None
    with a assms(1) s show ?thesis
      by (intro exI [of _ "A\<lparr>vstk := k\<rparr>"]) (auto simp: bind_request_def touches_same)
  next
    case (Some ma)
    obtain m x where ma: "ma = (m, x)" by fastforce
    with a Some assms(1) have "rd_write p (rd_targetAddress_update (\<lambda>_. x)) (w\<lparr>stk := k\<rparr>) = Some w'"
      by (auto simp: bind_request_def split: Option.bind_splits)
    from rd_write_D [OF this s] show ?thesis
      by (intro exI [of _ "upd_call p (rd_targetAddress_update (\<lambda>_. x)) (A\<lparr>vstk := k\<rparr>)"])
        (auto intro: touches_trans [OF touches_same touches_upd])
  qed
qed

lemma error_D:
  assumes "rd_write p (rd_errorDetected_update (\<lambda>_. b)) w = Some w'" and "sim w A"
  shows "\<exists>A'. sim w' A' \<and> touches p A A' \<and> rd_brk w' = rd_brk w \<and> dcm_brk w' = dcm_brk w"
  using rd_write_D [OF assms]
  by (intro exI [of _ "upd_call p (rd_errorDetected_update (\<lambda>_. b)) A"]) (simp add: touches_upd)

lemma rebind_D:
  assumes "rebind ops elapsed p dev w = Some (b, w')" and "sim w A"
  shows "\<exists>A'. sim w' A' \<and> touches p A A' \<and> rd_brk w' = rd_brk w \<and> dcm_brk w' = dcm_brk w"
proof -
  from assms(1) obtain found w1 d where w1: "bind_request ops dev p w = Some (found, w1)" "rd_read p w1 = Some d"
    by (auto simp: rebind_def split: Option.bind_splits)
  from bind_request_D [OF w1(1) assms(2)] obtain A1 where A1: "sim w1 A1" "touches p A A1"
    "rd_brk w1 = rd_brk w" "dcm_brk w1 = dcm_brk w" by blast
  consider "w' = w1" | w2 where "rd_write p (rd_errorDetected_update (\<lambda>_. True)) w2 = Some w'"
      and "w2 = w1 \<or> w2 = stack_call (tsm_free_invoke_id ops (rd_requestInvokeID d)) w1"
    using assms(1) w1 by (auto simp: rebind_def Let_def split: Option.bind_splits if_splits)
  then show ?thesis
  proof cases
    case 1
    with A1 show ?thesis by blast
  next
    case (2 w2)
    let ?f = "tsm_free_invoke_id ops (rd_requestInvokeID d)"
    have "touches p A (A1\<lparr>vstk := ?f (vstk A1)\<rparr>)"
      by (rule touches_trans [OF A1(2)]) (simp add: touches_same)
    with 2(2) A1 sim_stack_call [OF A1(1), of ?f]
    have "\<exists>A2. sim w2 A2 \<and> touches p A A2 \<and> rd_brk w2 = rd_brk w \<and> dcm_brk w2 = dcm_brk w" by auto
    with error_D [OF 2(1)] show ?thesis by (metis touches_trans)
  qed
qed

lemma send_request_D:
  assumes "send_request send p w = Some w'" and "sim w A" and "p \<in> fst ` set (calls A)"
  shows "\<exists>A'. sim w' A' \<and> touches p A A' \<and> rd_brk w' = rd_brk w \<and> dcm_brk w' = dcm_brk w"
proof -
  from assms(3) obtain d where d: "map_of (calls A) p = Some d" by (metis map_of_eq_None_iff not_None_eq)
  obtain i k where ik: "send (stk w) = (i, k)" by fastforce
  from rd_assign_sim [OF assms(2) d, of "rd_requestInvokeID_update (\<lambda>_. i)" k] ik assms(1)
  have s: "sim w' ((upd_call p (rd_requestInvokeID_update (\<lambda>_. i)) A)\<lparr>vstk := k\<rparr>)"
    by (auto simp: send_request_def)
  have "rd_brk w' = rd_brk w \<and> dcm_brk w' = dcm_brk w"
    using assms(1) by (auto simp: send_request_def rd_list_lock_def rd_list_unlock_def rd_write_def ll_put_def
        modify_def rd_brk_def dcm_brk_def Let_def split: Option.bind_splits prod.splits dest!: ll_lock_brk)
  moreover have "touches p A ((upd_call p (rd_requestInvokeID_update (\<lambda>_. i)) A)\<lparr>vstk := k\<rparr>)"
    by (rule touches_trans [OF touches_upd touches_same]) simp_all
  ultimately show ?thesis using s by blast
qed

end
