(* ===== verification/Uninterrupted.thy ===== *)
theory Uninterrupted
  imports Threads
begin

text \<open>
  The functions of \<open>Handlers\<close> and \<open>Requests\<close> are what the threads of \<open>Threads\<close> do when no other
  thread comes in between, except for the messages handled while a call waits.
\<close>

section \<open>One handler\<close>

lemma rd_read_write: "rd_write p f w = Some w' \<Longrightarrow> rd_read p w' = map_option f (rd_read p w)"
  by (auto simp: rd_write_def rd_read_def ll_put_def ll_get_def modify_def deref_def
      split: Option.bind_splits if_splits)

lemma move_rcv_twice [simp]: "move_rcv x (move_rcv y s) = move_rcv x s"
  by (simp add: move_rcv_def)

lemma move_twice [simp]: "move c x (move c y s) = move c x s"
  by (simp add: move_def)

lemma move_move_rcv: "move_rcv (rcv s, w') (move c (pc, w) s) = move c (pc, w') s"
  by (simp add: move_def move_rcv_def)

lemma handle_step:
  "proceed ops r w = Some x \<Longrightarrow> steps ops t excl (move_rcv x s) z \<Longrightarrow>
   steps ops t excl (move_rcv (r, w) s) z"
  using handle_on [of ops "move_rcv (r, w) s" x t excl] by (auto intro: converse_rtranclp_into_rtranclp)

lemma signal_run:
  "rd_lock p w = Some w1 \<Longrightarrow> rd_signal p w1 = Some w2 \<Longrightarrow> rd_unlock p w2 = Some w3 \<Longrightarrow>
   steps ops t excl (move_rcv (R_Signal p, w) s) (move_rcv (R_Idle, w3) s)"
  by (intro handle_step [of ops "R_Signal p" w "(R_Locked p, w1)"] handle_step [of ops "R_Locked p" w1 "(R_Signalled p, w2)"]
      handle_step [of ops "R_Signalled p" w2 "(R_Idle, w3)"]) simp_all

lemma failure_run:
  assumes "report_failure ops src i w = Some w'" and "look_up (R_Failure src) i w = Some x"
  shows "steps ops t excl (move_rcv x s) (move_rcv (R_Idle, w') s)"
proof -
  from assms(2) obtain p w0 where x: "rd_get_world i w = Some (p, w0)"
    "x = (if p \<noteq> NULL then R_Failure src p else R_Idle, w0)"
    by (auto simp: look_up_def split: Option.bind_splits)
  show ?thesis
  proof (cases "p = NULL")
    case True
    with assms(1) x show ?thesis by (simp add: report_failure_def)
  next
    case False
    with assms(1) x(1) obtain d w1 w2 w3 where "rd_read p w0 = Some d"
      "(if address_match ops (rd_targetAddress d) src
        then rd_write p (rd_errorDetected_update (\<lambda>_. True)) w0 else Some w0) = Some w1"
      and l: "rd_lock p w1 = Some w2" "rd_signal p w2 = Some w3" "rd_unlock p w3 = Some w'"
      by (auto simp: report_failure_def split: Option.bind_splits)
    then have "proceed ops (R_Failure src p) w0 = Some (R_Signal p, w1)" by simp
    from handle_step [OF this signal_run [OF l]] x(2) False show ?thesis by simp
  qed
qed

lemma write_ack_run:
  assumes "MyWritePropertySimpleAckHandler ops src i w = Some w'" and "look_up R_Signal i w = Some x"
  shows "steps ops t excl (move_rcv x s) (move_rcv (R_Idle, w') s)"
  using assms
  by (auto simp: look_up_def MyWritePropertySimpleAckHandler_def split: Option.bind_splits if_splits
      intro: signal_run)

lemma read_ack_run:
  assumes "My_Read_Property_Ack_Handler ops req (Some src) i w = Some w'"
    and "look_up (R_Ack req src) i w = Some x"
  shows "steps ops t excl (move_rcv x s) (move_rcv (R_Idle, w') s)"
proof -
  from assms(2) obtain p w0 where x: "rd_get_world i w = Some (p, w0)"
    "x = (if p \<noteq> NULL then R_Ack req src p else R_Idle, w0)"
    by (auto simp: look_up_def split: Option.bind_splits)
  show ?thesis
  proof (cases "p = NULL")
    case True
    with assms(1) x show ?thesis by (simp add: My_Read_Property_Ack_Handler_def)
  next
    case False
    with assms(1) x(1) obtain d where d: "rd_read p w0 = Some d"
      by (auto simp: My_Read_Property_Ack_Handler_def split: Option.bind_splits)
    show ?thesis
    proof (cases "rd_value d = NULL")
      case v: False
      with assms(1) x(1) False d have "w' = w0" by (simp add: My_Read_Property_Ack_Handler_def)
      moreover have "proceed ops (R_Ack req src p) w0 = Some (R_Idle, w0)" using d v by simp
      ultimately show ?thesis using handle_step x(2) False by fastforce
    next
      case v: True
      with assms(1) x(1) False d obtain w1 w2 w3 where l: "rd_lock p w0 = Some w1"
        and r: "(if src_matches ops d (Some src)
          then (case decode_ack ops req of
              Some v \<Rightarrow> (let (q, h) = malloc \<lparr>value_next = NULL, value_data = v\<rparr> (app_values w1)
                 in rd_write p (rd_value_update (\<lambda>_. q)) (w1\<lparr>app_values := h\<rparr>))
            | None \<Rightarrow> Some w1) else Some w1) = Some w2"
          "rd_signal p w2 = Some w3" "rd_unlock p w3 = Some w'"
        by (auto simp: My_Read_Property_Ack_Handler_def split: Option.bind_splits)
      from l d have d1: "rd_read p w1 = Some (d\<lparr>rd_mutex := True\<rparr>)"
        by (auto simp: rd_lock_def rd_read_write split: if_splits Option.bind_splits)
      have m: "src_matches ops (d\<lparr>rd_mutex := True\<rparr>) a = src_matches ops d a" for a
        by (simp add: src_matches_def split: option.split)
      have "proceed ops (R_Ack req src p) w0 = Some (R_Ack_Free req src p, w0)" using d v by simp
      moreover have "proceed ops (R_Ack_Free req src p) w0 = Some (R_Decode req src p, w1)" using l by simp
      moreover have "proceed ops (R_Decode req src p) w1 = Some (R_Locked p, w2)" using r(1) d1 m by simp
      moreover have "proceed ops (R_Locked p) w2 = Some (R_Signalled p, w3)" using r(2) by simp
      moreover have "proceed ops (R_Signalled p) w3 = Some (R_Idle, w')" using r(3) by simp
      ultimately show ?thesis using x(2) False by (auto intro!: handle_step)
    qed
  qed
qed

lemma i_am_run:
  assumes "my_i_am_handler ops req src w = Some w'" and "look_up_device ops req src w = Some x"
  shows "steps ops t excl (move_rcv x s) (move_rcv (R_Idle, w') s)"
proof -
  obtain len device_id max_apdu where r: "iam_decode_service_request ops req = (len, device_id, max_apdu)"
    by (metis prod_cases3)
  show ?thesis
  proof (cases "len = -1")
    case True
    with assms r show ?thesis by (simp add: my_i_am_handler_def look_up_device_def)
  next
    case False
    with assms(2) r obtain m w0 where m: "dcm_get_world device_id w = Some (m, w0)"
      by (auto simp: look_up_device_def split: Option.bind_splits)
    show ?thesis
    proof (cases "m = NULL")
      case True
      with assms r m False show ?thesis
        by (auto simp: my_i_am_handler_def look_up_device_def split: Option.bind_splits)
    next
      case n: False
      with assms(1) r m False obtain d a w1 w2 w3 where d: "dcm_read m w0 = Some d" "dcm_address d = Some a"
        and w1: "w1 = (if mac_len a = 0 then stack_call (address_add_binding ops device_id max_apdu src) w0 else w0)"
        and l: "dcm_lock m w1 = Some w2" "dcm_signal m w2 = Some w3" "dcm_unlock m w3 = Some w'"
        by (auto simp: my_i_am_handler_def Let_def split: Option.bind_splits)
      have "x = (R_I_Am device_id max_apdu src m, w0)" using assms(2) r m False n
        by (simp add: look_up_device_def)
      moreover have "proceed ops (R_I_Am device_id max_apdu src m) w0 = Some (R_Device m, w1)"
        using d w1 by simp
      moreover have "proceed ops (R_Device m) w1 = Some (R_Device_Locked m, w2)" using l by simp
      moreover have "proceed ops (R_Device_Locked m) w2 = Some (R_Device_Signalled m, w3)" using l by simp
      moreover have "proceed ops (R_Device_Signalled m) w3 = Some (R_Idle, w')" using l by simp
      ultimately show ?thesis by (auto intro!: handle_step)
    qed
  qed
qed

lemma look_up_defined: "rd_get_world i w = Some x \<Longrightarrow> \<exists>y. look_up f i w = Some y"
  by (cases x) (simp add: look_up_def)

text \<open>A message that is handled without a break.\<close>

lemma handle_run:
  assumes "handle ops t e w = Some w'" and "event_wf e"
  shows "steps ops t excl (move_rcv (R_Idle, w) s) (move_rcv (R_Idle, w') s)"
proof -
  have "\<exists>x. start ops t e w = Some x \<and> steps ops t excl (move_rcv x s) (move_rcv (R_Idle, w') s)"
  proof (cases e)
    case (Unconfirmed sv req src)
    have "\<exists>x. look_up_device ops req src w = Some x" if "my_i_am_handler ops req src w = Some w'"
      using that by (auto simp: my_i_am_handler_def look_up_device_def Let_def
          split: Option.bind_splits if_splits prod.splits)
    with assms(1) Unconfirmed i_am_run [of ops req src w w'] show ?thesis by (auto split: if_splits)
  next
    case (Confirmed_Ack sv req src i)
    have "\<exists>x. look_up (R_Ack req src) i w = Some x" if "My_Read_Property_Ack_Handler ops req (Some src) i w = Some w'"
      using that look_up_defined by (auto simp: My_Read_Property_Ack_Handler_def split: Option.bind_splits)
    with assms(1) Confirmed_Ack read_ack_run [of ops req src i w w'] show ?thesis by (auto split: if_splits)
  next
    case (Simple_Ack sv src i)
    have "\<exists>x. look_up R_Signal i w = Some x" if "MyWritePropertySimpleAckHandler ops (Some src) i w = Some w'"
      using that look_up_defined by (auto simp: MyWritePropertySimpleAckHandler_def split: Option.bind_splits)
    with assms(1) Simple_Ack write_ack_run [of ops "Some src" i w w'] show ?thesis by (auto split: if_splits)
  next
    case (Error_PDU sv src i ec code)
    have "\<exists>x. look_up (R_Failure src) i w = Some x" if "report_failure ops src i w = Some w'"
      using that look_up_defined by (auto simp: report_failure_def split: Option.bind_splits)
    with assms(1) Error_PDU failure_run [of ops src i w w'] show ?thesis
      by (auto simp: MyErrorHandler_def split: if_splits)
  next
    case (Abort_PDU src i reason server)
    have "\<exists>x. look_up (R_Failure src) i w = Some x" if "report_failure ops src i w = Some w'"
      using that look_up_defined by (auto simp: report_failure_def split: Option.bind_splits)
    with assms(1) Abort_PDU failure_run [of ops src i w w'] show ?thesis
      by (auto simp: MyAbortHandler_def split: if_splits)
  next
    case (Reject_PDU src i reason)
    have "\<exists>x. look_up (R_Failure src) i w = Some x" if "report_failure ops src i w = Some w'"
      using that look_up_defined by (auto simp: report_failure_def split: Option.bind_splits)
    with assms(1) Reject_PDU failure_run [of ops src i w w'] show ?thesis
      by (auto simp: MyRejectHandler_def split: if_splits)
  qed
  then obtain x where x: "start ops t e w = Some x"
    "steps ops t excl (move_rcv x s) (move_rcv (R_Idle, w') s)" by blast
  from message [of "move_rcv (R_Idle, w) s" e ops t x excl] assms(2) x(1)
  have "step ops t excl (move_rcv (R_Idle, w) s) (move_rcv x s)" by simp
  with x(2) show ?thesis by (rule converse_rtranclp_into_rtranclp [rotated])
qed

lemma handle_all_run:
  "handle_all ops t es w = Some w' \<Longrightarrow> list_all event_wf es \<Longrightarrow>
   steps ops t excl (move_rcv (R_Idle, w) s) (move_rcv (R_Idle, w') s)"
proof (induction es arbitrary: w)
  case (Cons e es)
  then obtain w1 where "handle ops t e w = Some w1" "handle_all ops t es w1 = Some w'"
    by (auto split: Option.bind_splits)
  with Cons handle_run [of ops t e w w1 excl s] show ?case by (auto intro: rtranclp_trans)
qed simp

section \<open>One call\<close>

text \<open>A call of thread \<open>c\<close>, with the receive thread idle between messages.\<close>

lemma caller_step:
  "advance ops (reqs s c) pc w = Some x \<Longrightarrow> steps ops t excl (move c x s) z \<Longrightarrow>
   steps ops t excl (move c (pc, w) s) z"
  using go_on [of ops "move c (pc, w) s" c x t excl] by (auto intro: converse_rtranclp_into_rtranclp)

lemma meanwhile:
  assumes "handle_all ops t es w = Some w'" and "list_all event_wf es" and "rcv s = R_Idle"
    and "steps ops t excl (move c (pc, w') s) z"
  shows "steps ops t excl (move c (pc, w) s) z"
proof -
  have "move_rcv (R_Idle, w'') (move c (pc, w) s) = move c (pc, w'') s" for w''
    using move_move_rcv [of s w'' c pc w] assms(3) by simp
  with handle_all_run [OF assms(1,2), of excl "move c (pc, w) s"] assms(4)
  show ?thesis by (auto intro: rtranclp_trans)
qed

lemma bind_run:
  assumes "find_and_bind ops t env p (rq_port (reqs s c)) (rq_device (reqs s c)) w = Some (b, w')"
    and "list_all event_wf (bind_events env)" and "rcv s = R_Idle"
    and "rq_elapsed (reqs s c) = current_seconds env - last_seconds env"
  shows "steps ops t excl (move c (Binding p, w) s)
    (move c (if b then Bound p else Leaving p (failed (reqs s c)), w') s)"
proof -
  let ?q = "reqs s c" and ?d = "rq_device (reqs s c)"
  let ?w = "if datalink ops = BACDL_BIP then stack_call (bip_set_port ops (htons (rq_port ?q))) w else w"
  show ?thesis
  proof (cases "BACNET_MAX_INSTANCE ops < ?d")
    case True
    with assms(1) show ?thesis by (auto simp: find_and_bind_def intro!: caller_step)
  next
    case False
    with assms(1) obtain found w1 where b1: "bind_request ops ?d p ?w = Some (found, w1)"
      by (auto simp: find_and_bind_def Let_def split: Option.bind_splits)
    show ?thesis
    proof (cases found)
      case True
      with assms(1) False b1 have "b" "w' = w1" by (auto simp: find_and_bind_def Let_def)
      moreover have "advance ops ?q (Binding p) w = Some (Bound p, w1)" using False True b1
        by (simp add: Let_def)
      ultimately show ?thesis by (auto intro!: caller_step)
    next
      case nf: False
      with assms(1) False b1 obtain w2 m w3 w4 w5 w6 w7 d where
        w2: "dcm_set_world ?d (Some zero_address) w1 = Some w2"
        and w3: "dcm_get_world ?d w2 = Some (m, w3)" and w4: "dcm_lock m w3 = Some w4"
        and w5: "dcm_timedwait ops t (bind_events env) m (stack_call (Send_WhoIs ops ?d ?d) w4) = Some w5"
        and w6: "dcm_unlock m w5 = Some w6" and w7: "dcm_remove_world ?d w6 = Some w7"
        and d: "rd_read p w7 = Some d"
        and r: "(if rd_errorDetected d then Some (False, w7)
          else rebind ops (current_seconds env - last_seconds env) p ?d w7) = Some (b, w')"
        by (auto simp: find_and_bind_def Let_def split: Option.bind_splits)
      from w5 obtain u v where u: "dcm_unlock m (stack_call (Send_WhoIs ops ?d ?d) w4) = Some u"
        and v: "handle_all ops t (bind_events env) u = Some v" and w5': "dcm_lock m v = Some w5"
        by (auto simp: dcm_timedwait_def split: Option.bind_splits)
      let ?z = "move c (if b then Bound p else Leaving p (failed ?q), w') s"
      have "steps ops t excl (move c (Wait_Removed p, w7) s) ?z"
      proof (cases "rd_errorDetected d")
        case True
        with d r show ?thesis by (auto intro!: caller_step)
      next
        case ne: False
        with d r have "advance ops ?q (Rebinding p) w7 = Some (if b then Bound p else Leaving p (failed ?q), w')"
          using assms(4) by simp
        moreover have "advance ops ?q (Wait_Removed p) w7 = Some (Rebinding p, w7)" using d ne by simp
        ultimately show ?thesis by (auto intro!: caller_step)
      qed
      then have "steps ops t excl (move c (Wait_Over p m, w6) s) ?z"
        by (rule caller_step [rotated]) (simp add: w7)
      then have "steps ops t excl (move c (Wait_Woken p m, w5) s) ?z"
        by (rule caller_step [rotated]) (simp add: w6)
      then have "steps ops t excl (move c (Wait_Blocked p m, v) s) ?z"
        by (rule caller_step [rotated]) (simp add: w5')
      with v assms(2,3) have "steps ops t excl (move c (Wait_Blocked p m, u) s) ?z"
        by (rule meanwhile)
      then have "steps ops t excl (move c (Wait_Locked p m, w4) s) ?z"
        by (rule caller_step [rotated]) (simp add: u Let_def)
      then have "steps ops t excl (move c (Wait_Found p m, w3) s) ?z"
        by (rule caller_step [rotated]) (simp add: w4)
      then have "steps ops t excl (move c (Wait_Added p, w2) s) ?z"
        by (rule caller_step [rotated]) (simp add: w3)
      moreover have "advance ops ?q (Binding p) w = Some (Wait_Added p, w2)" using False nf b1 w2
        by (simp add: Let_def)
      ultimately show ?thesis by (rule caller_step [rotated])
    qed
  qed
qed

lemma reply_run:
  assumes "rd_lock p w = Some w1" and "send_request (rq_send (reqs s c)) p w1 = Some w2"
    and "wait_for_data ops t env p w2 = Some (ok, w3)"
    and "list_all event_wf (reply_events env)" and "rcv s = R_Idle" and "rq_kind (reqs s c) \<noteq> Who_Is"
  shows "steps ops t excl (move c (Bound p, w) s) (move c (Call_Over p, w3) s) \<and>
    (\<exists>d. rd_read p w3 = Some d \<and> ok = (\<not> rd_errorDetected d))"
proof -
  from assms(3) obtain u v x where u: "rd_unlock p w2 = Some u"
    and v: "handle_all ops t (reply_events env) u = Some v" and x: "rd_lock p v = Some x"
    and w3: "rd_unlock p x = Some w3" and d: "\<exists>d. rd_read p w3 = Some d \<and> ok = (\<not> rd_errorDetected d)"
    using timeout_seconds_nonneg [of ops]
    by (auto simp: wait_for_data_def rd_timedwait_def not_less [symmetric] split: Option.bind_splits if_splits)
  let ?z = "move c (Call_Over p, w3) s"
  have "steps ops t excl (move c (Call_Woken p, x) s) ?z"
    by (rule caller_step [where x = "(Call_Over p, w3)"]) (simp_all add: w3)
  then have "steps ops t excl (move c (Call_Blocked p, v) s) ?z"
    by (rule caller_step [rotated]) (simp add: x)
  with v assms(4,5) have "steps ops t excl (move c (Call_Blocked p, u) s) ?z" by (rule meanwhile)
  then have "steps ops t excl (move c (Call_Sent p, w2) s) ?z"
    by (rule caller_step [rotated]) (simp add: u)
  then have "steps ops t excl (move c (Call_Locked p, w1) s) ?z"
    by (rule caller_step [rotated]) (simp add: assms(2,6))
  then have "steps ops t excl (move c (Bound p, w) s) ?z"
    by (rule caller_step [rotated]) (simp add: assms(1))
  with d show ?thesis by blast
qed

text \<open>The arguments of a read and of a write as a \<open>request\<close>.\<close>

definition read_request ::
    "'k bacnet_stack \<Rightarrow> u32 \<Rightarrow> u32 \<Rightarrow> u32 \<Rightarrow> u32 \<Rightarrow> u32 \<Rightarrow> u16 \<Rightarrow> call_env \<Rightarrow> 'k request" where
  "read_request ops dev ty inst pr idx port env =
     \<lparr>rq_device = dev, rq_port = port, rq_send = Send_Read_Property_Request ops dev ty inst pr idx,
      rq_kind = Read, rq_elapsed = current_seconds env - last_seconds env\<rparr>"

definition write_request ::
    "'k bacnet_stack \<Rightarrow> u32 \<Rightarrow> u32 \<Rightarrow> u32 \<Rightarrow> u32 \<Rightarrow> u32 \<Rightarrow> u16 \<Rightarrow> u8 \<Rightarrow> app_value \<Rightarrow> call_env \<Rightarrow> 'k request" where
  "write_request ops dev ty inst pr idx port priority v env =
     \<lparr>rq_device = dev, rq_port = port,
      rq_send = Send_Write_Property_Request ops dev ty inst pr v priority idx,
      rq_kind = Write, rq_elapsed = current_seconds env - last_seconds env\<rparr>"

lemma call_step:
  assumes "pcs s c = Out r" and "excl \<Longrightarrow> alone_with s c (rq_device q)"
    and "rd_set_world (asked_id q) (mem s) = Some (p, w)"
    and "steps ops t excl (move c (Added p, w) (s\<lparr>reqs := (reqs s)(c := q)\<rparr>)) z"
  shows "steps ops t excl s z"
  using step.call [where ops = ops and t = t and excl = excl, OF assms(1,2,3)] assms(4)
  by (rule converse_rtranclp_into_rtranclp)

lemma leave_run:
  assumes "rd_remove_world p w = Some w'"
  shows "steps ops t excl (move c (Leaving p r, w) s) (move c (Out r, w') s)"
  by (rule caller_step [where x = "(Out r, w')"]) (simp_all add: assms)

lemma read_run:
  assumes "bacnetReadProperty ops t env dev ty inst pr idx port (mem s) = Some (ret, w')"
    and "pcs s c = Out r" and "rcv s = R_Idle" and "excl \<Longrightarrow> alone_with s c dev"
    and "list_all event_wf (bind_events env)" and "list_all event_wf (reply_events env)"
  shows "steps ops t excl s (move c (Out (Value ret), w')
    (s\<lparr>reqs := (reqs s)(c := read_request ops dev ty inst pr idx port env)\<rparr>))"
proof -
  let ?q = "read_request ops dev ty inst pr idx port env"
  let ?s = "s\<lparr>reqs := (reqs s)(c := ?q)\<rparr>"
  have q [simp]: "rq_device ?q = dev" "rq_port ?q = port" "rq_kind ?q = Read"
    "rq_send ?q = Send_Read_Property_Request ops dev ty inst pr idx"
    "rq_elapsed ?q = current_seconds env - last_seconds env"
    by (simp_all add: read_request_def)
  let ?z = "move c (Out (Value ret), w') ?s"
  from assms(1) obtain p w1 bound w2 where
    w1: "rd_set_world 0 (mem s) = Some (p, w1)" and b: "find_and_bind ops t env p port dev w1 = Some (bound, w2)"
    by (auto simp: bacnetReadProperty_def split: Option.bind_splits)
  from bind_run [of ops t env p ?s c w1 bound w2 excl] b assms(3,5)
  have br: "steps ops t excl (move c (Binding p, w1) ?s)
    (move c (if bound then Bound p else Leaving p (Value NULL), w2) ?s)" by (simp add: failed_def split: if_splits)
  have "steps ops t excl (move c (if bound then Bound p else Leaving p (Value NULL), w2) ?s) ?z"
  proof (cases bound)
    case False
    with assms(1) w1 b have "ret = NULL" "rd_remove_world p w2 = Some w'"
      by (auto simp: bacnetReadProperty_def split: Option.bind_splits)
    with False leave_run show ?thesis by auto
  next
    case True
    with assms(1) w1 b obtain w3 w4 ok w5 d where l: "rd_lock p w2 = Some w3"
      and sd: "send_request (Send_Read_Property_Request ops dev ty inst pr idx) p w3 = Some w4"
      and wt: "wait_for_data ops t env p w4 = Some (ok, w5)"
      and d: "rd_read p w5 = Some d" "rd_remove_world p w5 = Some w'" "ret = rd_value d"
      by (auto simp: bacnetReadProperty_def send_request_def Let_def split: Option.bind_splits prod.splits)
    from reply_run [of p w2 w3 ?s c w4 ops t env ok w5 excl] l sd wt assms(3,6)
    have rr: "steps ops t excl (move c (Bound p, w2) ?s) (move c (Call_Over p, w5) ?s)" by simp
    have "steps ops t excl (move c (Call_Over p, w5) ?s) ?z"
      by (rule caller_step [where x = "(Leaving p (Value ret), w5)"]) (simp_all add: d leave_run)
    with rr True show ?thesis by (auto intro: rtranclp_trans)
  qed
  with br have "steps ops t excl (move c (Binding p, w1) ?s) ?z" by (rule rtranclp_trans)
  then have "steps ops t excl (move c (Added p, w1) ?s) ?z"
    by (rule caller_step [rotated]) simp
  with assms(2) w1 show ?thesis
    using call_step [of s c r excl ?q p w1 ops t ?z] assms(4) by (simp add: asked_id_def)
qed

lemma write_run:
  assumes "bacnetWriteProperty ops t env dev ty inst pr idx port priority v (mem s) = Some (ret, w')"
    and "pcs s c = Out r" and "rcv s = R_Idle" and "excl \<Longrightarrow> alone_with s c dev"
    and "list_all event_wf (bind_events env)" and "list_all event_wf (reply_events env)"
  shows "steps ops t excl s (move c (Out (Code ret), w')
    (s\<lparr>reqs := (reqs s)(c := write_request ops dev ty inst pr idx port priority v env)\<rparr>))"
proof -
  let ?q = "write_request ops dev ty inst pr idx port priority v env"
  let ?s = "s\<lparr>reqs := (reqs s)(c := ?q)\<rparr>"
  have q [simp]: "rq_device ?q = dev" "rq_port ?q = port" "rq_kind ?q = Write"
    "rq_send ?q = Send_Write_Property_Request ops dev ty inst pr v priority idx"
    "rq_elapsed ?q = current_seconds env - last_seconds env"
    by (simp_all add: write_request_def)
  let ?z = "move c (Out (Code ret), w') ?s"
  from assms(1) obtain p w0 w1 bound w2 where w0: "rd_set_world 0 (mem s) = Some (p, w0)"
    and w1: "rd_write p (rd_errorDetected_update (\<lambda>_. False)) w0 = Some w1"
    and b: "find_and_bind ops t env p port dev w1 = Some (bound, w2)"
    by (auto simp: bacnetWriteProperty_def split: Option.bind_splits)
  from bind_run [of ops t env p ?s c w1 bound w2 excl] b assms(3,5)
  have br: "steps ops t excl (move c (Binding p, w1) ?s)
    (move c (if bound then Bound p else Leaving p (Code 1), w2) ?s)" by (simp add: failed_def split: if_splits)
  have "steps ops t excl (move c (if bound then Bound p else Leaving p (Code 1), w2) ?s) ?z"
  proof (cases bound)
    case False
    with assms(1) w0 w1 b have "ret = 1" "rd_remove_world p w2 = Some w'"
      by (auto simp: bacnetWriteProperty_def split: Option.bind_splits)
    with False leave_run show ?thesis by auto
  next
    case True
    with assms(1) w0 w1 b obtain w3 w4 ok w5 where l: "rd_lock p w2 = Some w3"
      and sd: "send_request (Send_Write_Property_Request ops dev ty inst pr v priority idx) p w3 = Some w4"
      and wt: "wait_for_data ops t env p w4 = Some (ok, w5)"
      and e: "(if \<not> ok then Some (1, w5) else do { w \<leftarrow> rd_remove_world p w5; Some (0, w) }) = Some (ret, w')"
      by (auto simp: bacnetWriteProperty_def send_request_def Let_def split: Option.bind_splits prod.splits)
    from reply_run [of p w2 w3 ?s c w4 ops t env ok w5 excl] l sd wt assms(3,6)
    have rr: "steps ops t excl (move c (Bound p, w2) ?s) (move c (Call_Over p, w5) ?s)"
      and d: "\<exists>d. rd_read p w5 = Some d \<and> ok = (\<not> rd_errorDetected d)" by simp_all
    have "steps ops t excl (move c (Call_Over p, w5) ?s) ?z"
    proof (cases ok)
      case False
      with d e have "advance ops ?q (Call_Over p) w5 = Some (Out (Code ret), w')" by auto
      then show ?thesis by (intro r_into_rtranclp) (use go_on [of ops "move c (Call_Over p, w5) ?s" c "(Out (Code ret), w')" t excl] in simp)
    next
      case ok: True
      with e have "rd_remove_world p w5 = Some w'" "ret = 0" by (auto split: Option.bind_splits)
      moreover from d ok have "advance ops ?q (Call_Over p) w5 = Some (Leaving p (Code 0), w5)" by auto
      ultimately show ?thesis using leave_run [of p w5 w' ops t excl c "Code 0" ?s]
        by - (rule caller_step [where x = "(Leaving p (Code 0), w5)"], simp_all)
    qed
    with rr True show ?thesis by (auto intro: rtranclp_trans)
  qed
  with br have "steps ops t excl (move c (Binding p, w1) ?s) ?z" by (rule rtranclp_trans)
  then have "steps ops t excl (move c (Added p, w0) ?s) ?z"
    by (rule caller_step [rotated]) (simp add: w1)
  with assms(2) w0 show ?thesis
    using call_step [of s c r excl ?q p w0 ops t ?z] assms(4) by (simp add: asked_id_def)
qed

text \<open>A Who-Is is given the number of a device that no other call uses.\<close>

definition whois_request :: "u32 \<Rightarrow> 'k request" where
  "whois_request dev = \<lparr>rq_device = dev, rq_port = 0, rq_send = Pair 0, rq_kind = Who_Is, rq_elapsed = 0\<rparr>"

lemma whois_run:
  assumes "bacnetWhoIs ops t env (mem s) = Some (tbl, w')"
    and "pcs s c = Out r" and "rcv s = R_Idle" and "excl \<Longrightarrow> alone_with s c dev"
    and "list_all event_wf (reply_events env)"
  shows "steps ops t excl s (move c (Out Table, w') (s\<lparr>reqs := (reqs s)(c := whois_request dev)\<rparr>)) \<and>
    tbl = addressEntryHead w'"
proof -
  let ?q = "whois_request dev"
  let ?s = "s\<lparr>reqs := (reqs s)(c := ?q)\<rparr>"
  let ?net = "Send_WhoIs_To_Network ops (datalink_get_broadcast_address ops) (-1) (-1)"
  let ?port = "\<lambda>w. if datalink ops = BACDL_BIP then stack_call (bip_set_port ops (htons 0xBAC0)) w else w"
  have q [simp]: "rq_device ?q = dev" "rq_kind ?q = Who_Is" by (simp_all add: whois_request_def)
  let ?z = "move c (Out Table, w') ?s"
  from assms(1) obtain p w0 w1 w2 w3 w4 where w0: "rd_set_world 255 (mem s) = Some (p, w0)"
    and w1: "rd_write p (rd_errorDetected_update (\<lambda>_. False)) w0 = Some w1"
    and w2: "rd_lock p (?port w1) = Some w2"
    and w3: "rd_timedwait ops t (reply_events env) p (stack_call ?net w2) = Some w3"
    and w4: "rd_unlock p w3 = Some w4" and w': "rd_remove_world p w4 = Some w'"
    and tbl: "tbl = addressEntryHead w'"
    by (auto simp: bacnetWhoIs_def Let_def split: Option.bind_splits)
  from w3 obtain u v where u: "rd_unlock p (stack_call ?net w2) = Some u"
    and v: "handle_all ops t (reply_events env) u = Some v" and x: "rd_lock p v = Some w3"
    by (auto simp: rd_timedwait_def split: Option.bind_splits)
  have "steps ops t excl (move c (Leaving p Table, w4) ?s) ?z" by (rule leave_run [OF w'])
  then have "steps ops t excl (move c (Call_Over p, w4) ?s) ?z" by (rule caller_step [rotated]) simp
  then have "steps ops t excl (move c (Call_Woken p, w3) ?s) ?z" by (rule caller_step [rotated]) (simp add: w4)
  then have "steps ops t excl (move c (Call_Blocked p, v) ?s) ?z" by (rule caller_step [rotated]) (simp add: x)
  then have "steps ops t excl (move c (Call_Blocked p, u) ?s) ?z"
    using meanwhile [OF v assms(5), of ?s excl c "Call_Blocked p" ?z] assms(3) by simp
  then have "steps ops t excl (move c (Call_Sent p, stack_call ?net w2) ?s) ?z"
    by (rule caller_step [rotated]) (simp add: u)
  then have "steps ops t excl (move c (Call_Locked p, w2) ?s) ?z" by (rule caller_step [rotated]) simp
  then have "steps ops t excl (move c (Bound p, ?port w1) ?s) ?z"
    by (rule caller_step [rotated]) (simp only: advance.simps w2 Option.bind_lunit)
  then have "steps ops t excl (move c (Added p, w0) ?s) ?z" by (rule caller_step [rotated]) (simp add: w1)
  with assms(2) w0 tbl show ?thesis
    using call_step [of s c r excl ?q p w0 ops t ?z] assms(4) by (simp add: asked_id_def)
qed

end
