(* ===== verification/Interleaving.thy ===== *)
theory Interleaving
  imports Ownership Uninterrupted
begin

text \<open>
  What holds in every state the threads can reach, however their steps are interleaved.
\<close>

section \<open>Ownership of list entries\<close>

text \<open>
  \<open>own c\<close> is the entry of thread \<open>c\<close>, \<open>held c\<close> the one whose mutex it holds, \<open>rh\<close> the one whose
  mutex the receive thread holds; all addresses ever used are below \<open>b\<close>. The entry of \<open>rh\<close> may
  be gone.
\<close>

definition owned :: "(ptr \<times> 'd) list \<Rightarrow> ('d \<Rightarrow> bool) \<Rightarrow> (nat \<Rightarrow> ptr option) \<Rightarrow> (nat \<Rightarrow> ptr option) \<Rightarrow>
    ptr option \<Rightarrow> ptr \<Rightarrow> bool" where
  "owned xs mx own held rh b \<longleftrightarrow>
     (\<forall>c p. own c = Some p \<longrightarrow> p \<in> fst ` set xs) \<and>
     (\<forall>c c' p. own c = Some p \<longrightarrow> own c' = Some p \<longrightarrow> c = c') \<and>
     (\<forall>c p. held c = Some p \<longrightarrow> own c = Some p \<and> rh \<noteq> Some p) \<and>
     (\<forall>p d. map_of xs p = Some d \<longrightarrow> mx d = ((\<exists>c. held c = Some p) \<or> rh = Some p)) \<and>
     (\<forall>p. rh = Some p \<longrightarrow> p < b)"

lemma ownedD:
  assumes "owned xs mx own held rh b"
  shows "own c = Some p \<Longrightarrow> p \<in> fst ` set xs"
    and "own c = Some p \<Longrightarrow> own c' = Some p \<Longrightarrow> c = c'"
    and "held c = Some p \<Longrightarrow> own c = Some p" and "held c = Some p \<Longrightarrow> rh \<noteq> Some p"
    and "map_of xs p = Some d \<Longrightarrow> mx d = ((\<exists>c. held c = Some p) \<or> rh = Some p)"
    and "rh = Some p \<Longrightarrow> p < b"
  using assms unfolding owned_def by blast+

lemma ownedI:
  assumes "\<And>c p. own c = Some p \<Longrightarrow> p \<in> fst ` set xs"
    and "\<And>c c' p. own c = Some p \<Longrightarrow> own c' = Some p \<Longrightarrow> c = c'"
    and "\<And>c p. held c = Some p \<Longrightarrow> own c = Some p" and "\<And>c p. held c = Some p \<Longrightarrow> rh \<noteq> Some p"
    and "\<And>p d. map_of xs p = Some d \<Longrightarrow> mx d = ((\<exists>c. held c = Some p) \<or> rh = Some p)"
    and "\<And>p. rh = Some p \<Longrightarrow> p < b"
  shows "owned xs mx own held rh b"
  unfolding owned_def using assms(4,5,6) by (intro conjI allI impI) (auto intro: assms(1-3))

lemma map_of_map_entry_cases:
  assumes "map_of (AList.map_entry p f xs) q = Some d"
  obtains d0 where "q = p" and "map_of xs p = Some d0" and "d = f d0"
    | "q \<noteq> p" and "map_of xs q = Some d"
  using assms by (cases "q = p") (auto simp: map_of_map_entry_other)

lemma owned_touch:
  assumes o: "owned xs mx own held rh b" and "\<forall>d. mx (f d) = mx d"
  shows "owned (AList.map_entry p f xs) mx own held rh b"
proof (rule ownedI)
  show "mx e = ((\<exists>c. held c = Some q) \<or> rh = Some q)" if "map_of (AList.map_entry p f xs) q = Some e" for q e
    using that assms(2) ownedD(5) [OF o] by (cases rule: map_of_map_entry_cases) simp_all
qed (use ownedD [OF o] in \<open>simp_all\<close>)

lemma owned_lock:
  assumes o: "owned xs mx own held rh b" and "own c = Some p"
    and free: "\<forall>d. map_of xs p = Some d \<longrightarrow> \<not> mx d" and "\<forall>d. mx (f d)"
  shows "owned (AList.map_entry p f xs) mx own (held(c := Some p)) rh b"
proof -
  from ownedD(1) [OF o assms(2)] obtain d where d: "map_of xs p = Some d"
    by (metis map_of_eq_None_iff not_None_eq)
  with free have "\<not> mx d" by simp
  with ownedD(5) [OF o d] have n: "\<forall>c. held c \<noteq> Some p" "rh \<noteq> Some p" by auto
  have h: "held c = None"
    using ownedD(3) [OF o, of c] assms(2) n(1) by (cases "held c") auto
  show ?thesis
  proof (rule ownedI)
    fix q e
    assume "map_of (AList.map_entry p f xs) q = Some e"
    then show "mx e = ((\<exists>c'. (held(c := Some p)) c' = Some q) \<or> rh = Some q)"
    proof (cases rule: map_of_map_entry_cases)
      case 2
      with ownedD(5) [OF o 2(2)] h show ?thesis by (metis fun_upd_apply option.distinct(1) option.inject)
    qed (use assms(4) in auto)
  qed (use ownedD [OF o] assms(2) n in \<open>auto split: if_splits\<close>)
qed

lemma owned_unlock:
  assumes o: "owned xs mx own held rh b" and "held c = Some p" and "\<forall>d. \<not> mx (f d)"
  shows "owned (AList.map_entry p f xs) mx own (held(c := None)) rh b"
proof -
  have own: "own c = Some p" "rh \<noteq> Some p" using ownedD(3,4) [OF o assms(2)] by auto
  have n: "c' = c" if "held c' = Some p" for c'
    using ownedD(2,3) [OF o] own that by blast
  show ?thesis
  proof (rule ownedI)
    fix q e
    assume "map_of (AList.map_entry p f xs) q = Some e"
    then show "mx e = ((\<exists>c'. (held(c := None)) c' = Some q) \<or> rh = Some q)"
    proof (cases rule: map_of_map_entry_cases)
      case 2
      with ownedD(5) [OF o 2(2)] assms(2) show ?thesis
        by (metis fun_upd_apply option.distinct(1) option.inject)
    qed (use assms(3) n own in auto)
  qed (use ownedD [OF o] in \<open>auto split: if_splits\<close>)
qed

lemma owned_rlock:
  assumes o: "owned xs mx own held None b" and "p < b"
    and free: "\<forall>d. map_of xs p = Some d \<longrightarrow> \<not> mx d" and "\<forall>d. mx (f d)"
  shows "owned (AList.map_entry p f xs) mx own held (Some p) b"
proof (rule ownedI)
  show "Some p \<noteq> Some q" if "held c = Some q" for c q
  proof
    assume "Some p = Some q"
    with that have h: "held c = Some p" by simp
    from ownedD(1) [OF o ownedD(3) [OF o h]] obtain d where "map_of xs p = Some d"
      by (metis map_of_eq_None_iff not_None_eq)
    with free ownedD(5) [OF o, of p d] h show False by auto
  qed
  fix q e
  assume "map_of (AList.map_entry p f xs) q = Some e"
  then show "mx e = ((\<exists>c. held c = Some q) \<or> Some p = Some q)"
    using assms(4) ownedD(5) [OF o] by (cases rule: map_of_map_entry_cases) auto
qed (use ownedD [OF o] assms(2) in auto)

lemma owned_runlock:
  assumes o: "owned xs mx own held (Some p) b" and "\<forall>d. \<not> mx (f d)"
  shows "owned (AList.map_entry p f xs) mx own held None b"
proof (rule ownedI)
  fix q e
  assume "map_of (AList.map_entry p f xs) q = Some e"
  then show "mx e = ((\<exists>c. held c = Some q) \<or> None = Some q)"
  proof (cases rule: map_of_map_entry_cases)
    case (1 d)
    have "held c \<noteq> Some p" for c using ownedD(4) [OF o, of c p] by auto
    with 1 assms(2) show ?thesis by simp
  next
    case 2
    with ownedD(5) [OF o 2(2)] show ?thesis by simp
  qed
qed (use ownedD [OF o] in auto)

lemma owned_push:
  assumes o: "owned xs mx own held rh b" and new: "p \<notin> fst ` set xs" and "rh \<noteq> Some p" and "b \<le> b'"
    and "\<not> mx d"
  shows "owned ((p, d) # xs) mx own held rh b'"
proof (rule ownedI)
  fix q e
  assume "map_of ((p, d) # xs) q = Some e"
  then consider "q = p" "e = d" | "map_of xs q = Some e" by (cases "q = p") simp_all
  then show "mx e = ((\<exists>c'. held c' = Some q) \<or> rh = Some q)"
  proof cases
    case 1
    have "held c \<noteq> Some p" for c using ownedD(1) [OF o ownedD(3) [OF o]] new by blast
    with 1 assms(3,5) show ?thesis by simp
  qed (use ownedD(5) [OF o] in blast)
next
  show "q \<in> fst ` set ((p, d) # xs)" if "own c = Some q" for c q using ownedD(1) [OF o that] by simp
  show "q < b'" if "rh = Some q" for q using ownedD(6) [OF o that] assms(4) by simp
qed (use ownedD(2-4) [OF o] in blast)+

text \<open>A thread gets an entry nobody owns, or gives up its own.\<close>

lemma owned_take:
  assumes o: "owned xs mx own held rh b" and "p \<in> fst ` set xs" and "\<forall>c'. own c' \<noteq> Some p" and "own c = None"
  shows "owned xs mx (own(c := Some p)) held rh b"
proof (rule ownedI)
  have "held c = None" using ownedD(3) [OF o, of c] assms(4) by (cases "held c") auto
  then show "(own(c := Some p)) c' = Some q" if "held c' = Some q" for c' q
    using ownedD(3) [OF o that] that by auto
qed (use ownedD [OF o] assms(2,3) in \<open>auto split: if_splits\<close>)

lemma owned_leave:
  assumes o: "owned xs mx own held rh b" and "held c = None"
  shows "owned xs mx (own(c := None)) held rh b"
proof (rule ownedI)
  show "(own(c := None)) c' = Some q" if "held c' = Some q" for c' q
    using ownedD(3) [OF o that] that assms(2) by auto
qed (use ownedD [OF o] in \<open>auto split: if_splits\<close>)

lemma owned_delete:
  assumes o: "owned xs mx own held rh b" and "own c = Some p" and "held c = None"
  shows "owned (AList.delete p xs) mx (own(c := None)) held rh b"
proof (rule ownedI)
  show "q \<in> fst ` set (AList.delete p xs)" if "(own(c := None)) c' = Some q" for c' q
    using ownedD(1) [OF o, of c' q] ownedD(2) [OF o assms(2), of c'] that
    by (auto simp: AList.delete_eq split: if_splits)
  show "mx e = ((\<exists>c. held c = Some q) \<or> rh = Some q)" if "map_of (AList.delete p xs) q = Some e" for q e
    using that ownedD(5) [OF o, of q e] by (auto simp: delete_conv' split: if_splits)
  show "(own(c := None)) c' = Some q" if "held c' = Some q" for c' q
    using ownedD(3) [OF o that] that assms(3) by auto
qed (use ownedD [OF o] in \<open>auto split: if_splits\<close>)

text \<open>What the owner finds.\<close>

lemma owned_entry:
  assumes o: "owned xs mx own held rh b" and "own c = Some p"
  shows "\<exists>d. map_of xs p = Some d \<and> mx d = (held c = Some p \<or> rh = Some p)"
proof -
  from ownedD(1) [OF o assms(2)] obtain d where d: "map_of xs p = Some d"
    by (metis map_of_eq_None_iff not_None_eq)
  have "c' = c" if "held c' = Some p" for c' using ownedD(2,3) [OF o] assms(2) that by blast
  with ownedD(5) [OF o d] d show ?thesis by auto
qed

section \<open>Devices that are waited for\<close>

text \<open>
  With one call per device: every entry of the list belongs to the one waiting thread that calls
  its device. \<open>wt c\<close>: thread \<open>c\<close> has put its entry on the list; \<open>wo c\<close>: the entry it found.
\<close>

definition devices :: "(ptr \<times> u32 \<times> bacnet_address option) list \<Rightarrow> (nat \<Rightarrow> bool) \<Rightarrow> (nat \<Rightarrow> ptr option) \<Rightarrow>
    (nat \<Rightarrow> bool) \<Rightarrow> (nat \<Rightarrow> u32) \<Rightarrow> bool" where
  "devices ks wt wo act dv \<longleftrightarrow>
     distinct (map (fst \<circ> snd) ks) \<and>
     (\<forall>m i a. (m, i, a) \<in> set ks \<longrightarrow> a \<noteq> None \<and> (\<exists>c. wt c \<and> dv c = i)) \<and>
     (\<forall>c. wt c \<longrightarrow> (\<exists>m a. (m, dv c, a) \<in> set ks \<and> (wo c = None \<or> wo c = Some m))) \<and>
     (\<forall>c. wo c \<noteq> None \<longrightarrow> wt c) \<and>
     (\<forall>c. wt c \<longrightarrow> act c) \<and>
     (\<forall>c c'. act c \<longrightarrow> act c' \<longrightarrow> dv c = dv c' \<longrightarrow> c = c')"

lemma devicesD:
  assumes "devices ks wt wo act dv"
  shows "distinct (map (fst \<circ> snd) ks)"
    and "(m, i, a) \<in> set ks \<Longrightarrow> a \<noteq> None" and "(m, i, a) \<in> set ks \<Longrightarrow> \<exists>c. wt c \<and> dv c = i"
    and "wt c \<Longrightarrow> \<exists>m a. (m, dv c, a) \<in> set ks \<and> (wo c = None \<or> wo c = Some m)"
    and "wo c \<noteq> None \<Longrightarrow> wt c" and "wt c \<Longrightarrow> act c"
    and "act c \<Longrightarrow> act c' \<Longrightarrow> dv c = dv c' \<Longrightarrow> c = c'"
  using assms unfolding devices_def by blast+

lemma devicesI:
  assumes "distinct (map (fst \<circ> snd) ks)"
    and "\<And>m i a. (m, i, a) \<in> set ks \<Longrightarrow> a \<noteq> None \<and> (\<exists>c. wt c \<and> dv c = i)"
    and "\<And>c. wt c \<Longrightarrow> \<exists>m a. (m, dv c, a) \<in> set ks \<and> (wo c = None \<or> wo c = Some m)"
    and "\<And>c. wo c \<noteq> None \<Longrightarrow> wt c" and "\<And>c. wt c \<Longrightarrow> act c"
    and "\<And>c c'. act c \<Longrightarrow> act c' \<Longrightarrow> dv c = dv c' \<Longrightarrow> c = c'"
  shows "devices ks wt wo act dv"
  unfolding devices_def by (intro conjI allI impI) (metis assms)+

lemma keys_of_waits: "(m, i, a) \<in> set (wait_keys A) \<longleftrightarrow>
    (\<exists>d. (m, d) \<in> set (waits A) \<and> dcm_device_id d = i \<and> dcm_address d = a)"
  by (force simp: wait_key_def)

lemma wait_keys_fst: "fst ` set (wait_keys A) = fst ` set (waits A)"
  by force

lemma keys_unique:
  assumes "distinct (map (fst \<circ> snd) ks)" and "(m, i, a) \<in> set ks" and "(m', i, a') \<in> set ks"
  shows "m = m' \<and> a = a'"
proof -
  have "inj_on (fst \<circ> snd) (set ks)" using assms(1) by (simp add: distinct_map)
  from inj_onD [OF this _ assms(2,3)] show ?thesis by simp
qed

text \<open>The lookup by device number finds the entry of the thread that waits for the device.\<close>

lemma first_match_by_key:
  "(m, dev, a) \<in> set (map (\<lambda>(p, d). (p, wait_key d)) r) \<Longrightarrow> a \<noteq> None \<Longrightarrow>
   distinct (map (fst \<circ> snd) (map (\<lambda>(p, d). (p, wait_key d)) r)) \<Longrightarrow> first_match (dcm_is dev) r = m"
proof (induction r)
  case (Cons x r)
  obtain p d where x: "x = (p, d)" by fastforce
  show ?case
  proof (cases "dcm_is dev d")
    case True
    then have "(p, dev, dcm_address d) \<in> set (map (\<lambda>(p, d). (p, wait_key d)) (x # r))"
      using x by (auto simp: wait_key_def)
    from keys_unique [OF Cons.prems(3,1) this] x True show ?thesis by simp
  next
    case False
    then have "(m, dev, a) \<noteq> (p, wait_key d)" using Cons.prems(2) by (auto simp: wait_key_def)
    with Cons.prems(1) x have "(m, dev, a) \<in> set (map (\<lambda>(p, d). (p, wait_key d)) r)" by auto
    from Cons.IH [OF this Cons.prems(2)] Cons.prems(3) x False show ?thesis by auto
  qed
qed simp

lemma wait_for_mine:
  assumes d: "devices (wait_keys A) wt wo act dv" and "wt c"
  shows "\<exists>m a. (m, dv c, a) \<in> set (wait_keys A) \<and> wait_for (dv c) A = m \<and> (wo c = None \<or> wo c = Some m)"
proof -
  from devicesD(4) [OF d, of c] assms(2) obtain m a where m: "(m, dv c, a) \<in> set (wait_keys A)"
    "wo c = None \<or> wo c = Some m" by blast
  from first_match_by_key [OF m(1) devicesD(2) [OF d m(1)] devicesD(1) [OF d]] m show ?thesis by blast
qed

lemma mine_found:
  assumes d: "devices (wait_keys A) wt wo act dv" and "wo c = Some m"
  shows "\<exists>a. (m, dv c, a) \<in> set (wait_keys A) \<and> wait_for (dv c) A = m"
proof -
  have "wt c" using devicesD(5) [OF d] assms(2) by simp
  from wait_for_mine [OF d this] obtain m' a where
    m': "(m', dv c, a) \<in> set (wait_keys A)" "wait_for (dv c) A = m'" "wo c = None \<or> wo c = Some m'" by blast
  with assms(2) have "m' = m" by simp
  with m' show ?thesis by blast
qed

lemma finder_unique:
  assumes d: "devices ks wt wo act dv" and k: "distinct (map fst ks)" and "wt c" and m: "(m, dv c, a) \<in> set ks"
    and "wo c' = Some m"
  shows "c' = c"
proof -
  have wt': "wt c'" using devicesD(5) [OF d] assms(5) by simp
  from devicesD(4) [OF d this] assms(5) obtain a' where "(m, dv c', a') \<in> set ks" by auto
  from eq_key_imp_eq_value [OF k this m] have "dv c' = dv c" by simp
  with devicesD(6,7) [OF d] assms(3) wt' show ?thesis by blast
qed

lemma keys_without:
  assumes k: "distinct (map fst ks)" and m: "(m, x) \<in> set ks"
  shows "set (filter (\<lambda>y. fst y \<noteq> m) ks) = set ks - {(m, x)}"
proof -
  have "(fst y \<noteq> m) = (y \<noteq> (m, x))" if "y \<in> set ks" for y
  proof (cases y)
    case (Pair m' x')
    show ?thesis
    proof (cases "m' = m")
      case True
      with that Pair have "x' = x" using eq_key_imp_eq_value [OF k _ m] by simp
      with True Pair show ?thesis by simp
    qed (simp add: Pair)
  qed
  then show ?thesis by auto
qed

lemma wait_keys_delete:
  "wait_keys (A\<lparr>waits := AList.delete m (waits A)\<rparr>) = filter (\<lambda>x. fst x \<noteq> m) (wait_keys A)"
  by (simp add: AList.delete_eq filter_map comp_def case_prod_unfold eq_commute)

lemma wait_keys_distinct: "sim w A \<Longrightarrow> distinct (map fst (wait_keys A))"
  using sim_distinct [of w A] by (simp add: comp_def case_prod_unfold)

text \<open>Joining the list, finding the entry, leaving the list, finishing and starting a call.\<close>

lemma devices_join:
  assumes d: "devices ks wt wo act dv" and "\<not> wt c" and "act c" and "a \<noteq> None"
  shows "devices ((m, dv c, a) # ks) (wt(c := True)) wo act dv"
proof (rule devicesI)
  have "dv c \<notin> (fst \<circ> snd) ` set ks"
  proof
    assume "dv c \<in> (fst \<circ> snd) ` set ks"
    then obtain m' a' where "(m', dv c, a') \<in> set ks" by force
    from devicesD(3) [OF d this] obtain c' where "wt c'" "dv c' = dv c" by blast
    with devicesD(6,7) [OF d] assms(2,3) show False by metis
  qed
  with devicesD(1) [OF d] show "distinct (map (fst \<circ> snd) ((m, dv c, a) # ks))" by simp
next
  show "a' \<noteq> None \<and> (\<exists>c'. (wt(c := True)) c' \<and> dv c' = i)" if "(m', i, a') \<in> set ((m, dv c, a) # ks)" for m' i a'
    using that assms(4) devicesD(2,3) [OF d, of m' i a'] by auto
  show "\<exists>m' a'. (m', dv c', a') \<in> set ((m, dv c, a) # ks) \<and> (wo c' = None \<or> wo c' = Some m')"
    if "(wt(c := True)) c'" for c'
  proof (cases "c' = c")
    case True
    have "wo c = None" using devicesD(5) [OF d, of c] assms(2) by blast
    with True show ?thesis by auto
  next
    case False
    with that devicesD(4) [OF d, of c'] show ?thesis by auto
  qed
  show "(wt(c := True)) c'" if "wo c' \<noteq> None" for c' using devicesD(5) [OF d that] by simp
  show "act c'" if "(wt(c := True)) c'" for c' using devicesD(6) [OF d, of c'] that assms(3) by (auto split: if_splits)
qed (use devicesD(7) [OF d] in blast)

lemma devices_found:
  assumes d: "devices ks wt wo act dv" and "wt c" and "(m, dv c, a) \<in> set ks"
  shows "devices ks wt (wo(c := Some m)) act dv"
proof (rule devicesI)
  show "\<exists>m' a'. (m', dv c', a') \<in> set ks \<and> ((wo(c := Some m)) c' = None \<or> (wo(c := Some m)) c' = Some m')"
    if "wt c'" for c' using devicesD(4) [OF d that] assms(3) by auto
  show "wt c'" if "(wo(c := Some m)) c' \<noteq> None" for c'
    using devicesD(5) [OF d, of c'] that assms(2) by (auto split: if_splits)
qed (auto intro: devicesD(1,6) [OF d] dest: devicesD(2,3,7) [OF d])

lemma devices_part:
  assumes d: "devices ks wt wo act dv" and "(m, dv c, a) \<in> set ks" and "wt c"
    and ks': "set ks' = set ks - {(m, dv c, a)}" and "distinct (map (fst \<circ> snd) ks')"
  shows "devices ks' (wt(c := False)) (wo(c := None)) act dv"
proof (rule devicesI)
  fix m' i a'
  assume k: "(m', i, a') \<in> set ks'"
  with ks' have k': "(m', i, a') \<in> set ks" by blast
  have "i \<noteq> dv c" using keys_unique [OF devicesD(1) [OF d] k'] assms(2) k ks' by blast
  with devicesD(2,3) [OF d k'] show "a' \<noteq> None \<and> (\<exists>c'. (wt(c := False)) c' \<and> dv c' = i)" by auto
next
  fix c'
  assume w: "(wt(c := False)) c'"
  then have n: "c' \<noteq> c" "wt c'" by (auto split: if_splits)
  then have "dv c' \<noteq> dv c" using devicesD(6,7) [OF d] assms(3) by blast
  with devicesD(4) [OF d n(2)] ks' n(1)
  show "\<exists>m' a'. (m', dv c', a') \<in> set ks' \<and> ((wo(c := None)) c' = None \<or> (wo(c := None)) c' = Some m')" by auto
qed (use devicesD [OF d] assms(5) in \<open>auto split: if_splits\<close>)

lemma devices_end:
  assumes d: "devices ks wt wo act dv" and "\<not> wt c"
  shows "devices ks wt wo (act(c := False)) dv"
  using assms by (intro devicesI) (use devicesD [OF d] in \<open>auto split: if_splits\<close>)

lemma devices_begin:
  assumes d: "devices ks wt wo act dv" and "\<not> act c" and "\<forall>c'. c' \<noteq> c \<longrightarrow> act c' \<longrightarrow> dv c' \<noteq> i"
  shows "devices ks wt wo (act(c := True)) (dv(c := i))"
proof (rule devicesI)
  have n: "\<not> wt c" using devicesD(6) [OF d] assms(2) by blast
  show "a \<noteq> None \<and> (\<exists>c'. wt c' \<and> (dv(c := i)) c' = j)" if "(m, j, a) \<in> set ks" for m j a
    using devicesD(2,3) [OF d that] n by (metis fun_upd_apply)
  show "\<exists>m a. (m, (dv(c := i)) c', a) \<in> set ks \<and> (wo c' = None \<or> wo c' = Some m)" if "wt c'" for c'
    using devicesD(4) [OF d that] that n by auto
  show "c' = c''" if "(act(c := True)) c'" "(act(c := True)) c''" "(dv(c := i)) c' = (dv(c := i)) c''" for c' c''
    using that assms(3) devicesD(7) [OF d, of c' c''] by (auto split: if_splits)
qed (use devicesD [OF d] in auto)

section \<open>The invariant\<close>

fun entry_of :: "caller \<Rightarrow> ptr option" where
  "entry_of (Out r) = None"
| "entry_of (Added p) = Some p"
| "entry_of (Binding p) = Some p"
| "entry_of (Wait_Added p) = Some p"
| "entry_of (Wait_Found p m) = Some p"
| "entry_of (Wait_Locked p m) = Some p"
| "entry_of (Wait_Blocked p m) = Some p"
| "entry_of (Wait_Woken p m) = Some p"
| "entry_of (Wait_Over p m) = Some p"
| "entry_of (Wait_Removed p) = Some p"
| "entry_of (Rebinding p) = Some p"
| "entry_of (Bound p) = Some p"
| "entry_of (Call_Locked p) = Some p"
| "entry_of (Call_Sent p) = Some p"
| "entry_of (Call_Blocked p) = Some p"
| "entry_of (Call_Woken p) = Some p"
| "entry_of (Call_Over p) = Some p"
| "entry_of (Leaving p r) = Some p"

fun held_of :: "caller \<Rightarrow> ptr option" where
  "held_of (Call_Locked p) = Some p"
| "held_of (Call_Sent p) = Some p"
| "held_of (Call_Woken p) = Some p"
| "held_of _ = None"

fun wait_of :: "caller \<Rightarrow> ptr option" where
  "wait_of (Wait_Found p m) = Some m"
| "wait_of (Wait_Locked p m) = Some m"
| "wait_of (Wait_Blocked p m) = Some m"
| "wait_of (Wait_Woken p m) = Some m"
| "wait_of (Wait_Over p m) = Some m"
| "wait_of _ = None"

fun wait_held_of :: "caller \<Rightarrow> ptr option" where
  "wait_held_of (Wait_Locked p m) = Some m"
| "wait_held_of (Wait_Woken p m) = Some m"
| "wait_held_of _ = None"

fun waiting :: "caller \<Rightarrow> bool" where
  "waiting (Wait_Added p) = True"
| "waiting pc = (wait_of pc \<noteq> None)"

fun r_held :: "receiver \<Rightarrow> ptr option" where
  "r_held (R_Decode req src p) = Some p"
| "r_held (R_Locked p) = Some p"
| "r_held (R_Signalled p) = Some p"
| "r_held _ = None"

fun r_wait_held :: "receiver \<Rightarrow> ptr option" where
  "r_wait_held (R_Device_Locked m) = Some m"
| "r_wait_held (R_Device_Signalled m) = Some m"
| "r_wait_held _ = None"

abbreviation calls_owned :: "'k system \<Rightarrow> 'k view \<Rightarrow> bool" where
  "calls_owned s A \<equiv> owned (calls A) rd_mutex (entry_of \<circ> pcs s) (held_of \<circ> pcs s)
     (r_held (rcv s)) (rd_brk (mem s))"

abbreviation waits_owned :: "'k system \<Rightarrow> 'k view \<Rightarrow> bool" where
  "waits_owned s A \<equiv> owned (waits A) dcm_mutex (wait_of \<circ> pcs s) (wait_held_of \<circ> pcs s)
     (r_wait_held (rcv s)) (dcm_brk (mem s))"

abbreviation devices_apart :: "'k system \<Rightarrow> 'k view \<Rightarrow> bool" where
  "devices_apart s A \<equiv> devices (wait_keys A) (waiting \<circ> pcs s) (wait_of \<circ> pcs s)
     (active \<circ> pcs s) (rq_device \<circ> reqs s)"

definition consistent :: "bool \<Rightarrow> 'k system \<Rightarrow> 'k view \<Rightarrow> bool" where
  "consistent excl s A \<longleftrightarrow> sim (mem s) A \<and> calls_owned s A \<and> (excl \<longrightarrow> waits_owned s A \<and> devices_apart s A)"

lemma upd_comp_same [simp]: "f (g c) = y \<Longrightarrow> (f \<circ> g)(c := y) = f \<circ> g"
  by auto

lemma comp_upd [simp]: "f \<circ> g(c := x) = (f \<circ> g)(c := f x)"
  by auto

text \<open>Steps that leave the thread with the entries and mutexes it has.\<close>

definition same_place :: "caller \<Rightarrow> caller \<Rightarrow> bool" where
  "same_place x y \<longleftrightarrow> entry_of x = entry_of y \<and> held_of x = held_of y \<and> wait_of x = wait_of y \<and>
     wait_held_of x = wait_held_of y \<and> waiting x = waiting y \<and> active x = active y"

lemma inv_stay:
  assumes i: "consistent excl s A" and s: "same_place (pcs s c) x"
    and "\<exists>A'. sim w A' \<and> touches p A A' \<and> rd_brk w = rd_brk (mem s) \<and> dcm_brk w = dcm_brk (mem s)"
  shows "\<exists>A'. consistent excl (move c (x, w) s) A'"
proof -
  from assms(3) obtain A' where A': "sim w A'" "touches p A A'" "rd_brk w = rd_brk (mem s)"
    "dcm_brk w = dcm_brk (mem s)" by blast
  then obtain f where f: "calls A' = AList.map_entry p f (calls A)" "\<forall>d. rd_mutex (f d) = rd_mutex d"
    and ws: "waits A' = waits A" by (auto simp: touches_def)
  have "calls_owned s A" using i by (simp add: consistent_def)
  from owned_touch [OF this f(2), of p] show ?thesis
    using i s A' f(1) ws by (intro exI [of _ A']) (simp add: consistent_def same_place_def)
qed

lemma inv_stay_same:
  "consistent excl s A \<Longrightarrow> same_place (pcs s c) x \<Longrightarrow> \<exists>A'. consistent excl (move c (x, mem s) s) A'"
  by (rule inv_stay [where p = NULL]) (auto simp: consistent_def intro!: exI [of _ A] touches_same)

text \<open>Taking and giving back the mutex of the call's entry.\<close>

lemma inv_lock:
  assumes i: "consistent excl s A" and l: "rd_lock p (mem s) = Some w" and "entry_of (pcs s c) = Some p"
    and x: "entry_of x = Some p" "held_of x = Some p" "wait_of x = wait_of (pcs s c)"
      "wait_held_of x = wait_held_of (pcs s c)" "waiting x = waiting (pcs s c)" "active x = active (pcs s c)"
  shows "\<exists>A'. consistent excl (move c (x, w) s) A'"
proof -
  from i have s: "sim (mem s) A" and o: "calls_owned s A" by (simp_all add: consistent_def)
  note D = rd_lock_D [OF l s]
  have "owned (AList.map_entry p (rd_mutex_update (\<lambda>_. True)) (calls A)) rd_mutex (entry_of \<circ> pcs s)
      ((held_of \<circ> pcs s)(c := Some p)) (r_held (rcv s)) (rd_brk (mem s))"
    by (rule owned_lock [OF o]) (use assms(3) D in auto)
  with D i x assms(3) show ?thesis
    by (intro exI [of _ "upd_call p (rd_mutex_update (\<lambda>_. True)) A"]) (simp add: consistent_def)
qed

lemma inv_unlock:
  assumes i: "consistent excl s A" and l: "rd_unlock p (mem s) = Some w" and "held_of (pcs s c) = Some p"
    and x: "entry_of x = entry_of (pcs s c)" "held_of x = None" "wait_of x = wait_of (pcs s c)"
      "wait_held_of x = wait_held_of (pcs s c)" "waiting x = waiting (pcs s c)" "active x = active (pcs s c)"
  shows "\<exists>A'. consistent excl (move c (x, w) s) A'"
proof -
  from i have s: "sim (mem s) A" and o: "calls_owned s A" by (simp_all add: consistent_def)
  note D = rd_unlock_D [OF l s]
  have "owned (AList.map_entry p (rd_mutex_update (\<lambda>_. False)) (calls A)) rd_mutex (entry_of \<circ> pcs s)
      ((held_of \<circ> pcs s)(c := None)) (r_held (rcv s)) (rd_brk (mem s))"
    by (rule owned_unlock [OF o]) (use assms(3) in auto)
  with D i x assms(3) show ?thesis
    by (intro exI [of _ "upd_call p (rd_mutex_update (\<lambda>_. False)) A"]) (simp add: consistent_def)
qed

lemma wait_keys_upd [simp]:
  "(\<And>d. wait_key (f d) = wait_key d) \<Longrightarrow> wait_keys (upd_wait m f A) = wait_keys A"
  by (simp add: map_key_map_entry)

lemma inv_dcm_lock:
  assumes i: "consistent excl s A" and l: "dcm_lock m (mem s) = Some w" and "wait_of (pcs s c) = Some m"
    and x: "entry_of x = entry_of (pcs s c)" "held_of x = held_of (pcs s c)" "wait_of x = Some m"
      "wait_held_of x = Some m" "waiting x = waiting (pcs s c)" "active x = active (pcs s c)"
  shows "\<exists>A'. consistent excl (move c (x, w) s) A'"
proof -
  let ?A = "upd_wait m (dcm_mutex_update (\<lambda>_. True)) A"
  from i have s: "sim (mem s) A" by (simp add: consistent_def)
  note D = dcm_lock_D [OF l s]
  have "wait_keys ?A = wait_keys A" by (rule wait_keys_upd) (simp add: wait_key_def)
  moreover have "owned (waits ?A) dcm_mutex (wait_of \<circ> pcs s) ((wait_held_of \<circ> pcs s)(c := Some m))
      (r_wait_held (rcv s)) (dcm_brk (mem s))" if excl
    using owned_lock [of "waits A" dcm_mutex "wait_of \<circ> pcs s" _ _ _ c m "dcm_mutex_update (\<lambda>_. True)"]
      i that D assms(3) by (simp add: consistent_def)
  ultimately show ?thesis using D i x assms(3)
    by (intro exI [of _ ?A]) (simp add: consistent_def)
qed

lemma inv_dcm_unlock:
  assumes i: "consistent excl s A" and l: "dcm_unlock m (mem s) = Some w" and "wait_held_of (pcs s c) = Some m"
    and x: "entry_of x = entry_of (pcs s c)" "held_of x = held_of (pcs s c)" "wait_of x = wait_of (pcs s c)"
      "wait_held_of x = None" "waiting x = waiting (pcs s c)" "active x = active (pcs s c)"
  shows "\<exists>A'. consistent excl (move c (x, w) s) A'"
proof -
  let ?A = "upd_wait m (dcm_mutex_update (\<lambda>_. False)) A"
  from i have s: "sim (mem s) A" by (simp add: consistent_def)
  note D = dcm_unlock_D [OF l s]
  have "wait_keys ?A = wait_keys A" by (rule wait_keys_upd) (simp add: wait_key_def)
  moreover have "owned (waits ?A) dcm_mutex (wait_of \<circ> pcs s) ((wait_held_of \<circ> pcs s)(c := None))
      (r_wait_held (rcv s)) (dcm_brk (mem s))" if excl
    using owned_unlock [of "waits A" dcm_mutex "wait_of \<circ> pcs s" "wait_held_of \<circ> pcs s" _ _ c m
        "dcm_mutex_update (\<lambda>_. False)"] i that D assms(3) by (simp add: consistent_def)
  ultimately show ?thesis using D i x assms(3)
    by (intro exI [of _ ?A]) (simp add: consistent_def)
qed

text \<open>Putting the entry for a device on the list, finding it, taking it off.\<close>

lemma inv_wait_added:
  assumes i: "consistent excl s A" and pc: "pcs s c = Binding p"
    and b: "\<exists>A'. sim w0 A' \<and> touches p A A' \<and> rd_brk w0 = rd_brk (mem s) \<and> dcm_brk w0 = dcm_brk (mem s)"
    and l: "dcm_set_world (rq_device (reqs s c)) (Some zero_address) w0 = Some w"
  shows "\<exists>A'. consistent excl (move c (Wait_Added p, w) s) A'"
proof -
  let ?n = "new_dcm (rq_device (reqs s c), Some zero_address)"
  from b obtain B where B: "sim w0 B" "touches p A B" "rd_brk w0 = rd_brk (mem s)"
    "dcm_brk w0 = dcm_brk (mem s)" by blast
  then obtain f where f: "calls B = AList.map_entry p f (calls A)" "\<forall>d. rd_mutex (f d) = rd_mutex d"
    and ws: "waits B = waits A" by (auto simp: touches_def)
  let ?m = "dcm_brk w0"
  let ?B = "B\<lparr>waits := (?m, ?n) # waits B\<rparr>"
  note m = dcm_set_D [OF l B(1)]
  have "calls_owned s A" using i by (simp add: consistent_def)
  from owned_touch [OF this f(2), of p]
  have c: "owned (calls B) rd_mutex (entry_of \<circ> pcs s) (held_of \<circ> pcs s) (r_held (rcv s)) (rd_brk w)"
    using f(1) B(3) m by simp
  have "owned (waits ?B) dcm_mutex (wait_of \<circ> pcs s) (wait_held_of \<circ> pcs s) (r_wait_held (rcv s)) (dcm_brk w) \<and>
    devices (wait_keys ?B) ((waiting \<circ> pcs s)(c := True)) (wait_of \<circ> pcs s) (active \<circ> pcs s)
      (rq_device \<circ> reqs s)" if excl
  proof
    from i that have o: "waits_owned s A" and d: "devices_apart s A" by (simp_all add: consistent_def)
    have "r_wait_held (rcv s) \<noteq> Some ?m" using ownedD(6) [OF o, of ?m] B(4) by auto
    with owned_push [OF o, of ?m "dcm_brk w" ?n] m ws B(4)
    show "owned (waits ?B) dcm_mutex (wait_of \<circ> pcs s) (wait_held_of \<circ> pcs s) (r_wait_held (rcv s)) (dcm_brk w)"
      by simp
    from devices_join [OF d, of c "Some zero_address" ?m] pc ws
    show "devices (wait_keys ?B) ((waiting \<circ> pcs s)(c := True)) (wait_of \<circ> pcs s) (active \<circ> pcs s)
      (rq_device \<circ> reqs s)" by (simp add: wait_key_def)
  qed
  with c m pc show ?thesis by (intro exI [of _ ?B]) (simp add: consistent_def)
qed

lemma inv_wait_found:
  assumes i: "consistent excl s A" and pc: "pcs s c = Wait_Added p"
    and l: "dcm_get_world (rq_device (reqs s c)) (mem s) = Some (m, w)"
  shows "\<exists>A'. consistent excl (move c (Wait_Found p m, w) s) A'"
proof -
  from i have s: "sim (mem s) A" by (simp add: consistent_def)
  from dcm_get_D [OF l s] have w: "w = mem s" and m: "m = wait_for (rq_device (reqs s c)) A" by auto
  have "owned (waits A) dcm_mutex ((wait_of \<circ> pcs s)(c := Some m)) (wait_held_of \<circ> pcs s)
      (r_wait_held (rcv s)) (dcm_brk (mem s)) \<and>
    devices (wait_keys A) (waiting \<circ> pcs s) ((wait_of \<circ> pcs s)(c := Some m)) (active \<circ> pcs s)
      (rq_device \<circ> reqs s)" if excl
  proof
    from i that have o: "waits_owned s A" and d: "devices_apart s A" by (simp_all add: consistent_def)
    have wt: "(waiting \<circ> pcs s) c" using pc by simp
    from wait_for_mine [OF d wt] m obtain a where a: "(m, (rq_device \<circ> reqs s) c, a) \<in> set (wait_keys A)"
      unfolding comp_apply by blast
    have "m \<in> fst ` set (waits A)" using a by force
    moreover have "\<forall>c'. (wait_of \<circ> pcs s) c' \<noteq> Some m"
    proof (intro allI notI)
      fix c'
      assume w': "(wait_of \<circ> pcs s) c' = Some m"
      from finder_unique [OF d wait_keys_distinct [OF s] wt a this] w' pc show False by simp
    qed
    ultimately show "owned (waits A) dcm_mutex ((wait_of \<circ> pcs s)(c := Some m)) (wait_held_of \<circ> pcs s)
      (r_wait_held (rcv s)) (dcm_brk (mem s))" using owned_take [OF o, of m c] pc by simp
    show "devices (wait_keys A) (waiting \<circ> pcs s) ((wait_of \<circ> pcs s)(c := Some m)) (active \<circ> pcs s)
      (rq_device \<circ> reqs s)" by (rule devices_found [OF d wt a])
  qed
  with i pc w show ?thesis by (intro exI [of _ A]) (simp add: consistent_def)
qed

lemma inv_wait_removed:
  assumes i: "consistent excl s A" and pc: "pcs s c = Wait_Over p m"
    and l: "dcm_remove_world (rq_device (reqs s c)) (mem s) = Some w"
  shows "\<exists>A'. consistent excl (move c (Wait_Removed p, w) s) A'"
proof -
  let ?dev = "rq_device (reqs s c)"
  from i have s: "sim (mem s) A" by (simp add: consistent_def)
  let ?A = "A\<lparr>waits := AList.delete (wait_for ?dev A) (waits A)\<rparr>"
  note D = dcm_remove_D [OF l s]
  have "owned (waits ?A) dcm_mutex ((wait_of \<circ> pcs s)(c := None)) (wait_held_of \<circ> pcs s)
      (r_wait_held (rcv s)) (dcm_brk (mem s)) \<and>
    devices (wait_keys ?A) ((waiting \<circ> pcs s)(c := False)) ((wait_of \<circ> pcs s)(c := None)) (active \<circ> pcs s)
      (rq_device \<circ> reqs s)" if excl
  proof
    from i that have o: "waits_owned s A" and d: "devices_apart s A" by (simp_all add: consistent_def)
    have wt: "(waiting \<circ> pcs s) c" using pc by simp
    have "(wait_of \<circ> pcs s) c = Some m" using pc by simp
    from mine_found [OF d this] obtain a where
      a: "(m, (rq_device \<circ> reqs s) c, a) \<in> set (wait_keys A)" and m: "wait_for ?dev A = m"
      unfolding comp_apply by blast
    from owned_delete [OF o, of c m] pc m
    show "owned (waits ?A) dcm_mutex ((wait_of \<circ> pcs s)(c := None)) (wait_held_of \<circ> pcs s)
      (r_wait_held (rcv s)) (dcm_brk (mem s))" by simp
    have "wait_keys ?A = filter (\<lambda>x. fst x \<noteq> m) (wait_keys A)"
      unfolding m by (rule wait_keys_delete)
    moreover note keys_without [OF wait_keys_distinct [OF s] a]
    moreover have "distinct (map (fst \<circ> snd) (filter (\<lambda>x. fst x \<noteq> m) (wait_keys A)))"
      using devicesD(1) [OF d] by (rule distinct_map_filter)
    ultimately show "devices (wait_keys ?A) ((waiting \<circ> pcs s)(c := False)) ((wait_of \<circ> pcs s)(c := None))
      (active \<circ> pcs s) (rq_device \<circ> reqs s)" by (intro devices_part [OF d a wt]) (simp_all only:)
  qed
  with i pc D show ?thesis by (intro exI [of _ ?A]) (simp add: consistent_def)
qed

text \<open>Beginning and ending a call.\<close>

lemma inv_begin:
  assumes i: "consistent excl s A" and pc: "pcs s c = Out r"
    and alone: "excl \<Longrightarrow> alone_with s c (rq_device q)"
    and l: "rd_set_world (asked_id q) (mem s) = Some (p, w)"
  shows "\<exists>A'. consistent excl (move c (Added p, w) (s\<lparr>reqs := (reqs s)(c := q)\<rparr>)) A'"
proof -
  let ?A = "A\<lparr>calls := (p, zero_return_data) # calls A\<rparr>"
  from i have s: "sim (mem s) A" and o: "calls_owned s A" by (simp_all add: consistent_def)
  note D = rd_set_D [OF l s]
  then have w: "sim w ?A" "rd_brk w = Suc p" "dcm_brk w = dcm_brk (mem s)" by blast+
  from D have new: "p \<notin> fst ` set (calls A)" using sim_below [OF s, of p] by auto
  have "r_held (rcv s) \<noteq> Some p" using ownedD(6) [OF o, of p] D by auto
  from owned_push [OF o new this, of "Suc p" zero_return_data] D
  have "owned (calls ?A) rd_mutex (entry_of \<circ> pcs s) (held_of \<circ> pcs s) (r_held (rcv s)) (rd_brk w)" by simp
  moreover have "(entry_of \<circ> pcs s) c' \<noteq> Some p" for c' using ownedD(1) [OF o, of c' p] new by blast
  ultimately have "owned (calls ?A) rd_mutex ((entry_of \<circ> pcs s)(c := Some p)) (held_of \<circ> pcs s)
      (r_held (rcv s)) (rd_brk w)" using pc by (intro owned_take) auto
  moreover have "devices (wait_keys A) (waiting \<circ> pcs s) (wait_of \<circ> pcs s) ((active \<circ> pcs s)(c := True))
      ((rq_device \<circ> reqs s)(c := rq_device q))" if excl
    using i that alone pc by (intro devices_begin) (auto simp: consistent_def alone_with_def)
  ultimately show ?thesis using i w pc by (intro exI [of _ ?A]) (simp add: consistent_def)
qed

lemma inv_leave:
  assumes i: "consistent excl s A" and pc: "pcs s c = Leaving p r" and l: "rd_remove_world p (mem s) = Some w"
  shows "\<exists>A'. consistent excl (move c (Out r, w) s) A'"
proof -
  let ?A = "A\<lparr>calls := AList.delete p (calls A)\<rparr>"
  from i have s: "sim (mem s) A" and o: "calls_owned s A" by (simp_all add: consistent_def)
  have "p \<in> fst ` set (calls A)" using ownedD(1) [OF o, of c p] pc by simp
  note D = rd_remove_D [OF l s this]
  have "owned (calls ?A) rd_mutex ((entry_of \<circ> pcs s)(c := None)) (held_of \<circ> pcs s)
      (r_held (rcv s)) (rd_brk w)" using owned_delete [OF o, of c p] pc D by simp
  moreover have "devices (wait_keys A) (waiting \<circ> pcs s) (wait_of \<circ> pcs s) ((active \<circ> pcs s)(c := False))
      (rq_device \<circ> reqs s)" if excl
    using i that pc by (intro devices_end) (auto simp: consistent_def)
  ultimately show ?thesis using i D pc by (intro exI [of _ ?A]) (simp add: consistent_def)
qed

lemma inv_abandon:
  assumes i: "consistent excl s A" and pc: "pcs s c = Call_Over p"
  shows "\<exists>A'. consistent excl (move c (Out r, mem s) s) A'"
proof -
  have "owned (calls A) rd_mutex ((entry_of \<circ> pcs s)(c := None)) (held_of \<circ> pcs s)
      (r_held (rcv s)) (rd_brk (mem s))" using i pc by (intro owned_leave) (auto simp: consistent_def)
  moreover have "devices (wait_keys A) (waiting \<circ> pcs s) (wait_of \<circ> pcs s) ((active \<circ> pcs s)(c := False))
      (rq_device \<circ> reqs s)" if excl
    using i that pc by (intro devices_end) (auto simp: consistent_def)
  ultimately show ?thesis using i pc by (intro exI [of _ A]) (simp add: consistent_def)
qed

lemma unlisted_D:
  assumes "sim w A'" and "calls A' = calls A" and "waits A' = waits A"
    and "rd_brk w = rd_brk (mem s)" and "dcm_brk w = dcm_brk (mem s)"
  shows "\<exists>A'. sim w A' \<and> touches p A A' \<and> rd_brk w = rd_brk (mem s) \<and> dcm_brk w = dcm_brk (mem s)"
  using assms by (intro exI [of _ A']) (simp add: touches_same)

section \<open>Every step keeps the invariant\<close>

lemma advance_inv:
  assumes i: "consistent excl s A" and a: "advance ops (reqs s c) (pcs s c) (mem s) = Some x"
  shows "\<exists>A'. consistent excl (move c x s) A'"
proof -
  from i have s: "sim (mem s) A" and o: "calls_owned s A" by (simp_all add: consistent_def)
  let ?q = "reqs s c"
  show ?thesis
  proof (cases "pcs s c")
    case (Added p)
    let ?port = "\<lambda>w. if datalink ops = BACDL_BIP then stack_call (bip_set_port ops (htons 0xBAC0)) w else w"
    from Added a obtain w where x: "x = (if rq_kind ?q = Who_Is then (Bound p, ?port w) else (Binding p, w))"
      and w: "(if rq_kind ?q \<noteq> Read
        then rd_write p (rd_errorDetected_update (\<lambda>_. False)) (mem s) else Some (mem s)) = Some w"
      by (auto split: Option.bind_splits)
    have "\<exists>A'. sim w A' \<and> touches p A A' \<and> rd_brk w = rd_brk (mem s) \<and> dcm_brk w = dcm_brk (mem s)"
      using w error_D [OF _ s, of p False w] unlisted_D [OF s, of A s p] by (auto split: if_splits)
    then obtain A1 where A1: "sim w A1" "touches p A A1" "rd_brk w = rd_brk (mem s)" "dcm_brk w = dcm_brk (mem s)"
      by blast
    have "touches p A (view_set_port ops 0xBAC0 A1)"
      by (rule touches_trans [OF A1(2)]) (simp add: touches_same view_set_port_def)
    with set_port_sim [OF A1(1), of ops "0xBAC0"] A1
    have p: "\<exists>A'. sim (?port w) A' \<and> touches p A A' \<and> rd_brk (?port w) = rd_brk (mem s) \<and>
      dcm_brk (?port w) = dcm_brk (mem s)" by (auto split: if_splits)
    show ?thesis
    proof (cases "rq_kind ?q = Who_Is")
      case True
      with x Added inv_stay [OF i _ p, of c "Bound p"] show ?thesis by (simp add: same_place_def)
    next
      case False
      with x Added A1 inv_stay [OF i, of c "Binding p" w p] show ?thesis by (auto simp: same_place_def)
    qed
  next
    case (Binding p)
    let ?w0 = "if datalink ops = BACDL_BIP then stack_call (bip_set_port ops (htons (rq_port ?q))) (mem s) else mem s"
    have s0: "sim ?w0 (view_set_port ops (rq_port ?q) A)" by (rule set_port_sim [OF s])
    have t0: "touches p A (view_set_port ops (rq_port ?q) A)" by (rule touches_same) (simp_all add: view_set_port_def)
    show ?thesis
    proof (cases "BACNET_MAX_INSTANCE ops < rq_device ?q")
      case True
      with a Binding inv_stay_same [OF i, of c "Leaving p (failed ?q)"] show ?thesis
        by (auto simp: same_place_def)
    next
      case False
      with a Binding obtain found w1 where b: "bind_request ops (rq_device ?q) p ?w0 = Some (found, w1)"
        and r: "(if found then Some (Bound p, w1) else do {
          w \<leftarrow> dcm_set_world (rq_device ?q) (Some zero_address) w1; Some (Wait_Added p, w) }) = Some x"
        by (auto simp: Let_def split: Option.bind_splits)
      have b1: "\<exists>A'. sim w1 A' \<and> touches p A A' \<and> rd_brk w1 = rd_brk (mem s) \<and> dcm_brk w1 = dcm_brk (mem s)"
        using bind_request_D [OF b s0] touches_trans [OF t0] by (auto split: if_splits)
      show ?thesis
      proof (cases found)
        case True
        with r Binding show ?thesis by (auto intro: inv_stay [OF i _ b1] simp: same_place_def)
      next
        case False
        with r obtain w where "dcm_set_world (rq_device ?q) (Some zero_address) w1 = Some w" "x = (Wait_Added p, w)"
          by (auto split: Option.bind_splits)
        with inv_wait_added [OF i Binding b1] show ?thesis by simp
      qed
    qed
  next
    case (Rebinding p)
    with a obtain b w where r: "rebind ops (rq_elapsed ?q) p (rq_device ?q) (mem s) = Some (b, w)"
      and x: "x = (if b then Bound p else Leaving p (failed ?q), w)" by (auto split: Option.bind_splits)
    show ?thesis unfolding x
      by (rule inv_stay [OF i _ rebind_D [OF r s]]) (simp add: Rebinding same_place_def)
  next
    case (Call_Locked p)
    let ?net = "Send_WhoIs_To_Network ops (datalink_get_broadcast_address ops) (-1) (-1)"
    from Call_Locked a obtain w where x: "x = (Call_Sent p, w)" and w: "(if rq_kind ?q = Who_Is
      then Some (stack_call ?net (mem s)) else send_request (rq_send ?q) p (mem s)) = Some w"
      by (auto split: Option.bind_splits)
    have "p \<in> fst ` set (calls A)" using ownedD(1) [OF o, of c p] Call_Locked by simp
    with w send_request_D [OF _ s] unlisted_D [OF sim_stack_call [OF s, of ?net], of A s p]
    have "\<exists>A'. sim w A' \<and> touches p A A' \<and> rd_brk w = rd_brk (mem s) \<and> dcm_brk w = dcm_brk (mem s)"
      by (auto split: if_splits)
    from inv_stay [OF i _ this] x Call_Locked show ?thesis by (simp add: same_place_def)
  next
    case (Wait_Locked p m)
    let ?send = "stack_call (Send_WhoIs ops (rq_device ?q) (rq_device ?q))"
    from Wait_Locked a obtain w where w: "dcm_unlock m (?send (mem s)) = Some w" and x: "x = (Wait_Blocked p m, w)"
      by (auto simp: Let_def split: Option.bind_splits)
    let ?s = "s\<lparr>mem := ?send (mem s)\<rparr>"
    have "consistent excl ?s (A\<lparr>vstk := Send_WhoIs ops (rq_device ?q) (rq_device ?q) (vstk A)\<rparr>)"
      using i sim_stack_call [OF s] by (simp add: consistent_def)
    from inv_dcm_unlock [OF this, of m w c "Wait_Blocked p m"] w x Wait_Locked show ?thesis
      by (simp add: move_def)
  next
    case (Call_Over p)
    with a have "x = (Out (Code 1), mem s) \<or> (\<exists>r. x = (Leaving p r, mem s))"
      by (auto split: Option.bind_splits if_splits)
    with inv_abandon [OF i Call_Over, of "Code 1"] inv_stay_same [OF i, of c] Call_Over show ?thesis
      by (auto simp: same_place_def)
  next
    case (Wait_Removed p)
    with a obtain d where "rd_read p (mem s) = Some d" and "x = (if rd_errorDetected d then Leaving p (failed ?q) else Rebinding p, mem s)"
      by (auto split: Option.bind_splits)
    with inv_stay_same [OF i, of c] Wait_Removed show ?thesis by (auto simp: same_place_def)
  next
    case (Leaving p r)
    with a inv_leave [OF i Leaving] show ?thesis by (auto split: Option.bind_splits)
  next
    case (Wait_Added p)
    with a inv_wait_found [OF i Wait_Added] show ?thesis by (auto split: Option.bind_splits)
  next
    case (Wait_Over p m)
    with a inv_wait_removed [OF i Wait_Over] show ?thesis by (auto split: Option.bind_splits)
  next
    case (Wait_Found p m)
    with a inv_dcm_lock [OF i, of m _ c "Wait_Locked p m"] show ?thesis by (auto split: Option.bind_splits)
  next
    case (Wait_Blocked p m)
    with a inv_dcm_lock [OF i, of m _ c "Wait_Woken p m"] show ?thesis by (auto split: Option.bind_splits)
  next
    case (Wait_Woken p m)
    with a inv_dcm_unlock [OF i, of m _ c "Wait_Over p m"] show ?thesis by (auto split: Option.bind_splits)
  next
    case (Bound p)
    with a inv_lock [OF i, of p _ c "Call_Locked p"] show ?thesis by (auto split: Option.bind_splits)
  next
    case (Call_Blocked p)
    with a inv_lock [OF i, of p _ c "Call_Woken p"] show ?thesis by (auto split: Option.bind_splits)
  next
    case (Call_Sent p)
    with a inv_unlock [OF i, of p _ c "Call_Blocked p"] show ?thesis by (auto split: Option.bind_splits)
  next
    case (Call_Woken p)
    with a inv_unlock [OF i, of p _ c "Call_Over p"] show ?thesis by (auto split: Option.bind_splits)
  qed (use a in simp)
qed

text \<open>The receive thread.\<close>

lemma rcv_stay:
  assumes i: "consistent excl s A" and "r_held r = r_held (rcv s)" and "r_wait_held r = r_wait_held (rcv s)"
    and "\<exists>A'. sim w A' \<and> touches p A A' \<and> rd_brk w = rd_brk (mem s) \<and> dcm_brk w = dcm_brk (mem s)"
  shows "\<exists>A'. consistent excl (move_rcv (r, w) s) A'"
proof -
  from assms(4) obtain A' where A': "sim w A'" "touches p A A'" "rd_brk w = rd_brk (mem s)"
    "dcm_brk w = dcm_brk (mem s)" by blast
  then obtain f where f: "calls A' = AList.map_entry p f (calls A)" "\<forall>d. rd_mutex (f d) = rd_mutex d"
    and ws: "waits A' = waits A" by (auto simp: touches_def)
  have "calls_owned s A" using i by (simp add: consistent_def)
  from owned_touch [OF this f(2), of p] show ?thesis
    using i assms(2,3) A' f(1) ws by (intro exI [of _ A']) (simp add: consistent_def)
qed

lemma rcv_same:
  "consistent excl s A \<Longrightarrow> r_held r = r_held (rcv s) \<Longrightarrow> r_wait_held r = r_wait_held (rcv s) \<Longrightarrow>
   \<exists>A'. consistent excl (move_rcv (r, mem s) s) A'"
  by (rule rcv_stay [where p = NULL]) (auto simp: consistent_def intro!: exI [of _ A] touches_same)

lemma rcv_lock:
  assumes i: "consistent excl s A" and l: "rd_lock p (mem s) = Some w" and "r_held (rcv s) = None"
    and "r_held r = Some p" and "r_wait_held r = r_wait_held (rcv s)"
  shows "\<exists>A'. consistent excl (move_rcv (r, w) s) A'"
proof -
  from i have s: "sim (mem s) A" and o: "calls_owned s A" by (simp_all add: consistent_def)
  note D = rd_lock_D [OF l s]
  have "owned (AList.map_entry p (rd_mutex_update (\<lambda>_. True)) (calls A)) rd_mutex (entry_of \<circ> pcs s)
      (held_of \<circ> pcs s) (Some p) (rd_brk (mem s))"
    by (rule owned_rlock) (use o assms(3) D in auto)
  with D i assms(3-5) show ?thesis
    by (intro exI [of _ "upd_call p (rd_mutex_update (\<lambda>_. True)) A"]) (simp add: consistent_def)
qed

lemma rcv_unlock:
  assumes i: "consistent excl s A" and l: "rd_unlock p (mem s) = Some w" and "r_held (rcv s) = Some p"
    and "r_held r = None" and "r_wait_held r = r_wait_held (rcv s)"
  shows "\<exists>A'. consistent excl (move_rcv (r, w) s) A'"
proof -
  from i have s: "sim (mem s) A" and o: "calls_owned s A" by (simp_all add: consistent_def)
  note D = rd_unlock_D [OF l s]
  have "owned (AList.map_entry p (rd_mutex_update (\<lambda>_. False)) (calls A)) rd_mutex (entry_of \<circ> pcs s)
      (held_of \<circ> pcs s) None (rd_brk (mem s))"
    by (rule owned_runlock) (use o assms(3) in auto)
  with D i assms(3-5) show ?thesis
    by (intro exI [of _ "upd_call p (rd_mutex_update (\<lambda>_. False)) A"]) (simp add: consistent_def)
qed

lemma rcv_dcm_lock:
  assumes i: "consistent excl s A" and l: "dcm_lock m (mem s) = Some w" and "r_wait_held (rcv s) = None"
    and "r_wait_held r = Some m" and "r_held r = r_held (rcv s)"
  shows "\<exists>A'. consistent excl (move_rcv (r, w) s) A'"
proof -
  let ?A = "upd_wait m (dcm_mutex_update (\<lambda>_. True)) A"
  from i have s: "sim (mem s) A" by (simp add: consistent_def)
  note D = dcm_lock_D [OF l s]
  have "wait_keys ?A = wait_keys A" by (rule wait_keys_upd) (simp add: wait_key_def)
  moreover have "owned (waits ?A) dcm_mutex (wait_of \<circ> pcs s) (wait_held_of \<circ> pcs s) (Some m) (dcm_brk (mem s))"
    if excl unfolding upd_wait_simps by (rule owned_rlock) (use i that D assms(3) in \<open>auto simp: consistent_def\<close>)
  ultimately show ?thesis using D i assms(3-5)
    by (intro exI [of _ ?A]) (simp add: consistent_def)
qed

lemma rcv_dcm_unlock:
  assumes i: "consistent excl s A" and l: "dcm_unlock m (mem s) = Some w" and "r_wait_held (rcv s) = Some m"
    and "r_wait_held r = None" and "r_held r = r_held (rcv s)"
  shows "\<exists>A'. consistent excl (move_rcv (r, w) s) A'"
proof -
  let ?A = "upd_wait m (dcm_mutex_update (\<lambda>_. False)) A"
  from i have s: "sim (mem s) A" by (simp add: consistent_def)
  note D = dcm_unlock_D [OF l s]
  have "wait_keys ?A = wait_keys A" by (rule wait_keys_upd) (simp add: wait_key_def)
  moreover have "owned (waits ?A) dcm_mutex (wait_of \<circ> pcs s) (wait_held_of \<circ> pcs s) None (dcm_brk (mem s))"
    if excl unfolding upd_wait_simps by (rule owned_runlock) (use i that assms(3) in \<open>auto simp: consistent_def\<close>)
  ultimately show ?thesis using D i assms(3-5)
    by (intro exI [of _ ?A]) (simp add: consistent_def)
qed

lemma rcv_dcm_signal:
  assumes i: "consistent excl s A" and l: "dcm_signal m (mem s) = Some w"
    and "r_wait_held r = r_wait_held (rcv s)" and "r_held r = r_held (rcv s)"
  shows "\<exists>A'. consistent excl (move_rcv (r, w) s) A'"
proof -
  let ?A = "upd_wait m (dcm_condition_update (\<lambda>_. True)) A"
  from i have s: "sim (mem s) A" by (simp add: consistent_def)
  note D = dcm_signal_D [OF l s]
  have "wait_keys ?A = wait_keys A" by (rule wait_keys_upd) (simp add: wait_key_def)
  moreover have "owned (waits ?A) dcm_mutex (wait_of \<circ> pcs s) (wait_held_of \<circ> pcs s)
      (r_wait_held (rcv s)) (dcm_brk (mem s))"
    if excl unfolding upd_wait_simps by (rule owned_touch) (use i that in \<open>auto simp: consistent_def\<close>)
  ultimately show ?thesis using D i assms(3,4)
    by (intro exI [of _ ?A]) (simp add: consistent_def)
qed

lemma look_up_inv:
  assumes i: "consistent excl s A" and "rcv s = R_Idle" and l: "look_up f k (mem s) = Some x"
    and f: "\<And>p. r_held (f p) = None \<and> r_wait_held (f p) = None"
  shows "\<exists>A'. consistent excl (move_rcv x s) A'"
proof -
  from i have s: "sim (mem s) A" by (simp add: consistent_def)
  from l rd_get_D [OF _ s] obtain p where "x = (if p \<noteq> NULL then f p else R_Idle, mem s)"
    by (auto simp: look_up_def split: Option.bind_splits)
  with rcv_same [OF i, of "f p"] rcv_same [OF i, of R_Idle] f assms(2) show ?thesis by auto
qed

lemma start_inv:
  assumes i: "consistent excl s A" and r: "rcv s = R_Idle" and e: "event_wf e"
    and "start ops t e (mem s) = Some x"
  shows "\<exists>A'. consistent excl (move_rcv x s) A'"
proof -
  from i have s: "sim (mem s) A" by (simp add: consistent_def)
  note idle = rcv_same [OF i, of R_Idle]
  show ?thesis
  proof (cases e)
    case (Unconfirmed sv req src)
    have "\<exists>A'. consistent excl (move_rcv x s) A'" if l: "look_up_device ops req src (mem s) = Some x"
    proof -
      obtain len dev m where d: "iam_decode_service_request ops req = (len, dev, m)" by (metis prod_cases3)
      show ?thesis
      proof (cases "len = -1")
        case True
        with l d idle r show ?thesis by (simp add: look_up_device_def)
      next
        case False
        with l d obtain p w where g: "dcm_get_world dev (mem s) = Some (p, w)"
          by (auto simp: look_up_device_def split: Option.bind_splits)
        with dcm_get_D [OF g s] have w: "w = mem s" by simp
        show ?thesis
        proof (cases "p = NULL")
          case False
          with l d g w \<open>len \<noteq> -1\<close> rcv_same [OF i, of "R_I_Am dev m src p"] r show ?thesis
            by (simp add: look_up_device_def)
        next
          case True
          with l d g w \<open>len \<noteq> -1\<close> obtain w' where w': "ae_set_world dev m src (mem s) = Some w'" "x = (R_Idle, w')"
            by (auto simp: look_up_device_def split: Option.bind_splits)
          have "address_wf src" using e Unconfirmed by simp
          from ae_set_sim [OF s this, of dev m] w'(1)
          have "sim w' (A\<lparr>table := table_add dev m src (table A)\<rparr>)" by auto
          from unlisted_D [OF this, of A s] ae_set_brk [OF w'(1)] w'(2) rcv_stay [OF i, of R_Idle w'] r
          show ?thesis by simp
        qed
      qed
    qed
    with assms(4) Unconfirmed idle r show ?thesis by (auto split: if_splits)
  qed (use assms(4) idle r look_up_inv [OF i r] in \<open>auto split: if_splits\<close>)
qed

lemma proceed_inv:
  assumes i: "consistent excl s A" and a: "proceed ops (rcv s) (mem s) = Some x"
  shows "\<exists>A'. consistent excl (move_rcv x s) A'"
proof -
  from i have s: "sim (mem s) A" by (simp add: consistent_def)
  show ?thesis
  proof (cases "rcv s")
    case (R_Failure src p)
    with a obtain d w where "rd_read p (mem s) = Some d" and x: "x = (R_Signal p, w)"
      and w: "(if address_match ops (rd_targetAddress d) src
          then rd_write p (rd_errorDetected_update (\<lambda>_. True)) (mem s) else Some (mem s)) = Some w"
      by (auto split: Option.bind_splits)
    show ?thesis
    proof (cases "address_match ops (rd_targetAddress d) src")
      case True
      with w error_D [OF _ s, of p True w] R_Failure x rcv_stay [OF i, of "R_Signal p" w p] show ?thesis by simp
    next
      case False
      with w x R_Failure rcv_same [OF i, of "R_Signal p"] show ?thesis by simp
    qed
  next
    case (R_Ack req src p)
    with a obtain d where "x = (if rd_value d = NULL then R_Ack_Free req src p else R_Idle, mem s)"
      and "rd_read p (mem s) = Some d" by (auto split: Option.bind_splits)
    with R_Ack rcv_same [OF i] show ?thesis by simp
  next
    case (R_Decode req src p)
    with a obtain d w where x: "x = (R_Locked p, w)" and w: "(if src_matches ops d (Some src)
          then (case decode_ack ops req of
              Some v \<Rightarrow>
                (let (q, h) = malloc \<lparr>value_next = NULL, value_data = v\<rparr> (app_values (mem s))
                 in rd_write p (rd_value_update (\<lambda>_. q)) ((mem s)\<lparr>app_values := h\<rparr>))
            | None \<Rightarrow> Some (mem s))
          else Some (mem s)) = Some w" by (auto split: Option.bind_splits)
    have "w = mem s \<or> (\<exists>v q h. malloc v (app_values (mem s)) = (q, h) \<and>
      rd_write p (rd_value_update (\<lambda>_. q)) ((mem s)\<lparr>app_values := h\<rparr>) = Some w)"
      using w by (auto split: if_splits option.splits prod.splits)
    then have "\<exists>A'. sim w A' \<and> touches p A A' \<and> rd_brk w = rd_brk (mem s) \<and> dcm_brk w = dcm_brk (mem s)"
    proof (elim disjE exE conjE)
      assume "w = mem s"
      with s show ?thesis by (auto intro: touches_same)
    next
      fix v q h
      assume m: "malloc v (app_values (mem s)) = (q, h)"
        and wr: "rd_write p (rd_value_update (\<lambda>_. q)) ((mem s)\<lparr>app_values := h\<rparr>) = Some w"
      have "heap_ok h" using sim_app_values [OF s] heap_ok_malloc [OF _ m] by simp
      note rd_write_D [OF wr sim_vals [OF s this]]
      moreover have "touches p A (upd_call p (rd_value_update (\<lambda>_. q)) (A\<lparr>vals := h\<rparr>))"
        unfolding touches_def by (intro conjI exI [of _ "rd_value_update (\<lambda>_. q)"]) simp_all
      ultimately show ?thesis by auto
    qed
    with x R_Decode rcv_stay [OF i, of "R_Locked p" w p] show ?thesis by simp
  next
    case (R_Locked p)
    with a obtain w where w: "rd_signal p (mem s) = Some w" and x: "x = (R_Signalled p, w)"
      by (auto split: Option.bind_splits)
    have "\<exists>A'. sim w A' \<and> touches p A A' \<and> rd_brk w = rd_brk (mem s) \<and> dcm_brk w = dcm_brk (mem s)"
      using rd_signal_D [OF w s] by (intro exI [of _ "upd_call p (rd_condition_update (\<lambda>_. True)) A"])
        (simp add: touches_upd)
    with x R_Locked rcv_stay [OF i, of "R_Signalled p" w p] show ?thesis by simp
  next
    case (R_I_Am dev m src p)
    with a obtain w where x: "x = (R_Device p, w)"
      and w: "w = mem s \<or> w = stack_call (address_add_binding ops dev m src) (mem s)"
      by (auto split: Option.bind_splits)
    have "\<exists>A'. sim w A' \<and> touches p A A' \<and> rd_brk w = rd_brk (mem s) \<and> dcm_brk w = dcm_brk (mem s)"
      using w unlisted_D [OF s, of A s p] unlisted_D [OF sim_stack_call [OF s], of _ A s p] by auto
    with x R_I_Am rcv_stay [OF i, of "R_Device p" w p] show ?thesis by simp
  next
    case (R_Ack_Free req src p)
    with a rcv_lock [OF i] show ?thesis by (auto split: Option.bind_splits)
  next
    case (R_Signal p)
    with a rcv_lock [OF i] show ?thesis by (auto split: Option.bind_splits)
  next
    case (R_Signalled p)
    with a rcv_unlock [OF i] show ?thesis by (auto split: Option.bind_splits)
  next
    case (R_Device m)
    with a rcv_dcm_lock [OF i] show ?thesis by (auto split: Option.bind_splits)
  next
    case (R_Device_Locked m)
    with a rcv_dcm_signal [OF i] show ?thesis by (auto split: Option.bind_splits)
  next
    case (R_Device_Signalled m)
    with a rcv_dcm_unlock [OF i] show ?thesis by (auto split: Option.bind_splits)
  qed (use a in simp)
qed

lemma step_inv:
  assumes st: "step ops t excl s s'" and i: "consistent excl s A"
  shows "\<exists>A'. consistent excl s' A'"
proof (rule stepE [OF st])
  fix c r q p w
  assume "s' = move c (Added p, w) (s\<lparr>reqs := (reqs s)(c := q)\<rparr>)" "pcs s c = Out r"
    "excl \<Longrightarrow> alone_with s c (rq_device q)" "rd_set_world (asked_id q) (mem s) = Some (p, w)"
  with inv_begin [OF i, of c r q p w] show ?thesis by simp
next
  fix c x
  assume "s' = move c x s" "advance ops (reqs s c) (pcs s c) (mem s) = Some x"
  with advance_inv [OF i] show ?thesis by simp
next
  fix e x
  assume "s' = move_rcv x s" "rcv s = R_Idle" "event_wf e" "start ops t e (mem s) = Some x"
  with start_inv [OF i, of e ops t x] show ?thesis by simp
next
  fix x
  assume "s' = move_rcv x s" "proceed ops (rcv s) (mem s) = Some x"
  with proceed_inv [OF i] show ?thesis by simp
qed

lemma steps_inv: "steps ops t excl s s' \<Longrightarrow> consistent excl s A \<Longrightarrow> \<exists>A'. consistent excl s' A'"
  by (induction rule: rtranclp_induct) (auto dest: step_inv)

text \<open>The threads before the first call, in a state of the program without waiting bindings.\<close>

definition at_rest :: "'k system \<Rightarrow> bool" where
  "at_rest s \<longleftrightarrow> rcv s = R_Idle \<and> (\<forall>c. \<not> active (pcs s c)) \<and> (\<exists>A. sim (mem s) A \<and> quiet A \<and> waits A = [])"

lemma rest_consistent:
  assumes "at_rest s"
  shows "\<exists>A. consistent excl s A"
proof -
  from assms obtain A where A: "sim (mem s) A" "quiet A" "waits A = []" and r: "rcv s = R_Idle"
    and out: "\<And>c. \<exists>v. pcs s c = Out v" by (auto simp: at_rest_def active_iff)
  have n: "entry_of (pcs s c) = None" "held_of (pcs s c) = None" "wait_of (pcs s c) = None"
    "wait_held_of (pcs s c) = None" "waiting (pcs s c) = False" "active (pcs s c) = False" for c
    using out [of c] by auto
  have "calls_owned s A" using A(2) r n by (auto simp: owned_def quiet_def dest: map_of_SomeD)
  moreover have "waits_owned s A" using A(3) r n by (simp add: owned_def)
  moreover have "devices_apart s A" using A(3) n by (simp add: devices_def)
  ultimately show ?thesis using A(1) by (auto simp: consistent_def)
qed

lemma reachable_consistent:
  "steps ops t excl s s' \<Longrightarrow> at_rest s \<Longrightarrow> \<exists>A. consistent excl s' A"
  using rest_consistent steps_inv by blast


text \<open>When all calls have ended and the receive thread is idle, the threads are at rest again.\<close>

lemma rest_again:
  assumes i: "consistent True s A" and r: "rcv s = R_Idle" and out: "\<And>c. \<not> active (pcs s c)"
  shows "at_rest s"
proof -
  from i have s: "sim (mem s) A" and o: "calls_owned s A" and d: "devices_apart s A" by (simp_all add: consistent_def)
  have n: "held_of (pcs s c) = None" "\<not> waiting (pcs s c)" for c using out [of c] by (cases "pcs s c"; simp)+
  have "waits A = []"
  proof (rule ccontr)
    assume "waits A \<noteq> []"
    then obtain m x ys where "waits A = (m, x) # ys" by (cases "waits A") auto
    then obtain j a where "(m, j, a) \<in> set (wait_keys A)" by (cases "wait_key x") (auto simp: wait_key_def)
    from devicesD(3) [OF d this] n(2) show False by auto
  qed
  moreover have "\<not> rd_mutex e" if "(p, e) \<in> set (calls A)" for p e
    using ownedD(5) [OF o, of p e] that n(1) r sim_distinct [OF s] by (auto simp: map_of_eq_Some_iff)
  ultimately show ?thesis using s r out by (auto simp: at_rest_def quiet_def)
qed

end
