(* ===== verification/Progress.thy ===== *)
theory Progress
  imports Interleaving
begin

text \<open>
  No call can be stuck: from every state the threads can reach, every call can be brought to its
  end by steps of its own thread and of the receive thread alone.
\<close>

text \<open>
  A caller that is blocked waits for a mutex the receive thread holds on an entry that is still
  there; the receive thread can then go on and give it back.
\<close>

lemma handle_more:
  "proceed ops (rcv s) (mem s) = Some x \<Longrightarrow> steps ops t excl (move_rcv x s) z \<Longrightarrow> steps ops t excl s z"
  using handle_on [of ops s x t excl] by (rule converse_rtranclp_into_rtranclp)

lemma sim_touch_defined:
  assumes "sim w A" and "map_of (calls A) p = Some d"
  shows "\<exists>w'. rd_write p f w = Some w' \<and> sim w' (upd_call p f A)"
  using rd_write_sim [OF assms] by (simp add: upd_call_def)

lemma finish_handler:
  assumes s: "sim (mem s) A" and d: "map_of (calls A) p = Some d" and m: "rd_mutex d"
    and h: "r_held (rcv s) = Some p"
  shows "\<exists>w. steps ops t excl s (move_rcv (R_Idle, w) s)"
proof -
  have signalled: "\<exists>w. steps ops t excl s (move_rcv (R_Idle, w) s)"
    if "sim (mem s) A" "map_of (calls A) p = Some d" "rd_mutex d" "rcv s = R_Signalled p" for s A d
  proof -
    from rd_unlock_sim [OF that(1-3)] obtain w where "rd_unlock p (mem s) = Some w" by blast
    with that(4) have "proceed ops (rcv s) (mem s) = Some (R_Idle, w)" by simp
    from handle_more [OF this rtranclp.rtrancl_refl] show ?thesis by blast
  qed
  have locked: "\<exists>w. steps ops t excl s (move_rcv (R_Idle, w) s)"
    if "sim (mem s) A" "map_of (calls A) p = Some d" "rd_mutex d" "rcv s = R_Locked p" for s A d
  proof -
    from rd_signal_sim [OF that(1,2)] obtain w where w: "rd_signal p (mem s) = Some w"
      "sim w (upd_call p (rd_condition_update (\<lambda>_. True)) A)" by (auto simp: upd_call_def)
    with that(4) have "proceed ops (rcv s) (mem s) = Some (R_Signalled p, w)" by simp
    moreover have "\<exists>w'. steps ops t excl (move_rcv (R_Signalled p, w) s)
        (move_rcv (R_Idle, w') (move_rcv (R_Signalled p, w) s))"
      using w(2) that(2,3)
      by (intro signalled [where A = "upd_call p (rd_condition_update (\<lambda>_. True)) A"
            and d = "d\<lparr>rd_condition := True\<rparr>"]) simp_all
    ultimately show ?thesis using handle_more by fastforce
  qed
  from h consider req src where "rcv s = R_Decode req src p" | "rcv s = R_Locked p" | "rcv s = R_Signalled p"
    by (cases "rcv s") auto
  then show ?thesis
  proof cases
    case 1
    have "\<exists>w A' d'. proceed ops (rcv s) (mem s) = Some (R_Locked p, w) \<and> sim w A' \<and>
      map_of (calls A') p = Some d' \<and> rd_mutex d'"
    proof (cases "if src_matches ops d (Some src) then decode_ack ops req else None")
      case None
      with 1 rd_read_sim [OF s d] s d m show ?thesis
        by (intro exI [of _ "mem s"] exI [of _ A] exI [of _ d]) (auto split: if_splits)
    next
      case (Some v)
      obtain q h where ml: "malloc \<lparr>value_next = NULL, value_data = v\<rparr> (app_values (mem s)) = (q, h)" by fastforce
      have "heap_ok h" using sim_app_values [OF s] heap_ok_malloc [OF _ ml] by simp
      from sim_touch_defined [OF sim_vals [OF s this], of p d "rd_value_update (\<lambda>_. q)"] d obtain w where
        "rd_write p (rd_value_update (\<lambda>_. q)) ((mem s)\<lparr>app_values := h\<rparr>) = Some w"
        "sim w (upd_call p (rd_value_update (\<lambda>_. q)) (A\<lparr>vals := h\<rparr>))" by auto
      with 1 Some ml rd_read_sim [OF s d] d m show ?thesis
        by (intro exI [of _ w] exI [of _ "upd_call p (rd_value_update (\<lambda>_. q)) (A\<lparr>vals := h\<rparr>)"])
          (auto split: if_splits)
    qed
    then obtain w A' d' where w: "proceed ops (rcv s) (mem s) = Some (R_Locked p, w)" "sim w A'"
      "map_of (calls A') p = Some d'" "rd_mutex d'" by blast
    have "\<exists>w'. steps ops t excl (move_rcv (R_Locked p, w) s)
        (move_rcv (R_Idle, w') (move_rcv (R_Locked p, w) s))"
      using w(2-4) by (intro locked [where A = A' and d = d']) simp_all
    with handle_more [OF w(1)] show ?thesis by fastforce
  qed (use locked [OF s d m] signalled [OF s d m] in blast)+
qed

lemma finish_i_am:
  assumes s: "sim (mem s) A" and d: "map_of (waits A) p = Some d" and m: "dcm_mutex d"
    and h: "r_wait_held (rcv s) = Some p"
  shows "\<exists>w. steps ops t excl s (move_rcv (R_Idle, w) s)"
proof -
  have signalled: "\<exists>w. steps ops t excl s (move_rcv (R_Idle, w) s)"
    if "sim (mem s) A" "map_of (waits A) p = Some d" "dcm_mutex d" "rcv s = R_Device_Signalled p" for s A d
  proof -
    from dcm_unlock_sim [OF that(1-3)] obtain w where "dcm_unlock p (mem s) = Some w" by blast
    with that(4) have "proceed ops (rcv s) (mem s) = Some (R_Idle, w)" by simp
    from handle_more [OF this rtranclp.rtrancl_refl] show ?thesis by blast
  qed
  from h consider "rcv s = R_Device_Locked p" | "rcv s = R_Device_Signalled p" by (cases "rcv s") auto
  then show ?thesis
  proof cases
    case 1
    from dcm_signal_sim [OF s d] obtain w where w: "dcm_signal p (mem s) = Some w"
      "sim w (upd_wait p (dcm_condition_update (\<lambda>_. True)) A)" by (auto simp: upd_wait_def)
    with 1 have "proceed ops (rcv s) (mem s) = Some (R_Device_Signalled p, w)" by simp
    moreover have "\<exists>w'. steps ops t excl (move_rcv (R_Device_Signalled p, w) s)
        (move_rcv (R_Idle, w') (move_rcv (R_Device_Signalled p, w) s))"
      using w(2) d m
      by (intro signalled [where A = "upd_wait p (dcm_condition_update (\<lambda>_. True)) A"
            and d = "d\<lparr>dcm_condition := True\<rparr>"]) simp_all
    ultimately show ?thesis using handle_more by fastforce
  qed (use signalled [OF s d m] in blast)
qed

text \<open>The receive thread does not hold the mutex of an entry of a caller.\<close>

definition out_of_the_way :: "'k system \<Rightarrow> bool" where
  "out_of_the_way s \<longleftrightarrow> (\<forall>c p. entry_of (pcs s c) = Some p \<longrightarrow> r_held (rcv s) \<noteq> Some p) \<and>
     (\<forall>c m. wait_of (pcs s c) = Some m \<longrightarrow> r_wait_held (rcv s) \<noteq> Some m)"

lemma get_out_of_the_way:
  assumes c: "consistent True s A"
  shows "\<exists>r w. steps ops t excl s (move_rcv (r, w) s) \<and> out_of_the_way (move_rcv (r, w) s)"
proof (cases "out_of_the_way s")
  case True
  then show ?thesis by (intro exI [of _ "rcv s"] exI [of _ "mem s"]) (simp add: move_rcv_def)
next
  case False
  from c have s: "sim (mem s) A" and o: "calls_owned s A" and w: "waits_owned s A"
    by (simp_all add: consistent_def)
  have "\<exists>w. steps ops t excl s (move_rcv (R_Idle, w) s)"
  proof -
    from False consider c p where "entry_of (pcs s c) = Some p" "r_held (rcv s) = Some p"
      | c m where "wait_of (pcs s c) = Some m" "r_wait_held (rcv s) = Some m"
      by (auto simp: out_of_the_way_def)
    then show ?thesis
    proof cases
      case (1 c p)
      with owned_entry [OF o, of c p] finish_handler [OF s] show ?thesis by auto
    next
      case (2 c m)
      with owned_entry [OF w, of c m] finish_i_am [OF s] show ?thesis by auto
    qed
  qed
  then show ?thesis by (auto simp: out_of_the_way_def intro!: exI [of _ R_Idle])
qed

section \<open>Progress of a caller\<close>

lemma touches_entry:
  assumes "touches p A A'" and "map_of (calls A) p = Some d"
  shows "\<exists>d'. map_of (calls A') p = Some d'"
  using assms by (auto simp: touches_def)

lemma bind_request_defined:
  assumes "sim w A" and "map_of (calls A) p = Some d"
  shows "\<exists>b w' A' d'. bind_request ops dev p w = Some (b, w') \<and> sim w' A' \<and> map_of (calls A') p = Some d'"
proof -
  from bind_request_sim [OF assms, of ops dev] obtain b w' where b: "bind_request ops dev p w = Some (b, w')"
    by auto
  from bind_request_D [OF b assms(1)] obtain A' where A': "sim w' A'" "touches p A A'" by blast
  with b touches_entry [OF A'(2) assms(2)] show ?thesis by blast
qed

lemma rebind_defined:
  assumes "sim w A" and "map_of (calls A) p = Some d"
  shows "\<exists>b w'. rebind ops elapsed p dev w = Some (b, w')"
proof -
  from bind_request_defined [OF assms, of ops dev] obtain found w1 A1 d1 where
    b: "bind_request ops dev p w = Some (found, w1)" "sim w1 A1" "map_of (calls A1) p = Some d1" by blast
  let ?f = "tsm_free_invoke_id ops (rd_requestInvokeID d1)" and ?e = "rd_errorDetected_update (\<lambda>_. True)"
  have "map_of (calls (A1\<lparr>vstk := ?f (vstk A1)\<rparr>)) p = Some d1" using b(3) by simp
  from sim_touch_defined [OF sim_stack_call [OF b(2), of ?f] this, of ?e] sim_touch_defined [OF b(2,3), of ?e]
  obtain w2 w3 where "rd_write p ?e (stack_call ?f w1) = Some w2" "rd_write p ?e w1 = Some w3" by blast
  with b(1) rd_read_sim [OF b(2,3)] show ?thesis by (auto simp: rebind_def Let_def)
qed

lemma send_request_defined:
  assumes "sim w A" and "map_of (calls A) p = Some d"
  shows "\<exists>w'. send_request send p w = Some w'"
proof -
  obtain i k where ik: "send (stk w) = (i, k)" by fastforce
  from rd_assign_sim [OF assms, of "rd_requestInvokeID_update (\<lambda>_. i)" k] ik show ?thesis
    by (auto simp: send_request_def)
qed

fun steps_left :: "caller \<Rightarrow> nat" where
  "steps_left (Out r) = 0"
| "steps_left (Leaving p r) = 1"
| "steps_left (Call_Over p) = 2"
| "steps_left (Call_Woken p) = 3"
| "steps_left (Call_Blocked p) = 4"
| "steps_left (Call_Sent p) = 5"
| "steps_left (Call_Locked p) = 6"
| "steps_left (Bound p) = 7"
| "steps_left (Rebinding p) = 8"
| "steps_left (Wait_Removed p) = 9"
| "steps_left (Wait_Over p m) = 10"
| "steps_left (Wait_Woken p m) = 11"
| "steps_left (Wait_Blocked p m) = 12"
| "steps_left (Wait_Locked p m) = 13"
| "steps_left (Wait_Found p m) = 14"
| "steps_left (Wait_Added p) = 15"
| "steps_left (Binding p) = 16"
| "steps_left (Added p) = 17"

lemma advance_less:
  "advance ops q pc w = Some x \<Longrightarrow> steps_left (fst x) < steps_left pc"
  by (cases pc) (auto simp: Let_def split: Option.bind_splits if_splits)

lemma advance_defined:
  assumes c: "consistent True s A" and away: "out_of_the_way s" and "active (pcs s c)"
  shows "\<exists>x. advance ops (reqs s c) (pcs s c) (mem s) = Some x"
proof -
  from c have s: "sim (mem s) A" and o: "calls_owned s A" and w: "waits_owned s A" and dv: "devices_apart s A"
    by (simp_all add: consistent_def)
  let ?q = "reqs s c"
  have entry: "\<exists>d. map_of (calls A) p = Some d \<and> rd_mutex d = (held_of (pcs s c) = Some p)"
    if "entry_of (pcs s c) = Some p" for p
    using owned_entry [OF o, of c p] that away by (auto simp: out_of_the_way_def)
  have wait: "\<exists>d. map_of (waits A) m = Some d \<and> dcm_mutex d = (wait_held_of (pcs s c) = Some m)"
    if "wait_of (pcs s c) = Some m" for m
    using owned_entry [OF w, of c m] that away by (auto simp: out_of_the_way_def)
  have e: "\<exists>w. rd_write p (rd_errorDetected_update (\<lambda>_. b)) (mem s) = Some w"
    if "map_of (calls A) p = Some d" for p b d using rd_write_sim [OF s that] by blast
  show ?thesis
  proof (cases "pcs s c")
    case (Out r)
    with assms(3) show ?thesis by simp
  next
    case (Added p)
    with entry [of p] e [of p _ False] show ?thesis by auto
  next
    case (Binding p)
    let ?w0 = "if datalink ops = BACDL_BIP then stack_call (bip_set_port ops (htons (rq_port ?q))) (mem s) else mem s"
    from Binding entry [of p] obtain d where "map_of (calls (view_set_port ops (rq_port ?q) A)) p = Some d" by auto
    from bind_request_defined [OF set_port_sim [OF s] this, of ops "rq_device ?q"] obtain found w1 A1 where
      b: "bind_request ops (rq_device ?q) p ?w0 = Some (found, w1)" "sim w1 A1" by blast
    from dcm_set_sim [OF b(2), of "rq_device ?q" "Some zero_address"] obtain w2 where
      "dcm_set_world (rq_device ?q) (Some zero_address) w1 = Some w2" by blast
    with Binding b(1) show ?thesis by (cases found) (simp_all add: Let_def)
  next
    case (Wait_Added p)
    with dcm_get_sim [OF s] show ?thesis by simp
  next
    case (Wait_Found p m)
    with wait [of m] dcm_lock_sim [OF s, of m] show ?thesis by fastforce
  next
    case (Wait_Locked p m)
    let ?send = "Send_WhoIs ops (rq_device ?q) (rq_device ?q)"
    from Wait_Locked wait [of m] obtain d where d: "map_of (waits (A\<lparr>vstk := ?send (vstk A)\<rparr>)) m = Some d" "dcm_mutex d"
      by auto
    from dcm_unlock_sim [OF sim_stack_call [OF s, of ?send] d] Wait_Locked show ?thesis by (auto simp: Let_def)
  next
    case (Wait_Blocked p m)
    with wait [of m] dcm_lock_sim [OF s, of m] show ?thesis by fastforce
  next
    case (Wait_Woken p m)
    with wait [of m] dcm_unlock_sim [OF s, of m] show ?thesis by fastforce
  next
    case (Wait_Over p m)
    then have "(wait_of \<circ> pcs s) c = Some m" by simp
    from mine_found [OF dv this] have m: "wait_for (rq_device ?q) A = m" by auto
    have "m \<in> fst ` set (waits A)" using ownedD(1) [OF w, of c m] Wait_Over by simp
    with sim_not_NULL [OF s] have "m \<noteq> NULL" by auto
    from dcm_remove_sim [OF s m this] Wait_Over show ?thesis by auto
  next
    case (Wait_Removed p)
    with entry [of p] rd_read_sim [OF s, of p] show ?thesis by fastforce
  next
    case (Rebinding p)
    with entry [of p] rebind_defined [OF s, of p _ ops "rq_elapsed ?q" "rq_device ?q"] show ?thesis by fastforce
  next
    case (Bound p)
    with entry [of p] rd_lock_sim [OF s, of p] show ?thesis by fastforce
  next
    case (Call_Locked p)
    with entry [of p] send_request_defined [OF s, of p _ "rq_send ?q"] show ?thesis
      by (cases "rq_kind ?q = Who_Is") fastforce+
  next
    case (Call_Sent p)
    with entry [of p] rd_unlock_sim [OF s, of p] show ?thesis by fastforce
  next
    case (Call_Blocked p)
    with entry [of p] rd_lock_sim [OF s, of p] show ?thesis by fastforce
  next
    case (Call_Woken p)
    with entry [of p] rd_unlock_sim [OF s, of p] show ?thesis by fastforce
  next
    case (Call_Over p)
    with entry [of p] rd_read_sim [OF s, of p] show ?thesis by fastforce
  next
    case (Leaving p r)
    with entry [of p] rd_remove_sim [OF s, of p] show ?thesis by fastforce
  qed
qed

text \<open>The states a call goes through change only its own place.\<close>

lemma call_finishes:
  assumes "consistent True s A"
  shows "\<exists>s' r. steps ops t True s s' \<and> pcs s' = (pcs s)(c := Out r)"
  using assms
proof (induction "steps_left (pcs s c)" arbitrary: s A rule: less_induct)
  case less
  show ?case
  proof (cases "active (pcs s c)")
    case False
    then obtain r where "pcs s c = Out r" by (auto simp: active_iff)
    then have "pcs s = (pcs s)(c := Out r)" by auto
    then show ?thesis by blast
  next
    case True
    from get_out_of_the_way [OF less.prems, of ops t True] obtain r w where
      away: "steps ops t True s (move_rcv (r, w) s)" "out_of_the_way (move_rcv (r, w) s)" by blast
    let ?s = "move_rcv (r, w) s"
    from away(1) less.prems obtain B where B: "consistent True ?s B"
      using steps_inv by blast
    from advance_defined [OF B away(2), of c ops] True obtain x where
      x: "advance ops (reqs ?s c) (pcs ?s c) (mem ?s) = Some x" by auto
    from step.go_on [OF x, of t True] have st: "step ops t True ?s (move c x ?s)" .
    from step_inv [OF this B] obtain C where C: "consistent True (move c x ?s) C" by blast
    have "steps_left (pcs (move c x ?s) c) < steps_left (pcs s c)" using advance_less [OF x] by simp
    from less.hyps [OF this C] obtain s' r' where
      "steps ops t True (move c x ?s) s'" "pcs s' = (pcs (move c x ?s))(c := Out r')" by blast
    moreover from away(1) st have "steps ops t True s (move c x ?s)" by (rule rtranclp.rtrancl_into_rtrancl)
    ultimately have "steps ops t True s s' \<and> pcs s' = (pcs s)(c := Out r')" by (auto intro: rtranclp_trans)
    then show ?thesis by blast
  qed
qed

end
