(* ===== verification/Origins.thy ===== *)
theory Origins
  imports Interleaving
begin

text \<open>
  Where the results of a call come from: under any interleaving, the value of a call and its error
  flag are set by messages for this call only.
\<close>

section \<open>What the entries have been given\<close>

definition value_at :: "'k world \<Rightarrow> ptr \<Rightarrow> ptr" where
  "value_at w p = (case rd_read p w of None \<Rightarrow> NULL | Some d \<Rightarrow> rd_value d)"

definition error_at :: "'k world \<Rightarrow> ptr \<Rightarrow> bool" where
  "error_at w p = (case rd_read p w of None \<Rightarrow> False | Some d \<Rightarrow> rd_errorDetected d)"

text \<open>\<open>gives w\<close>: values and errors of the entries, and the cells of the values.\<close>

definition gives :: "'k world \<Rightarrow> (ptr \<Rightarrow> ptr) \<times> (ptr \<Rightarrow> bool) \<times> value_cell heap" where
  "gives w = (value_at w, error_at w, app_values w)"

lemma givesI:
  "(\<And>p. value_at w' p = value_at w p) \<Longrightarrow> (\<And>p. error_at w' p = error_at w p) \<Longrightarrow>
   app_values w' = app_values w \<Longrightarrow> gives w' = gives w"
  by (auto simp: gives_def)

lemma rd_write_read: "rd_write p f w = Some w' \<Longrightarrow> rd_read x w' = (if x = p then map_option f (rd_read x w) else rd_read x w)"
  by (auto simp: rd_write_def rd_read_def ll_put_def ll_get_def modify_def deref_def split: Option.bind_split_asm if_split_asm)

lemma rd_write_values: "rd_write p f w = Some w' \<Longrightarrow> app_values w' = app_values w"
  by (auto simp: rd_write_def split: Option.bind_split_asm)

named_theorems same_gives

lemma rd_write_gives:
  assumes "rd_write p f w = Some w'" and "\<And>d. rd_value (f d) = rd_value d"
    and "\<And>d. rd_errorDetected (f d) = rd_errorDetected d"
  shows "gives w' = gives w"
  using rd_write_read [OF assms(1)] rd_write_values [OF assms(1)] assms(2,3)
  by (intro givesI) (auto simp: value_at_def error_at_def split: option.splits)

lemma rd_access_gives [same_gives]:
  "rd_lock p w = Some w' \<Longrightarrow> gives w' = gives w"
  "rd_unlock p w = Some w' \<Longrightarrow> gives w' = gives w"
  "rd_signal p w = Some w' \<Longrightarrow> gives w' = gives w"
  "rd_write p (rd_targetAddress_update (\<lambda>_. a)) w = Some w' \<Longrightarrow> gives w' = gives w"
  "rd_write p (rd_requestInvokeID_update (\<lambda>_. i)) w = Some w' \<Longrightarrow> gives w' = gives w"
  by (auto simp: rd_lock_def rd_unlock_def rd_signal_def split: Option.bind_split_asm if_split_asm
      elim!: rd_write_gives)

lemma gives_cong:
  "returnDataHead w' = returnDataHead w \<Longrightarrow> app_values w' = app_values w \<Longrightarrow> gives w' = gives w"
  by (simp add: gives_def value_at_def [abs_def] error_at_def [abs_def] rd_read_def)

lemma gives_simps [simp]:
  "gives (stack_call f w) = gives w" "gives (w\<lparr>stk := k\<rparr>) = gives w"
  by (rule gives_cong; simp add: stack_call_def)+

lemma dcm_gives [same_gives]:
  "dcm_write m f w = Some w' \<Longrightarrow> gives w' = gives w"
  "dcm_lock m w = Some w' \<Longrightarrow> gives w' = gives w"
  "dcm_unlock m w = Some w' \<Longrightarrow> gives w' = gives w"
  "dcm_signal m w = Some w' \<Longrightarrow> gives w' = gives w"
  "dcm_get_world i w = Some (m, w') \<Longrightarrow> gives w' = gives w"
  "dcm_set_world i a w = Some w' \<Longrightarrow> gives w' = gives w"
  "dcm_remove_world i w = Some w' \<Longrightarrow> gives w' = gives w"
  "ae_set_world i mx src w = Some w' \<Longrightarrow> gives w' = gives w"
  by (auto simp: dcm_write_def dcm_lock_def dcm_unlock_def dcm_signal_def dcm_get_world_def dcm_set_world_def
      dcm_remove_world_def ae_set_world_def split: Option.bind_split_asm if_split_asm intro!: gives_cong)

lemma list_lock_gives [same_gives]:
  "rd_list_lock w = Some w' \<Longrightarrow> gives w' = gives w"
  "rd_list_unlock w = Some w' \<Longrightarrow> gives w' = gives w"
  by (auto simp: rd_list_lock_def rd_list_unlock_def ll_lock_def ll_unlock_def gives_def value_at_def [abs_def]
      error_at_def [abs_def] rd_read_def ll_get_def split: Option.bind_split_asm if_split_asm)

lemma bind_request_gives [same_gives]: "bind_request ops dev p w = Some (b, w') \<Longrightarrow> gives w' = gives w"
  by (auto simp: bind_request_def Let_def split: prod.split_asm option.split_asm Option.bind_split_asm
      dest!: same_gives)

lemma send_request_gives [same_gives]: "send_request send p w = Some w' \<Longrightarrow> gives w' = gives w"
  by (auto simp: send_request_def Let_def split: prod.split_asm Option.bind_split_asm dest!: same_gives)

text \<open>Reads see what the lists hold, and nothing else.\<close>

lemma rd_read_map: "sim w A \<Longrightarrow> rd_read p w = map_of (calls A) p"
proof (cases "map_of (calls A) p")
  case None
  assume s: "sim w A"
  from sim_calls [OF s] obtain l where
    l: "returnDataHead w = Some l" "allocated (nodes l) = fst ` set (calls A)" by blast
  with None have "p \<notin> allocated (nodes l)" by (metis map_of_eq_None_iff)
  then show ?thesis using l(1) None by (simp add: rd_read_def ll_get_def deref_def allocated_def domIff)
qed (simp add: rd_read_sim)

lemma rd_get_gives [same_gives]: "rd_get_world i w = Some (p, w') \<Longrightarrow> sim w A \<Longrightarrow> gives w' = gives w"
  by (simp add: rd_get_sim)

lemma rd_set_gives:
  assumes "rd_set_world i w = Some (p, w')" and "sim w A"
  shows "gives w' = gives w"
proof -
  from rd_set_sim [OF assms(2), of i] assms(1) have
    s: "sim w' (A\<lparr>calls := (p, zero_return_data) # calls A\<rparr>)" and p: "p \<notin> fst ` set (calls A)" by auto
  have "map_of (calls A) p = None" using p by (simp add: map_of_eq_None_iff)
  then show ?thesis using sim_app_values [OF s] sim_app_values [OF assms(2)]
    by (intro givesI) (simp_all add: value_at_def error_at_def rd_read_map [OF s] rd_read_map [OF assms(2)])
qed

lemma rd_remove_gives:
  assumes "rd_remove_world p w = Some w'" and "sim w A" and "p \<in> fst ` set (calls A)"
  shows "gives w' = ((value_at w)(p := NULL), (error_at w)(p := False), app_values w)"
proof -
  from assms(3) obtain d where "map_of (calls A) p = Some d" by (metis map_of_eq_None_iff not_None_eq)
  from rd_remove_sim [OF assms(2) this] assms(1) have s: "sim w' (A\<lparr>calls := AList.delete p (calls A)\<rparr>)" by auto
  have "map_of (calls (A\<lparr>calls := AList.delete p (calls A)\<rparr>)) x = ((map_of (calls A))(p := None)) x" for x
    by (simp add: AList.delete_conv')
  with sim_app_values [OF s] sim_app_values [OF assms(2)] show ?thesis
    by (simp add: gives_def fun_eq_iff value_at_def error_at_def rd_read_map [OF s] rd_read_map [OF assms(2)])
qed


section \<open>What a step gives\<close>

text \<open>
  A caller's step gives nothing: it takes the entry off the list, or sets the error flag of its
  own entry and leaves. A call ends with the value of its entry.
\<close>

definition caller_gives :: "'k world \<Rightarrow> caller \<Rightarrow> caller \<Rightarrow> 'k world \<Rightarrow> bool" where
  "caller_gives w pc pc' w' \<longleftrightarrow> app_values w' = app_values w \<and>
     (\<forall>x. value_at w' x = value_at w x \<or> value_at w' x = NULL) \<and>
     (\<forall>x. error_at w' x \<longrightarrow> error_at w x \<and> (\<forall>r. pc \<noteq> Leaving x r) \<or> (\<exists>r. pc' = Leaving x r)) \<and>
     (\<forall>x v. pc' = Leaving x (Value v) \<longrightarrow> v \<noteq> NULL \<longrightarrow> v = value_at w x) \<and>
     (\<forall>x. entry_of pc' = Some x \<longrightarrow> entry_of pc = Some x)"

lemma caller_gives_same:
  assumes "gives w' = gives w" and "\<forall>x r. pc \<noteq> Leaving x r"
    and "entry_of pc' = entry_of pc \<or> entry_of pc' = None" and "\<forall>x v. pc' = Leaving x (Value v) \<longrightarrow> v = NULL \<or> v = value_at w x"
  shows "caller_gives w pc pc' w'"
  using assms by (auto simp: caller_gives_def gives_def)

lemma rd_error_gives:
  assumes "rd_write p (rd_errorDetected_update (\<lambda>_. b)) w = Some w'"
  shows "value_at w' = value_at w" and "app_values w' = app_values w"
    and "error_at w' x \<Longrightarrow> error_at w x \<or> b \<and> x = p"
  using rd_write_read [OF assms] rd_write_values [OF assms]
  by (auto simp: value_at_def error_at_def fun_eq_iff split: option.splits if_splits)

lemma rebind_gives:
  assumes "rebind ops elapsed p dev w = Some (b, w')"
  shows "value_at w' = value_at w \<and> app_values w' = app_values w \<and> (\<forall>x. error_at w' x \<longrightarrow> error_at w x \<or> \<not> b \<and> x = p)"
proof -
  from assms obtain found w1 d where w1: "bind_request ops dev p w = Some (found, w1)" "rd_read p w1 = Some d"
    by (auto simp: rebind_def split: Option.bind_split_asm)
  have g: "gives w1 = gives w" by (rule bind_request_gives [OF w1(1)])
  consider "w' = w1" | w2 where "rd_write p (rd_errorDetected_update (\<lambda>_. True)) w2 = Some w'"
      and "w2 = w1 \<or> w2 = stack_call (tsm_free_invoke_id ops (rd_requestInvokeID d)) w1" and "\<not> b"
    using assms w1 by (auto simp: rebind_def Let_def split: Option.bind_split_asm if_split_asm)
  then show ?thesis
  proof cases
    case 1
    with g show ?thesis by (simp add: gives_def)
  next
    case (2 w2)
    then have "gives w2 = gives w" using g by auto
    with rd_error_gives [OF 2(1)] 2(3) show ?thesis by (auto simp: gives_def)
  qed
qed

lemma advance_gives:
  assumes a: "advance ops q pc w = Some (pc', w')" and s: "sim w A"
    and own: "\<And>p. entry_of pc = Some p \<Longrightarrow> p \<in> fst ` set (calls A)"
  shows "caller_gives w pc pc' w'"
proof -
  have leave: "v = NULL \<or> v = y" if "failed q = Value v" for v y
    using that by (simp add: failed_def split: if_splits)
  show ?thesis
  proof (cases pc)
    case (Added p)
    with a obtain w1 where w1: "(if rq_kind q \<noteq> Read then rd_write p (rd_errorDetected_update (\<lambda>_. False)) w
        else Some w) = Some w1" and r: "gives w' = gives w1" "pc' = Bound p \<or> pc' = Binding p"
      by (auto split: Option.bind_split_asm if_split_asm)
    have "value_at w1 = value_at w \<and> app_values w1 = app_values w \<and> (\<forall>x. error_at w1 x \<longrightarrow> error_at w x)"
      using w1 rd_error_gives [of p False w w1] by (auto split: if_splits)
    with Added r show ?thesis by (auto simp: caller_gives_def gives_def)
  next
    case (Rebinding p)
    with a obtain b where b: "rebind ops (rq_elapsed q) p (rq_device q) w = Some (b, w')"
      and pc': "pc' = (if b then Bound p else Leaving p (failed q))" by (auto split: Option.bind_split_asm)
    from rebind_gives [OF b] Rebinding pc' leave show ?thesis
      by (auto simp: caller_gives_def split: if_splits)
  next
    case (Leaving p r)
    with a have rm: "rd_remove_world p w = Some w'" "pc' = Out r" by (auto split: Option.bind_split_asm)
    from rd_remove_gives [OF rm(1) s] own Leaving rm(2) show ?thesis
      by (auto simp: caller_gives_def gives_def)
  next
    case (Call_Over p)
    with a show ?thesis
      by (intro caller_gives_same) (auto simp: value_at_def split: Option.bind_split_asm if_split_asm)
  next
    case (Out r)
    with a show ?thesis by simp
  qed (use a leave in \<open>auto intro!: caller_gives_same split: Option.bind_split_asm if_split_asm dest!: same_gives\<close>)
qed

text \<open>The receive thread gives a value, or an error, to the entry it looked up, from the sender it wants.\<close>

definition receiver_gives :: "'k bacnet_stack \<Rightarrow> 'k world \<Rightarrow> receiver \<Rightarrow> 'k world \<Rightarrow> bool" where
  "receiver_gives ops w r w' \<longleftrightarrow>
     (\<forall>x c. cells (app_values w) x = Some c \<longrightarrow> cells (app_values w') x = Some c) \<and>
     (\<forall>x. value_at w' x \<noteq> value_at w x \<longrightarrow> (\<exists>req src v d. r = R_Decode req src x \<and> rd_read x w = Some d \<and>
        address_match ops (rd_targetAddress d) src \<and> decode_ack ops req = Some v \<and>
        cells (app_values w') (value_at w' x) = Some \<lparr>value_next = NULL, value_data = v\<rparr>)) \<and>
     (\<forall>x. error_at w' x \<longrightarrow> error_at w x \<or> (\<exists>src d. r = R_Failure src x \<and> rd_read x w = Some d \<and>
        address_match ops (rd_targetAddress d) src))"

lemma receiver_gives_same: "gives w' = gives w \<Longrightarrow> receiver_gives ops w r w'"
  by (simp add: receiver_gives_def gives_def)

lemma start_gives:
  assumes "start ops t e w = Some (r', w')" and "sim w A"
  shows "gives w' = gives w"
  using assms by (cases e) (auto simp: look_up_def look_up_device_def Let_def
      split: if_split_asm prod.split_asm Option.bind_split_asm dest!: same_gives)

lemma decode_gives:
  assumes "rd_read p w = Some d" and "address_match ops (rd_targetAddress d) src" and "decode_ack ops req = Some v"
    and "malloc \<lparr>value_next = NULL, value_data = v\<rparr> (app_values w) = (q, h)" and "heap_ok (app_values w)"
    and "rd_write p (rd_value_update (\<lambda>_. q)) (w\<lparr>app_values := h\<rparr>) = Some w'"
  shows "receiver_gives ops w (R_Decode req src p) w'"
proof -
  note f = malloc_fresh [OF assms(5,4)]
  have read: "rd_read x (w\<lparr>app_values := h\<rparr>) = rd_read x w" for x by (simp add: rd_read_def)
  have vals: "app_values w' = h" using rd_write_values [OF assms(6)] by simp
  have "value_at w' x = (if x = p then q else value_at w x)" "error_at w' x = error_at w x" for x
    using rd_write_read [OF assms(6)] assms(1) by (auto simp: value_at_def error_at_def read split: option.splits)
  with f vals assms(1-3) show ?thesis by (auto simp: receiver_gives_def)
qed

lemma proceed_gives:
  assumes a: "proceed ops r w = Some (r', w')" and s: "sim w A"
  shows "receiver_gives ops w r w'"
proof (cases r)
  case (R_Failure src p)
  with a obtain d where d: "rd_read p w = Some d" and w: "(if address_match ops (rd_targetAddress d) src
      then rd_write p (rd_errorDetected_update (\<lambda>_. True)) w else Some w) = Some w'"
    by (auto split: Option.bind_split_asm)
  show ?thesis
  proof (cases "address_match ops (rd_targetAddress d) src")
    case True
    with rd_error_gives [of p True w w'] w d R_Failure show ?thesis by (auto simp: receiver_gives_def)
  next
    case False
    with w show ?thesis by (simp add: receiver_gives_same)
  qed
next
  case (R_Decode req src p)
  with a obtain d where d: "rd_read p w = Some d" and w: "(if src_matches ops d (Some src)
      then (case decode_ack ops req of
          Some v \<Rightarrow>
            (let (q, h) = malloc \<lparr>value_next = NULL, value_data = v\<rparr> (app_values w)
             in rd_write p (rd_value_update (\<lambda>_. q)) (w\<lparr>app_values := h\<rparr>))
        | None \<Rightarrow> Some w)
      else Some w) = Some w'" by (auto split: Option.bind_split_asm)
  have ok: "heap_ok (app_values w)" using sim_app_values [OF s] by simp
  from w consider "w' = w" | v q h where "address_match ops (rd_targetAddress d) src" "decode_ack ops req = Some v"
    "malloc \<lparr>value_next = NULL, value_data = v\<rparr> (app_values w) = (q, h)"
    "rd_write p (rd_value_update (\<lambda>_. q)) (w\<lparr>app_values := h\<rparr>) = Some w'"
    by (auto simp: src_matches_def split: if_splits option.splits prod.splits)
  then show ?thesis
  proof cases
    case 1
    then show ?thesis by (simp add: receiver_gives_same)
  next
    case (2 v q h)
    with decode_gives [OF d 2(1,2,3) ok 2(4)] R_Decode show ?thesis by simp
  qed
qed (use a in \<open>auto intro!: receiver_gives_same simp: Let_def split: Option.bind_split_asm if_split_asm dest!: same_gives\<close>)


section \<open>Addresses are not used again\<close>

named_theorems same_brk

lemma access_brk [same_brk]:
  "rd_write p f w = Some w' \<Longrightarrow> rd_brk w' = rd_brk w"
  "rd_lock p w = Some w' \<Longrightarrow> rd_brk w' = rd_brk w"
  "rd_unlock p w = Some w' \<Longrightarrow> rd_brk w' = rd_brk w"
  "rd_signal p w = Some w' \<Longrightarrow> rd_brk w' = rd_brk w"
  "rd_list_lock w = Some w' \<Longrightarrow> rd_brk w' = rd_brk w"
  "rd_list_unlock w = Some w' \<Longrightarrow> rd_brk w' = rd_brk w"
  by (auto simp: rd_write_def rd_lock_def rd_unlock_def rd_signal_def rd_list_lock_def rd_list_unlock_def
      ll_put_def ll_lock_def ll_unlock_def modify_def rd_brk_def split: Option.bind_split_asm if_split_asm)

lemma dcm_access_brk [same_brk]:
  "dcm_write m g w = Some w' \<Longrightarrow> rd_brk w' = rd_brk w"
  "dcm_lock m w = Some w' \<Longrightarrow> rd_brk w' = rd_brk w"
  "dcm_unlock m w = Some w' \<Longrightarrow> rd_brk w' = rd_brk w"
  "dcm_signal m w = Some w' \<Longrightarrow> rd_brk w' = rd_brk w"
  "dcm_get_world i w = Some (m, w') \<Longrightarrow> rd_brk w' = rd_brk w"
  by (auto simp: dcm_write_def dcm_lock_def dcm_unlock_def dcm_signal_def dcm_get_world_def rd_brk_def
      split: Option.bind_split_asm if_split_asm)

lemma bind_brk [same_brk]:
  "bind_request ops dev p w = Some (b, w') \<Longrightarrow> rd_brk w' = rd_brk w"
  by (auto simp: bind_request_def Let_def split: prod.split_asm option.split_asm Option.bind_split_asm
      dest!: same_brk)

lemma rebind_brk [same_brk]:
  "rebind ops elapsed p dev w = Some (b, w') \<Longrightarrow> rd_brk w' = rd_brk w"
  by (auto simp: rebind_def Let_def split: if_split_asm Option.bind_split_asm dest!: same_brk)

lemma send_request_brk [same_brk]: "send_request send p w = Some w' \<Longrightarrow> rd_brk w' = rd_brk w"
  by (auto simp: send_request_def Let_def split: prod.split_asm Option.bind_split_asm dest!: same_brk)

lemma advance_brk: "advance ops q pc w = Some (pc', w') \<Longrightarrow> rd_brk w' = rd_brk w"
  by (cases pc) (auto split: Option.bind_split_asm if_split_asm
      dest!: same_brk dcm_set_brk dcm_remove_brk rd_remove_brk)

lemma start_brk: "start ops t e w = Some (r', w') \<Longrightarrow> sim w A \<Longrightarrow> rd_brk w' = rd_brk w"
  by (cases e) (auto simp: look_up_def look_up_device_def Let_def rd_get_sim
      split: if_split_asm prod.split_asm Option.bind_split_asm dest!: same_brk ae_set_brk)

lemma proceed_brk: "proceed ops r w = Some (r', w') \<Longrightarrow> rd_brk w' = rd_brk w"
  by (cases r) (auto simp: Let_def malloc_def rd_brk_def [of "_\<lparr>app_values := _\<rparr>"]
      split: if_split_asm option.split_asm Option.bind_split_asm dest!: same_brk)

section \<open>Runs\<close>

lemma run_append: "run ops t (xs @ ys) s = do { s1 \<leftarrow> run ops t xs s; run ops t ys s1 }"
  by (induction xs arbitrary: s) (auto split: bind_splits)

lemma run_snoc:
  assumes "run ops t (xs @ [x]) s0 = Some s'"
  obtains s where "run ops t xs s0 = Some s" and "perform ops t x s = Some s'"
  using assms by (auto simp: run_append split: Option.bind_split_asm)

lemma perform_consistent:
  "perform ops t x s = Some s' \<Longrightarrow> consistent False s A \<Longrightarrow> \<exists>A'. consistent False s' A'"
  using perform_step step_inv by blast

lemma run_consistent:
  "run ops t xs s = Some s' \<Longrightarrow> consistent False s A \<Longrightarrow> \<exists>A'. consistent False s' A'"
  using run_steps steps_inv by blast

lemma consistent_entry:
  "consistent False s A \<Longrightarrow> entry_of (pcs s c) = Some p \<Longrightarrow> p \<in> fst ` set (calls A)"
  using ownedD(1) [of "calls A" rd_mutex "entry_of \<circ> pcs s"] by (auto simp: consistent_def)

lemma go_gives:
  assumes "perform ops t (Go c) s = Some s'" and "consistent False s A"
  obtains pc' w' where "advance ops (reqs s c) (pcs s c) (mem s) = Some (pc', w')" and "s' = move c (pc', w') s"
    and "caller_gives (mem s) (pcs s c) pc' w'"
proof -
  from assms(1) obtain pc' w' where a: "advance ops (reqs s c) (pcs s c) (mem s) = Some (pc', w')"
    "s' = move c (pc', w') s" by (auto split: Option.bind_split_asm)
  have "sim (mem s) A" using assms(2) by (simp add: consistent_def)
  then have "caller_gives (mem s) (pcs s c) pc' w'"
    by (rule advance_gives [OF a(1)]) (rule consistent_entry [OF assms(2)])
  with that a show thesis by blast
qed

text \<open>The entry of a call is new when the call starts, and stays its entry.\<close>

lemma perform_owner:
  assumes "perform ops t x s = Some s'" and "consistent False s A"
  shows "rd_brk (mem s) \<le> rd_brk (mem s')"
    and "entry_of (pcs s' c) = Some p \<Longrightarrow> p < rd_brk (mem s) \<Longrightarrow> entry_of (pcs s c) = Some p"
proof -
  have s: "sim (mem s) A" using assms(2) by (simp add: consistent_def)
  have "rd_brk (mem s) \<le> rd_brk (mem s') \<and>
      (entry_of (pcs s' c) = Some p \<longrightarrow> p < rd_brk (mem s) \<longrightarrow> entry_of (pcs s c) = Some p)"
  proof (cases x)
    case (Call c' q)
    with assms(1) show ?thesis by (auto split: Option.bind_split_asm if_split_asm dest!: rd_set_brk)
  next
    case (Go c')
    from go_gives [OF assms(1) [unfolded Go] assms(2)] obtain pc' w' where
      a: "advance ops (reqs s c') (pcs s c') (mem s) = Some (pc', w')" "s' = move c' (pc', w') s"
      "caller_gives (mem s) (pcs s c') pc' w'" .
    with advance_brk [OF a(1)] show ?thesis by (auto simp: caller_gives_def)
  next
    case (Message e)
    with assms(1) start_brk [OF _ s] show ?thesis by (auto split: Option.bind_split_asm if_split_asm)
  next
    case Handle
    with assms(1) proceed_brk show ?thesis by (force split: Option.bind_split_asm)
  qed
  then show "rd_brk (mem s) \<le> rd_brk (mem s')"
    and "entry_of (pcs s' c) = Some p \<Longrightarrow> p < rd_brk (mem s) \<Longrightarrow> entry_of (pcs s c) = Some p" by auto
qed

lemma run_owner:
  "run ops t xs s = Some s' \<Longrightarrow> consistent False s A \<Longrightarrow> p < rd_brk (mem s) \<Longrightarrow>
   entry_of (pcs s' c) = Some p \<Longrightarrow> entry_of (pcs s c) = Some p"
proof (induction xs arbitrary: s A)
  case (Cons x xs)
  then obtain s1 where x: "perform ops t x s = Some s1" "run ops t xs s1 = Some s'"
    by (auto split: Option.bind_split_asm)
  from perform_consistent [OF x(1) Cons.prems(2)] obtain A1 where "consistent False s1 A1" ..
  from Cons.IH [OF x(2) this] perform_owner [OF x(1) Cons.prems(2)] Cons.prems(3,4) show ?case
    by (meson order_less_le_trans)
qed simp

section \<open>Where values and errors come from\<close>

text \<open>
  \<open>came_in e p i\<close>: the message \<open>e\<close> came in while \<open>p\<close> was on the list of pending calls with the invoke
  ID \<open>i\<close>. \<open>taken_from r p src\<close>: a handler in state \<open>r\<close> found that the call \<open>p\<close> is to the device at \<open>src\<close>.
\<close>

definition came_in :: "'k bacnet_stack \<Rightarrow> apdu_handlers \<Rightarrow> 'k system \<Rightarrow> 'k choice list \<Rightarrow> event \<Rightarrow> ptr \<Rightarrow> u8 \<Rightarrow> bool"
  where
  "came_in ops t s0 xs e p i \<longleftrightarrow> (\<exists>ys zs s d. xs = ys @ Message e # zs \<and> run ops t ys s0 = Some s \<and>
     rd_read p (mem s) = Some d \<and> rd_requestInvokeID d = i)"

definition taken_from ::
    "'k bacnet_stack \<Rightarrow> apdu_handlers \<Rightarrow> 'k system \<Rightarrow> 'k choice list \<Rightarrow> receiver \<Rightarrow> ptr \<Rightarrow> bacnet_address \<Rightarrow> bool"
  where
  "taken_from ops t s0 xs r p src \<longleftrightarrow> (\<exists>ys zs s d. xs = ys @ Handle # zs \<and> run ops t ys s0 = Some s \<and>
     rcv s = r \<and> rd_read p (mem s) = Some d \<and> address_match ops (rd_targetAddress d) src)"

fun failure_of :: "apdu_handlers \<Rightarrow> event \<Rightarrow> (bacnet_address \<times> u8) option" where
  "failure_of t (Error_PDU s src i c e) = (if error_handler t s = Some Handler_Error then Some (src, i) else None)"
| "failure_of t (Abort_PDU src i r server) = (if abort_handler t = Some Handler_Abort then Some (src, i) else None)"
| "failure_of t (Reject_PDU src i r) = (if reject_handler t = Some Handler_Reject then Some (src, i) else None)"
| "failure_of t _ = None"

definition value_origin ::
    "'k bacnet_stack \<Rightarrow> apdu_handlers \<Rightarrow> 'k system \<Rightarrow> 'k choice list \<Rightarrow> ptr \<Rightarrow> app_value \<Rightarrow> bool" where
  "value_origin ops t s0 xs p v \<longleftrightarrow> (\<exists>sv req src i. confirmed_ack_handler t sv = Some Handler_ReadAck \<and>
     came_in ops t s0 xs (Confirmed_Ack sv req src i) p i \<and>
     taken_from ops t s0 xs (R_Decode req src p) p src \<and> decode_ack ops req = Some v)"

definition error_origin ::
    "'k bacnet_stack \<Rightarrow> apdu_handlers \<Rightarrow> 'k system \<Rightarrow> 'k choice list \<Rightarrow> ptr \<Rightarrow> bool" where
  "error_origin ops t s0 xs p \<longleftrightarrow> (\<exists>e src i. failure_of t e = Some (src, i) \<and>
     came_in ops t s0 xs e p i \<and> taken_from ops t s0 xs (R_Failure src p) p src)"

lemma came_in_more: "came_in ops t s0 xs e p i \<Longrightarrow> came_in ops t s0 (xs @ ys) e p i"
  unfolding came_in_def by (metis append.assoc append_Cons)

lemma taken_from_more: "taken_from ops t s0 xs r p src \<Longrightarrow> taken_from ops t s0 (xs @ ys) r p src"
  unfolding taken_from_def by (metis append.assoc append_Cons)

lemma value_origin_more: "value_origin ops t s0 xs p v \<Longrightarrow> value_origin ops t s0 (xs @ ys) p v"
  unfolding value_origin_def using came_in_more taken_from_more by metis

lemma error_origin_more: "error_origin ops t s0 xs p \<Longrightarrow> error_origin ops t s0 (xs @ ys) p"
  unfolding error_origin_def using came_in_more taken_from_more by metis

definition value_cell_is :: "'k world \<Rightarrow> ptr \<Rightarrow> app_value \<Rightarrow> bool" where
  "value_cell_is w q v \<longleftrightarrow> cells (app_values w) q = Some \<lparr>value_next = NULL, value_data = v\<rparr>"

text \<open>
  After the run \<open>xs\<close>: the message the receive thread is working on, the values and errors of the entries that
  were not there at the start, and the results that are about to be returned.
\<close>

definition origins :: "'k bacnet_stack \<Rightarrow> apdu_handlers \<Rightarrow> 'k system \<Rightarrow> 'k choice list \<Rightarrow> 'k system \<Rightarrow> bool" where
  "origins ops t s0 xs s \<longleftrightarrow>
     (\<forall>req src p. rcv s \<in> {R_Ack req src p, R_Ack_Free req src p, R_Decode req src p} \<longrightarrow>
        (\<exists>sv i. confirmed_ack_handler t sv = Some Handler_ReadAck \<and>
          came_in ops t s0 xs (Confirmed_Ack sv req src i) p i)) \<and>
     (\<forall>src p. rcv s = R_Failure src p \<longrightarrow> (\<exists>e i. failure_of t e = Some (src, i) \<and> came_in ops t s0 xs e p i)) \<and>
     (\<forall>p. rd_read p (mem s0) = None \<longrightarrow> value_at (mem s) p \<noteq> NULL \<longrightarrow>
        (\<exists>v. value_origin ops t s0 xs p v \<and> value_cell_is (mem s) (value_at (mem s) p) v)) \<and>
     (\<forall>p. rd_read p (mem s0) = None \<longrightarrow> error_at (mem s) p \<longrightarrow>
        (\<exists>c r. pcs s c = Leaving p r) \<or> error_origin ops t s0 xs p) \<and>
     (\<forall>c p q. rd_read p (mem s0) = None \<longrightarrow> pcs s c = Leaving p (Value q) \<longrightarrow> q \<noteq> NULL \<longrightarrow>
        (\<exists>v. value_origin ops t s0 xs p v \<and> value_cell_is (mem s) q v))"

lemma originsD:
  assumes "origins ops t s0 xs s"
  shows "rcv s \<in> {R_Ack req src p, R_Ack_Free req src p, R_Decode req src p} \<Longrightarrow>
      \<exists>sv i. confirmed_ack_handler t sv = Some Handler_ReadAck \<and> came_in ops t s0 xs (Confirmed_Ack sv req src i) p i"
    and "rcv s = R_Failure src p \<Longrightarrow> \<exists>e i. failure_of t e = Some (src, i) \<and> came_in ops t s0 xs e p i"
    and "rd_read p (mem s0) = None \<Longrightarrow> value_at (mem s) p \<noteq> NULL \<Longrightarrow>
      \<exists>v. value_origin ops t s0 xs p v \<and> value_cell_is (mem s) (value_at (mem s) p) v"
    and "rd_read p (mem s0) = None \<Longrightarrow> error_at (mem s) p \<Longrightarrow>
      (\<exists>c r. pcs s c = Leaving p r) \<or> error_origin ops t s0 xs p"
    and "rd_read p (mem s0) = None \<Longrightarrow> pcs s c = Leaving p (Value q) \<Longrightarrow> q \<noteq> NULL \<Longrightarrow>
      \<exists>v. value_origin ops t s0 xs p v \<and> value_cell_is (mem s) q v"
  using assms unfolding origins_def by blast+

lemma originsI:
  assumes "\<And>req src p. rcv s \<in> {R_Ack req src p, R_Ack_Free req src p, R_Decode req src p} \<Longrightarrow>
      \<exists>sv i. confirmed_ack_handler t sv = Some Handler_ReadAck \<and> came_in ops t s0 xs (Confirmed_Ack sv req src i) p i"
    and "\<And>src p. rcv s = R_Failure src p \<Longrightarrow> \<exists>e i. failure_of t e = Some (src, i) \<and> came_in ops t s0 xs e p i"
    and "\<And>p. rd_read p (mem s0) = None \<Longrightarrow> value_at (mem s) p \<noteq> NULL \<Longrightarrow>
      \<exists>v. value_origin ops t s0 xs p v \<and> value_cell_is (mem s) (value_at (mem s) p) v"
    and "\<And>p. rd_read p (mem s0) = None \<Longrightarrow> error_at (mem s) p \<Longrightarrow>
      (\<exists>c r. pcs s c = Leaving p r) \<or> error_origin ops t s0 xs p"
    and "\<And>c p q. rd_read p (mem s0) = None \<Longrightarrow> pcs s c = Leaving p (Value q) \<Longrightarrow> q \<noteq> NULL \<Longrightarrow>
      \<exists>v. value_origin ops t s0 xs p v \<and> value_cell_is (mem s) q v"
  shows "origins ops t s0 xs s"
  unfolding origins_def using assms by blast

text \<open>What a step has to keep, or to bring along.\<close>

lemma origins_step:
  assumes o: "origins ops t s0 xs s"
    and ack: "\<And>req src p. rcv s' \<in> {R_Ack req src p, R_Ack_Free req src p, R_Decode req src p} \<Longrightarrow>
      rcv s \<in> {R_Ack req src p, R_Ack_Free req src p, R_Decode req src p} \<or>
      (\<exists>sv i. confirmed_ack_handler t sv = Some Handler_ReadAck \<and> came_in ops t s0 (xs @ [x]) (Confirmed_Ack sv req src i) p i)"
    and fail: "\<And>src p. rcv s' = R_Failure src p \<Longrightarrow> rcv s = R_Failure src p \<or>
      (\<exists>e i. failure_of t e = Some (src, i) \<and> came_in ops t s0 (xs @ [x]) e p i)"
    and val: "\<And>p. rd_read p (mem s0) = None \<Longrightarrow> value_at (mem s') p \<noteq> NULL \<Longrightarrow> value_at (mem s') p = value_at (mem s) p \<or>
      (\<exists>v. value_origin ops t s0 (xs @ [x]) p v \<and> value_cell_is (mem s') (value_at (mem s') p) v)"
    and err: "\<And>p. error_at (mem s') p \<Longrightarrow> error_at (mem s) p \<and> ((\<exists>c r. pcs s c = Leaving p r) \<longrightarrow> (\<exists>c r. pcs s' c = Leaving p r)) \<or>
      (\<exists>c r. pcs s' c = Leaving p r) \<or> error_origin ops t s0 (xs @ [x]) p"
    and ret: "\<And>c p q. pcs s' c = Leaving p (Value q) \<Longrightarrow> q \<noteq> NULL \<Longrightarrow>
      pcs s c = Leaving p (Value q) \<or> q = value_at (mem s) p"
    and cell: "\<And>q v. value_cell_is (mem s) q v \<Longrightarrow> value_cell_is (mem s') q v"
  shows "origins ops t s0 (xs @ [x]) s'"
proof (rule originsI)
  show "\<exists>sv i. confirmed_ack_handler t sv = Some Handler_ReadAck \<and>
      came_in ops t s0 (xs @ [x]) (Confirmed_Ack sv req src i) p i"
    if "rcv s' \<in> {R_Ack req src p, R_Ack_Free req src p, R_Decode req src p}" for req src p
    using ack [OF that] originsD(1) [OF o, of req src p] came_in_more by blast
  show "\<exists>e i. failure_of t e = Some (src, i) \<and> came_in ops t s0 (xs @ [x]) e p i"
    if "rcv s' = R_Failure src p" for src p
    using fail [OF that] originsD(2) [OF o, of src p] came_in_more by blast
  show "\<exists>v. value_origin ops t s0 (xs @ [x]) p v \<and> value_cell_is (mem s') (value_at (mem s') p) v"
    if n: "rd_read p (mem s0) = None" "value_at (mem s') p \<noteq> NULL" for p
    using val [OF n]
  proof
    assume same: "value_at (mem s') p = value_at (mem s) p"
    with originsD(3) [OF o n(1)] n(2) value_origin_more cell show ?thesis by metis
  qed
  show "(\<exists>c r. pcs s' c = Leaving p r) \<or> error_origin ops t s0 (xs @ [x]) p"
    if n: "rd_read p (mem s0) = None" "error_at (mem s') p" for p
    using err [OF n(2)] originsD(4) [OF o n(1)] error_origin_more by blast
  show "\<exists>v. value_origin ops t s0 (xs @ [x]) p v \<and> value_cell_is (mem s') q v"
    if n: "rd_read p (mem s0) = None" "pcs s' c = Leaving p (Value q)" "q \<noteq> NULL" for c p q
    using ret [OF n(2,3)]
  proof
    assume "pcs s c = Leaving p (Value q)"
    from originsD(5) [OF o n(1) this n(3)] value_origin_more cell show ?thesis by blast
  next
    assume q: "q = value_at (mem s) p"
    with originsD(3) [OF o n(1)] n(3) value_origin_more cell show ?thesis by blast
  qed
qed

text \<open>A step of a caller.\<close>

lemma origins_call:
  assumes o: "origins ops t s0 xs s" and p: "perform ops t (Call c q) s = Some s'" and i: "consistent False s A"
  shows "origins ops t s0 (xs @ [Call c q]) s'"
proof -
  from p obtain p w where w: "rd_set_world (asked_id q) (mem s) = Some (p, w)" "\<not> active (pcs s c)"
    and s': "mem s' = w" "pcs s' = (pcs s)(c := Added p)" "rcv s' = rcv s"
    by (auto split: Option.bind_split_asm if_split_asm)
  have "sim (mem s) A" using i by (simp add: consistent_def)
  with rd_set_gives [OF w(1)] s'(1) have "gives (mem s') = gives (mem s)" by blast
  then have v: "value_at (mem s') = value_at (mem s)" "error_at (mem s') = error_at (mem s)"
    "value_cell_is (mem s') = value_cell_is (mem s)" by (simp_all add: gives_def value_cell_is_def fun_eq_iff)
  have away: "pcs s' c' = pcs s c'" if "pcs s c' = Leaving x r" for c' x r
    using that w(2) s'(2) by auto
  have old: "pcs s c' = Leaving x r" if "pcs s' c' = Leaving x r" for c' x r
    using that s'(2) by (auto split: if_splits)
  show ?thesis
    by (rule origins_step [OF o]) (use v s'(3) old away in \<open>metis\<close>)+
qed

lemma origins_go:
  assumes o: "origins ops t s0 xs s" and p: "perform ops t (Go c) s = Some s'" and i: "consistent False s A"
  shows "origins ops t s0 (xs @ [Go c]) s'"
proof -
  from go_gives [OF p i] obtain pc' w' where s': "s' = move c (pc', w') s"
    and g: "caller_gives (mem s) (pcs s c) pc' w'" .
  have same: "value_cell_is (mem s') = value_cell_is (mem s)" "rcv s' = rcv s"
    using g s' by (simp_all add: caller_gives_def value_cell_is_def fun_eq_iff)
  have g_val: "value_at (mem s') x = value_at (mem s) x \<or> value_at (mem s') x = NULL"
    and g_err: "error_at (mem s') x \<Longrightarrow> error_at (mem s) x \<and> (\<forall>r. pcs s c \<noteq> Leaving x r) \<or> (\<exists>r. pc' = Leaving x r)"
    and g_ret: "pc' = Leaving x (Value v) \<Longrightarrow> v \<noteq> NULL \<Longrightarrow> v = value_at (mem s) x" for x v
    using g s' unfolding caller_gives_def by auto
  have pc: "pcs s' c = pc'" "c' \<noteq> c \<Longrightarrow> pcs s' c' = pcs s c'" for c' using s' by simp_all
  show ?thesis
  proof (rule origins_step [OF o])
    show "error_at (mem s) x \<and> ((\<exists>c r. pcs s c = Leaving x r) \<longrightarrow> (\<exists>c r. pcs s' c = Leaving x r)) \<or>
      (\<exists>c r. pcs s' c = Leaving x r) \<or> error_origin ops t s0 (xs @ [Go c]) x" if "error_at (mem s') x" for x
      using g_err [OF that] pc by metis
    show "pcs s c' = Leaving x (Value y) \<or> y = value_at (mem s) x"
      if "pcs s' c' = Leaving x (Value y)" "y \<noteq> NULL" for c' x y
      using that g_ret [of x y] pc by (cases "c' = c") auto
    show "value_at (mem s') x = value_at (mem s) x \<or>
        (\<exists>v. value_origin ops t s0 (xs @ [Go c]) x v \<and> value_cell_is (mem s') (value_at (mem s') x) v)"
      if "value_at (mem s') x \<noteq> NULL" for x
      using g_val [of x] that by auto
  qed (use same in simp_all)
qed

text \<open>A message comes in: the entry that is looked up has its invoke ID.\<close>

lemma look_up_entry:
  assumes "look_up next i w = Some (r', w')" and "sim w A"
  shows "w' = w \<and> (r' = R_Idle \<or> (\<exists>p d. r' = next p \<and> rd_read p w = Some d \<and> rd_requestInvokeID d = i))"
proof -
  let ?p = "first_match (rd_is i) (calls A)"
  from assms have r: "w' = w" "r' = (if ?p \<noteq> NULL then next ?p else R_Idle)"
    by (auto simp: look_up_def rd_get_sim)
  show ?thesis
  proof (cases "?p = NULL")
    case False
    from first_match_Some [OF refl False] sim_distinct [OF assms(2)] obtain d where
      "map_of (calls A) ?p = Some d" "rd_requestInvokeID d = i" by blast
    with r False rd_read_sim [OF assms(2)] show ?thesis by metis
  qed (use r in simp)
qed

lemma message_looks_up:
  assumes "start ops t e w = Some (r', w')" and "sim w A"
  shows "(r' \<in> {R_Ack req src p, R_Ack_Free req src p, R_Decode req src p} \<longrightarrow> (\<exists>sv i d. e = Confirmed_Ack sv req src i \<and>
      confirmed_ack_handler t sv = Some Handler_ReadAck \<and> rd_read p w = Some d \<and> rd_requestInvokeID d = i)) \<and>
    (r' = R_Failure src p \<longrightarrow> (\<exists>i d. failure_of t e = Some (src, i) \<and> rd_read p w = Some d \<and>
      rd_requestInvokeID d = i))"
  using assms
  by (cases e) (auto simp: look_up_device_def Let_def
      split: if_split_asm prod.split_asm Option.bind_split_asm dest!: look_up_entry [OF _ assms(2)])

lemma origins_message:
  assumes o: "origins ops t s0 xs s" and p: "perform ops t (Message e) s = Some s'" and i: "consistent False s A"
    and run: "run ops t xs s0 = Some s"
  shows "origins ops t s0 (xs @ [Message e]) s'"
proof -
  have s: "sim (mem s) A" using i by (simp add: consistent_def)
  from p obtain r' w' where st: "start ops t e (mem s) = Some (r', w')"
    and s': "mem s' = w'" "pcs s' = pcs s" "rcv s' = r'" by (auto split: Option.bind_split_asm if_split_asm)
  have "gives (mem s') = gives (mem s)" using start_gives [OF st s] s'(1) by simp
  then have v: "value_at (mem s') = value_at (mem s)" "error_at (mem s') = error_at (mem s)"
    "value_cell_is (mem s') = value_cell_is (mem s)" by (simp_all add: gives_def value_cell_is_def fun_eq_iff)
  have came: "came_in ops t s0 (xs @ [Message e]) e x j" if "rd_read x (mem s) = Some d" "rd_requestInvokeID d = j" for x d j
    unfolding came_in_def using run that by blast
  note looked = message_looks_up [OF st s]
  show ?thesis
  proof (rule origins_step [OF o], unfold v s'(2,3))
    show "rcv s \<in> {R_Ack req src x, R_Ack_Free req src x, R_Decode req src x} \<or>
        (\<exists>sv i. confirmed_ack_handler t sv = Some Handler_ReadAck \<and>
          came_in ops t s0 (xs @ [Message e]) (Confirmed_Ack sv req src i) x i)"
      if "r' \<in> {R_Ack req src x, R_Ack_Free req src x, R_Decode req src x}" for req src x
      using looked [of req src x] that came by metis
    show "rcv s = R_Failure src x \<or> (\<exists>e' i. failure_of t e' = Some (src, i) \<and> came_in ops t s0 (xs @ [Message e]) e' x i)"
      if "r' = R_Failure src x" for src x
      using looked [of _ src x] that came by metis
  qed simp_all
qed

text \<open>A step of a handler.\<close>

lemma proceed_stays:
  assumes "proceed ops r w = Some (r', w')"
  shows "r' \<in> {R_Ack req src p, R_Ack_Free req src p, R_Decode req src p} \<Longrightarrow>
      r \<in> {R_Ack req src p, R_Ack_Free req src p, R_Decode req src p}"
    and "r' \<noteq> R_Failure src p"
  using assms by (cases r; auto split: Option.bind_split_asm if_split_asm)+

lemma origins_handle:
  assumes o: "origins ops t s0 xs s" and p: "perform ops t Handle s = Some s'" and i: "consistent False s A"
    and run: "run ops t xs s0 = Some s"
  shows "origins ops t s0 (xs @ [Handle]) s'"
proof -
  have s: "sim (mem s) A" using i by (simp add: consistent_def)
  from p obtain r' w' where st: "proceed ops (rcv s) (mem s) = Some (r', w')"
    and s': "mem s' = w'" "pcs s' = pcs s" "rcv s' = r'" by (auto split: Option.bind_split_asm)
  note g = proceed_gives [OF st s]
  have taken: "taken_from ops t s0 (xs @ [Handle]) r x src"
    if "rcv s = r" "rd_read x (mem s) = Some d" "address_match ops (rd_targetAddress d) src" for r x d src
    unfolding taken_from_def using run that by blast
  show ?thesis
  proof (rule origins_step [OF o], unfold s')
    show "value_at w' x = value_at (mem s) x \<or>
        (\<exists>v. value_origin ops t s0 (xs @ [Handle]) x v \<and> value_cell_is w' (value_at w' x) v)" for x
    proof (cases "value_at w' x = value_at (mem s) x")
      case False
      with g obtain req src v d where d: "rcv s = R_Decode req src x" "rd_read x (mem s) = Some d"
        "address_match ops (rd_targetAddress d) src" "decode_ack ops req = Some v"
        "value_cell_is w' (value_at w' x) v" unfolding receiver_gives_def value_cell_is_def by blast
      from originsD(1) [OF o, of req src x] d(1) obtain sv j where
        "confirmed_ack_handler t sv = Some Handler_ReadAck" "came_in ops t s0 xs (Confirmed_Ack sv req src j) x j" by auto
      with came_in_more taken [OF d(1-3)] d(4) have "value_origin ops t s0 (xs @ [Handle]) x v"
        unfolding value_origin_def by blast
      with d(5) show ?thesis by blast
    qed simp
    show "error_at (mem s) x \<and> ((\<exists>c r. pcs s c = Leaving x r) \<longrightarrow> (\<exists>c r. pcs s c = Leaving x r)) \<or>
        (\<exists>c r. pcs s c = Leaving x r) \<or> error_origin ops t s0 (xs @ [Handle]) x" if "error_at w' x" for x
    proof (cases "error_at (mem s) x")
      case False
      with g that obtain src d where d: "rcv s = R_Failure src x" "rd_read x (mem s) = Some d"
        "address_match ops (rd_targetAddress d) src" unfolding receiver_gives_def by blast
      from originsD(2) [OF o d(1)] came_in_more taken [OF d] have "error_origin ops t s0 (xs @ [Handle]) x"
        unfolding error_origin_def by blast
      then show ?thesis by blast
    qed simp
    show "value_cell_is w' q v" if "value_cell_is (mem s) q v" for q v
      using g that unfolding receiver_gives_def value_cell_is_def by blast
  qed (use proceed_stays [OF st] in \<open>auto\<close>)
qed

text \<open>At the start nothing has been asked; then every run keeps its origins.\<close>

lemma origins_start: "at_rest s0 \<Longrightarrow> origins ops t s0 [] s0"
proof -
  assume rest: "at_rest s0"
  have idle: "\<not> active (pcs s0 c)" for c using rest by (simp add: at_rest_def)
  have "pcs s0 c \<noteq> Leaving p r" for c p r using idle [of c] by (cases "pcs s0 c") auto
  moreover have "rcv s0 = R_Idle" using rest by (simp add: at_rest_def)
  ultimately show ?thesis by (intro originsI) (auto simp: value_at_def error_at_def)
qed

lemma run_origins:
  assumes "at_rest s0"
  shows "run ops t xs s0 = Some s \<Longrightarrow> origins ops t s0 xs s \<and> (\<exists>A. consistent False s A)"
proof (induction xs arbitrary: s rule: rev_induct)
  case Nil
  with origins_start [OF assms] rest_consistent [OF assms] show ?case by auto
next
  case (snoc x xs)
  from run_snoc [OF snoc.prems] obtain s1 where r: "run ops t xs s0 = Some s1" "perform ops t x s1 = Some s" .
  with snoc.IH obtain A where o: "origins ops t s0 xs s1" and i: "consistent False s1 A" by blast
  have "origins ops t s0 (xs @ [x]) s"
    using origins_call [OF o _ i] origins_go [OF o _ i] origins_message [OF o _ i r(1)] origins_handle [OF o _ i r(1)]
      r(2) by (cases x) blast+
  with perform_consistent [OF r(2) i] show ?case by blast
qed

text \<open>An entry that was on the list belonged to the call it belongs to now.\<close>

lemma entry_was_own:
  assumes "at_rest s0" and "run ops t (ys @ zs) s0 = Some s" and "run ops t ys s0 = Some s1"
    and "entry_of (pcs s c) = Some p" and "rd_read p (mem s1) \<noteq> None"
  shows "entry_of (pcs s1 c) = Some p"
proof -
  from run_origins [OF assms(1,3)] obtain A where i: "consistent False s1 A" by blast
  then have s: "sim (mem s1) A" by (simp add: consistent_def)
  have "run ops t zs s1 = Some s" using assms(2,3) by (simp add: run_append)
  moreover have "p < rd_brk (mem s1)"
    using assms(5) sim_below [OF s] by (simp add: rd_read_map [OF s] map_of_eq_None_iff)
  ultimately show ?thesis by (rule run_owner [OF _ i _ assms(4)])
qed

end
