(* ===== verification/Answers.thy ===== *)
theory Answers
  imports Origins
begin

text \<open>
  A message for a call that waits for it gets through: the receive thread can handle it, and the call then ends
  with the result the message brings, while the other callers stand still.
\<close>

section \<open>One entry\<close>

text \<open>\<open>entry_holds p d h w\<close>: the entry \<open>p\<close> is on the list and holds \<open>d\<close>; the values are \<open>h\<close>.\<close>

definition entry_holds :: "ptr \<Rightarrow> return_data \<Rightarrow> value_cell heap \<Rightarrow> 'k world \<Rightarrow> bool" where
  "entry_holds p d h w \<longleftrightarrow> (\<exists>A. sim w A \<and> map_of (calls A) p = Some d \<and> vals A = h)"

lemma entry_holds_read: "entry_holds p d h w \<Longrightarrow> rd_read p w = Some d \<and> app_values w = h \<and> heap_ok h"
  by (auto simp: entry_holds_def rd_read_map dest: sim_app_values)

lemma entry_holds_write:
  assumes "entry_holds p d h w"
  shows "\<exists>w'. rd_write p f w = Some w' \<and> entry_holds p (f d) h w'"
proof -
  from assms obtain A where A: "sim w A" "map_of (calls A) p = Some d" "vals A = h" by (auto simp: entry_holds_def)
  from rd_write_sim [OF A(1,2), of f] obtain w' where
    w': "rd_write p f w = Some w'" "sim w' (A\<lparr>calls := AList.map_entry p f (calls A)\<rparr>)" by blast
  then have "entry_holds p (f d) h w'"
    unfolding entry_holds_def using A(2,3)
    by (intro exI [of _ "A\<lparr>calls := AList.map_entry p f (calls A)\<rparr>"]) simp
  with w'(1) show ?thesis by blast
qed

lemma entry_holds_lock:
  "entry_holds p d h w \<Longrightarrow> \<not> rd_mutex d \<Longrightarrow> \<exists>w'. rd_lock p w = Some w' \<and> entry_holds p (d\<lparr>rd_mutex := True\<rparr>) h w'"
  using entry_holds_write [of p d h w "rd_mutex_update (\<lambda>_. True)"] entry_holds_read [of p d h w]
  by (auto simp: rd_lock_def)

lemma entry_holds_unlock:
  "entry_holds p d h w \<Longrightarrow> rd_mutex d \<Longrightarrow> \<exists>w'. rd_unlock p w = Some w' \<and> entry_holds p (d\<lparr>rd_mutex := False\<rparr>) h w'"
  using entry_holds_write [of p d h w "rd_mutex_update (\<lambda>_. False)"] entry_holds_read [of p d h w]
  by (auto simp: rd_unlock_def)

lemma entry_holds_signal:
  "entry_holds p d h w \<Longrightarrow> \<exists>w'. rd_signal p w = Some w' \<and> entry_holds p (d\<lparr>rd_condition := True\<rparr>) h w'"
  using entry_holds_write [of p d h w "rd_condition_update (\<lambda>_. True)"] by (auto simp: rd_signal_def)

lemma entry_holds_value:
  assumes "entry_holds p d h w" and "malloc c h = (q, h')"
  shows "\<exists>w'. rd_write p (rd_value_update (\<lambda>_. q)) (w\<lparr>app_values := h'\<rparr>) = Some w' \<and>
    entry_holds p (d\<lparr>rd_value := q\<rparr>) h' w'"
proof -
  from assms(1) obtain A where A: "sim w A" "map_of (calls A) p = Some d" "vals A = h" by (auto simp: entry_holds_def)
  have "heap_ok h'" using entry_holds_read [OF assms(1)] heap_ok_malloc [OF _ assms(2)] by simp
  from sim_vals [OF A(1) this] A(2) have "entry_holds p d h' (w\<lparr>app_values := h'\<rparr>)"
    unfolding entry_holds_def by (intro exI [of _ "A\<lparr>vals := h'\<rparr>"]) simp
  from entry_holds_write [OF this, of "rd_value_update (\<lambda>_. q)"] show ?thesis by simp
qed

lemma entry_holds_remove: "entry_holds p d h w \<Longrightarrow> \<exists>w'. rd_remove_world p w = Some w' \<and> app_values w' = h \<and> rd_read p w' = None"
proof -
  assume "entry_holds p d h w"
  then obtain A where A: "sim w A" "map_of (calls A) p = Some d" "vals A = h" by (auto simp: entry_holds_def)
  from rd_remove_sim [OF A(1,2)] obtain w' where
    w': "rd_remove_world p w = Some w'" "sim w' (A\<lparr>calls := AList.delete p (calls A)\<rparr>)" by blast
  from rd_read_map [OF w'(2), of p] have "rd_read p w' = None" by (simp add: AList.delete_conv')
  with w' sim_app_values [OF w'(2)] A(3) show ?thesis by auto
qed

section \<open>Steps of the receive thread and of one caller\<close>

text \<open>\<open>reaches c s pc w r\<close>: with only these two moving, \<open>c\<close> and the receive thread get to \<open>pc\<close> and \<open>r\<close>.\<close>

definition reaches ::
    "'k bacnet_stack \<Rightarrow> apdu_handlers \<Rightarrow> bool \<Rightarrow> nat \<Rightarrow> 'k system \<Rightarrow> caller \<Rightarrow> 'k world \<Rightarrow> receiver \<Rightarrow> bool" where
  "reaches ops t excl c s pc w r \<longleftrightarrow>
     (\<exists>s'. steps ops t excl s s' \<and> pcs s' = (pcs s)(c := pc) \<and> reqs s' = reqs s \<and> mem s' = w \<and> rcv s' = r)"

lemma reaches_start: "reaches ops t excl c s (pcs s c) (mem s) (rcv s)"
  unfolding reaches_def by (intro exI [of _ s]) simp

lemma reaches_go:
  assumes "reaches ops t excl c s pc w r" and "advance ops (reqs s c) pc w = Some (pc', w')"
  shows "reaches ops t excl c s pc' w' r"
proof -
  from assms(1) obtain s1 where s1: "steps ops t excl s s1" "pcs s1 = (pcs s)(c := pc)" "reqs s1 = reqs s"
    "mem s1 = w" "rcv s1 = r" by (auto simp: reaches_def)
  then have "advance ops (reqs s1 c) (pcs s1 c) (mem s1) = Some (pc', w')" using assms(2) by simp
  from step.go_on [OF this] s1(1) have "steps ops t excl s (move c (pc', w') s1)" by (rule rtranclp.rtrancl_into_rtrancl [rotated])
  with s1 show ?thesis unfolding reaches_def by (intro exI [of _ "move c (pc', w') s1"]) simp
qed

lemma reaches_message:
  assumes "reaches ops t excl c s pc w R_Idle" and "event_wf e" and "start ops t e w = Some (r', w')"
  shows "reaches ops t excl c s pc w' r'"
proof -
  from assms(1) obtain s1 where s1: "steps ops t excl s s1" "pcs s1 = (pcs s)(c := pc)" "reqs s1 = reqs s"
    "mem s1 = w" "rcv s1 = R_Idle" by (auto simp: reaches_def)
  then have "start ops t e (mem s1) = Some (r', w')" using assms(3) by simp
  from step.message [OF s1(5) assms(2) this] s1(1) have "steps ops t excl s (move_rcv (r', w') s1)"
    by (rule rtranclp.rtrancl_into_rtrancl [rotated])
  with s1 show ?thesis unfolding reaches_def by (intro exI [of _ "move_rcv (r', w') s1"]) simp
qed

lemma reaches_handle:
  assumes "reaches ops t excl c s pc w r" and "proceed ops r w = Some (r', w')"
  shows "reaches ops t excl c s pc w' r'"
proof -
  from assms(1) obtain s1 where s1: "steps ops t excl s s1" "pcs s1 = (pcs s)(c := pc)" "reqs s1 = reqs s"
    "mem s1 = w" "rcv s1 = r" by (auto simp: reaches_def)
  then have "proceed ops (rcv s1) (mem s1) = Some (r', w')" using assms(2) by simp
  from step.handle_on [OF this] s1(1) have "steps ops t excl s (move_rcv (r', w') s1)"
    by (rule rtranclp.rtrancl_into_rtrancl [rotated])
  with s1 show ?thesis unfolding reaches_def by (intro exI [of _ "move_rcv (r', w') s1"]) simp
qed

text \<open>From the signal to the caller's look at its entry.\<close>

lemma reaches_signalled:
  assumes "reaches ops t excl c s (Call_Blocked p) w (R_Locked p)" and "entry_holds p d h w" and "rd_mutex d"
  shows "\<exists>w'. reaches ops t excl c s (Call_Over p) w' R_Idle \<and> entry_holds p (d\<lparr>rd_condition := True, rd_mutex := False\<rparr>) h w'"
proof -
  from entry_holds_signal [OF assms(2)] obtain w1 where
    w1: "rd_signal p w = Some w1" "entry_holds p (d\<lparr>rd_condition := True\<rparr>) h w1" by blast
  have r1: "reaches ops t excl c s (Call_Blocked p) w1 (R_Signalled p)"
    by (rule reaches_handle [OF assms(1)]) (simp add: w1)
  from entry_holds_unlock [OF w1(2)] assms(3) obtain w2 where
    w2: "rd_unlock p w1 = Some w2" "entry_holds p (d\<lparr>rd_condition := True, rd_mutex := False\<rparr>) h w2" by auto
  have r2: "reaches ops t excl c s (Call_Blocked p) w2 R_Idle" by (rule reaches_handle [OF r1]) (simp add: w2)
  from entry_holds_lock [OF w2(2)] obtain w3 where
    w3: "rd_lock p w2 = Some w3" "entry_holds p (d\<lparr>rd_condition := True, rd_mutex := True\<rparr>) h w3" by auto
  have r3: "reaches ops t excl c s (Call_Woken p) w3 R_Idle" by (rule reaches_go [OF r2]) (simp add: w3)
  from entry_holds_unlock [OF w3(2)] obtain w4 where
    w4: "rd_unlock p w3 = Some w4" "entry_holds p (d\<lparr>rd_condition := True, rd_mutex := False\<rparr>) h w4" by auto
  have "reaches ops t excl c s (Call_Over p) w4 R_Idle" by (rule reaches_go [OF r3]) (simp add: w4)
  with w4(2) show ?thesis by blast
qed

lemma reaches_out:
  assumes "reaches ops t excl c s (Leaving p v) w r" and "entry_holds p d h w"
  shows "\<exists>w'. reaches ops t excl c s (Out v) w' r \<and> app_values w' = h \<and> rd_read p w' = None"
proof -
  from entry_holds_remove [OF assms(2)] obtain w' where
    w': "rd_remove_world p w = Some w'" "app_values w' = h" "rd_read p w' = None" by blast
  have "reaches ops t excl c s (Out v) w' r" by (rule reaches_go [OF assms(1)]) (simp add: w')
  with w' show ?thesis by blast
qed


section \<open>Messages for a call that waits\<close>

text \<open>A call that waits, while the receive thread is idle: its entry is on the list and its mutex is free.\<close>

lemma waiting_entry:
  assumes "consistent excl s A" and "pcs s c = Call_Blocked p" and "rcv s = R_Idle" and "rd_read p (mem s) = Some d"
  shows "entry_holds p d (app_values (mem s)) (mem s)" and "\<not> rd_mutex d"
proof -
  from assms(1) have s: "sim (mem s) A" and o: "calls_owned s A" by (simp_all add: consistent_def)
  have d: "map_of (calls A) p = Some d" using assms(4) rd_read_map [OF s] by simp
  with s sim_app_values [OF s] show "entry_holds p d (app_values (mem s)) (mem s)" by (auto simp: entry_holds_def)
  from owned_entry [OF o, of c p] d assms(2,3) show "\<not> rd_mutex d" by simp
qed

lemma read_is_answered:
  assumes r: "reaches ops t excl c s (Call_Blocked p) w (R_Ack req src p)" and e: "entry_holds p d h w"
    and free: "\<not> rd_mutex d" "rd_value d = NULL" and sender: "address_match ops (rd_targetAddress d) src"
    and val: "decode_ack ops req = Some v" and kind: "rq_kind (reqs s c) = Read"
  shows "\<exists>q w'. reaches ops t excl c s (Out (Value q)) w' R_Idle \<and> value_cell_is w' q v \<and> rd_read p w' = None"
proof -
  from entry_holds_read [OF e] have read: "rd_read p w = Some d" by simp
  have r1: "reaches ops t excl c s (Call_Blocked p) w (R_Ack_Free req src p)"
    by (rule reaches_handle [OF r]) (simp add: read free(2))
  from entry_holds_lock [OF e free(1)] obtain w1 where
    w1: "rd_lock p w = Some w1" "entry_holds p (d\<lparr>rd_mutex := True\<rparr>) h w1" by blast
  have r2: "reaches ops t excl c s (Call_Blocked p) w1 (R_Decode req src p)"
    by (rule reaches_handle [OF r1]) (simp add: w1)
  obtain q h' where m: "malloc \<lparr>value_next = NULL, value_data = v\<rparr> h = (q, h')" by fastforce
  from entry_holds_value [OF w1(2) m] obtain w2 where
    w2: "rd_write p (rd_value_update (\<lambda>_. q)) (w1\<lparr>app_values := h'\<rparr>) = Some w2"
      "entry_holds p (d\<lparr>rd_mutex := True, rd_value := q\<rparr>) h' w2" by auto
  have r3: "reaches ops t excl c s (Call_Blocked p) w2 (R_Locked p)"
    by (rule reaches_handle [OF r2])
      (use entry_holds_read [OF w1(2)] sender val m w2(1) in \<open>simp add: src_matches_def\<close>)
  from reaches_signalled [OF r3 w2(2)] obtain w3 where
    w3: "reaches ops t excl c s (Call_Over p) w3 R_Idle"
      "entry_holds p (d\<lparr>rd_mutex := True, rd_value := q, rd_condition := True, rd_mutex := False\<rparr>) h' w3" by auto
  have "reaches ops t excl c s (Leaving p (Value q)) w3 R_Idle"
    by (rule reaches_go [OF w3(1)]) (use entry_holds_read [OF w3(2)] kind in simp)
  from reaches_out [OF this w3(2)] obtain w4 where
    "reaches ops t excl c s (Out (Value q)) w4 R_Idle" "app_values w4 = h'" "rd_read p w4 = None" by blast
  moreover have "cells h' q = Some \<lparr>value_next = NULL, value_data = v\<rparr>"
    using malloc_fresh(3) [OF _ m] entry_holds_read [OF e] by simp
  ultimately show ?thesis by (auto simp: value_cell_is_def)
qed

lemma write_is_refused:
  assumes r: "reaches ops t excl c s (Call_Blocked p) w (R_Failure src p)" and e: "entry_holds p d h w"
    and free: "\<not> rd_mutex d" and sender: "address_match ops (rd_targetAddress d) src"
    and kind: "rq_kind (reqs s c) = Write"
  shows "\<exists>w'. reaches ops t excl c s (Out (Code 1)) w' R_Idle"
proof -
  from entry_holds_read [OF e] have read: "rd_read p w = Some d" by simp
  from entry_holds_write [OF e, of "rd_errorDetected_update (\<lambda>_. True)"] obtain w1 where
    w1: "rd_write p (rd_errorDetected_update (\<lambda>_. True)) w = Some w1"
      "entry_holds p (d\<lparr>rd_errorDetected := True\<rparr>) h w1" by auto
  have r1: "reaches ops t excl c s (Call_Blocked p) w1 (R_Signal p)"
    by (rule reaches_handle [OF r]) (simp add: read sender w1)
  from entry_holds_lock [OF w1(2)] free obtain w2 where
    w2: "rd_lock p w1 = Some w2" "entry_holds p (d\<lparr>rd_errorDetected := True, rd_mutex := True\<rparr>) h w2" by auto
  have r2: "reaches ops t excl c s (Call_Blocked p) w2 (R_Locked p)" by (rule reaches_handle [OF r1]) (simp add: w2)
  from reaches_signalled [OF r2 w2(2)] obtain w3 where
    w3: "reaches ops t excl c s (Call_Over p) w3 R_Idle"
      "entry_holds p (d\<lparr>rd_errorDetected := True, rd_mutex := True, rd_condition := True, rd_mutex := False\<rparr>) h w3" by auto
  have "reaches ops t excl c s (Out (Code 1)) w3 R_Idle"
    by (rule reaches_go [OF w3(1)]) (use entry_holds_read [OF w3(2)] kind in simp)
  then show ?thesis by blast
qed

lemma write_is_confirmed:
  assumes r: "reaches ops t excl c s (Call_Blocked p) w (R_Signal p)" and e: "entry_holds p d h w"
    and free: "\<not> rd_mutex d" "\<not> rd_errorDetected d" and kind: "rq_kind (reqs s c) = Write"
  shows "\<exists>w'. reaches ops t excl c s (Out (Code 0)) w' R_Idle \<and> rd_read p w' = None"
proof -
  from entry_holds_lock [OF e free(1)] obtain w2 where
    w2: "rd_lock p w = Some w2" "entry_holds p (d\<lparr>rd_mutex := True\<rparr>) h w2" by auto
  have r2: "reaches ops t excl c s (Call_Blocked p) w2 (R_Locked p)" by (rule reaches_handle [OF r]) (simp add: w2)
  from reaches_signalled [OF r2 w2(2)] obtain w3 where
    w3: "reaches ops t excl c s (Call_Over p) w3 R_Idle"
      "entry_holds p (d\<lparr>rd_mutex := True, rd_condition := True, rd_mutex := False\<rparr>) h w3" by auto
  have "reaches ops t excl c s (Leaving p (Code 0)) w3 R_Idle"
    by (rule reaches_go [OF w3(1)]) (use entry_holds_read [OF w3(2)] kind free(2) in simp)
  from reaches_out [OF this w3(2)] show ?thesis by blast
qed

text \<open>The message is looked up first.\<close>

lemma reaches_looked_up:
  assumes "consistent excl s A" and "rcv s = R_Idle" and "pcs s c = pc"
    and "rd_get_world i (mem s) = Some (p, mem s)" and "rd_read p (mem s) = Some d" and "event_wf e"
    and "start ops t e (mem s) = look_up next i (mem s)"
  shows "reaches ops t excl c s pc (mem s) (next p)"
proof -
  have s: "sim (mem s) A" using assms(1) by (simp add: consistent_def)
  have "p \<in> fst ` set (calls A)"
    using assms(5) by (simp add: rd_read_map [OF s]) (metis domI dom_map_of_conv_image_fst)
  with sim_not_NULL [OF s] have "p \<noteq> NULL" by auto
  with assms(4,7) have st: "start ops t e (mem s) = Some (next p, mem s)" by (simp add: look_up_def)
  have "reaches ops t excl c s pc (mem s) R_Idle" using reaches_start [of ops t excl c s] assms(2,3) by simp
  from reaches_message [OF this assms(6) st] show ?thesis .
qed

lemma start_failure:
  assumes "failure_of t e = Some (src, i)"
  shows "event_wf e \<and> start ops t e w = look_up (R_Failure src) i w"
  using assms by (cases e) (auto split: if_splits)

lemma reaches_steps: "reaches ops t excl c s pc w r \<Longrightarrow> \<exists>s'. steps ops t excl s s' \<and> pcs s' = (pcs s)(c := pc) \<and> mem s' = w"
  by (auto simp: reaches_def)

end
