(* ===== verification/ThreadProperties.thy ===== *)
theory ThreadProperties
  imports Progress Answers Replies
begin

text \<open>
  Properties of the threads of \<open>Threads\<close>: the functions of the sequential model are runs of them;
  callers are safe from each other and can always finish; and two races.
\<close>

section \<open>Concrete runs\<close>

definition sample_request :: "u32 \<Rightarrow> unit request" where
  "sample_request dev = \<lparr>rq_device = dev, rq_port = 47808,
     rq_send = Send_Read_Property_Request sample_stack dev 0 1 85 0, rq_kind = Read, rq_elapsed = 0\<rparr>"

definition sample_system :: "unit system" where
  "sample_system = \<lparr>mem = sample_world, pcs = (\<lambda>_. Out No_Call), reqs = (\<lambda>_. sample_request 7), rcv = R_Idle\<rparr>"

lemma sample_at_rest [simp]: "at_rest sample_system"
  unfolding at_rest_def sample_system_def
  by (simp, intro exI [of _ sample_view]) simp

text \<open>
  Thread 0 asks device 7, which is in the address cache, and waits; an error for the call comes in
  and is noted in the entry; before the handler signals, the wait times out and the call ends.
\<close>

definition late_error :: "unit choice list" where
  "late_error = Call 0 (sample_request 7) # replicate 5 (Go 0) @
     [Message (Error_PDU SERVICE_CONFIRMED_READ_PROPERTY sample_address 1 0 0), Handle] @ replicate 4 (Go 0)"

declare ll_search.simps [code]

lemma late_error_run:
  "case run sample_stack sample_handlers late_error sample_system of
     None \<Rightarrow> False
   | Some s \<Rightarrow> rcv s = R_Signal 1 \<and> rd_read 1 (mem s) = None"
  by code_simp

text \<open>
  Two threads ask the same device, which is not in the cache, and wait for its I-Am; the first one
  stops waiting and takes an entry for the device off the list.
\<close>

definition same_device :: "unit choice list" where
  "same_device = [Call 0 (sample_request 9), Call 1 (sample_request 9)] @ replicate 5 (Go 0) @
     replicate 5 (Go 1) @ replicate 3 (Go 0)"

lemma same_device_run:
  "case run sample_stack sample_handlers same_device sample_system of
     None \<Rightarrow> False
   | Some s \<Rightarrow> pcs s 1 = Wait_Blocked 2 2 \<and> dcm_read 2 (mem s) = None"
  by code_simp

text \<open>A schedule with calls of one thread only.\<close>

definition only :: "nat \<Rightarrow> 'k system \<Rightarrow> bool" where
  "only c s \<longleftrightarrow> (\<forall>c'. c' \<noteq> c \<longrightarrow> \<not> active (pcs s c'))"

fun of_thread :: "nat \<Rightarrow> 'k choice \<Rightarrow> bool" where
  "of_thread c (Call c' q) = (c' = c)"
| "of_thread c (Go c') = (c' = c)"
| "of_thread c _ = True"

lemma perform_only:
  assumes "perform ops t x s = Some s'" and "of_thread c x" and "only c s"
  shows "step ops t excl s s' \<and> only c s'"
proof (cases x)
  case (Call c' q)
  with assms obtain p w r where "rd_set_world (asked_id q) (mem s) = Some (p, w)" "pcs s c = Out r" "c' = c"
    and s': "s' = move c (Added p, w) (s\<lparr>reqs := (reqs s)(c := q)\<rparr>)"
    by (auto simp: active_iff split: Option.bind_splits if_splits)
  moreover from assms(3) have "alone_with s c (rq_device q)" by (auto simp: only_def alone_with_def)
  ultimately show ?thesis using assms(3) step.call [of s c r excl q p w ops t] by (auto simp: only_def)
next
  case (Go c')
  with assms show ?thesis by (auto simp: only_def split: Option.bind_splits intro: step.go_on)
next
  case (Message e)
  with assms show ?thesis by (auto simp: only_def split: Option.bind_splits if_splits intro: step.message)
next
  case Handle
  with assms show ?thesis by (auto simp: only_def split: Option.bind_splits intro: step.handle_on)
qed

lemma run_only:
  "run ops t xs s = Some s' \<Longrightarrow> list_all (of_thread c) xs \<Longrightarrow> only c s \<Longrightarrow> steps ops t excl s s' \<and> only c s'"
proof (induction xs arbitrary: s)
  case (Cons x xs)
  then obtain s1 where x: "perform ops t x s = Some s1" "run ops t xs s1 = Some s'"
    by (auto split: Option.bind_splits)
  with Cons.prems perform_only [of ops t x s s1 c excl] have "step ops t excl s s1" "only c s1" by auto
  with Cons.IH [of s1] Cons.prems(2) x(2) show ?case by (auto intro: converse_rtranclp_into_rtranclp)
qed simp

section \<open>Properties\<close>

text \<open>
  C15. The functions of the sequential model are runs of the threads: a read, a write or a Who-Is
  that returns, with messages handled only while it waits, is what a thread does when the other
  callers stand still, with the same result and the same shared state at the end.
\<close>

theorem sequential_calls_are_runs:
  assumes "pcs s c = Out r" and "rcv s = R_Idle" and "excl \<Longrightarrow> alone_with s c dev"
    and "list_all event_wf (bind_events env)" and "list_all event_wf (reply_events env)"
  shows "(case bacnetReadProperty ops t env dev ty inst pr idx port (mem s) of
      None \<Rightarrow> True
    | Some (ret, w) \<Rightarrow> (\<exists>s'. steps ops t excl s s' \<and> mem s' = w \<and> rcv s' = R_Idle \<and>
        pcs s' = (pcs s)(c := Out (Value ret)))) \<and>
    (case bacnetWriteProperty ops t env dev ty inst pr idx port priority v (mem s) of
      None \<Rightarrow> True
    | Some (ret, w) \<Rightarrow> (\<exists>s'. steps ops t excl s s' \<and> mem s' = w \<and> rcv s' = R_Idle \<and>
        pcs s' = (pcs s)(c := Out (Code ret)))) \<and>
    (case bacnetWhoIs ops t env (mem s) of
      None \<Rightarrow> True
    | Some (tbl, w) \<Rightarrow> (\<exists>s'. steps ops t excl s s' \<and> mem s' = w \<and> rcv s' = R_Idle \<and>
        pcs s' = (pcs s)(c := Out Table) \<and> addressEntryHead (mem s') = tbl))"
    (is "?reading \<and> ?writing \<and> ?whois")
proof (intro conjI)
  show ?reading
    using read_run [of ops t env dev ty inst pr idx port s _ _ c r excl] assms by (force split: option.splits)
  show ?writing
    using write_run [of ops t env dev ty inst pr idx port priority v s _ _ c r excl] assms
    by (force split: option.splits)
  show ?whois
    using whois_run [of ops t env s _ _ c r excl dev] assms by (force split: option.splits)
qed

lemma sequential_calls_are_runs_witness:
  "\<exists>s'. steps sample_stack sample_handlers True sample_system s' \<and>
     pcs s' = (pcs sample_system)(0 := Out (Code 0))"
proof -
  let ?env = "\<lparr>bind_events = [], reply_events = [], last_seconds = 0, current_seconds = 0\<rparr>"
  have "case bacnetWriteProperty sample_stack sample_handlers ?env 7 0 1 85 0 47808 16 TAG_NULL
      (mem sample_system) of None \<Rightarrow> False | Some x \<Rightarrow> fst x = 0" by code_simp
  then have w: "\<exists>w. bacnetWriteProperty sample_stack sample_handlers ?env 7 0 1 85 0 47808 16 TAG_NULL
      (mem sample_system) = Some (0, w)" by (auto split: option.splits)
  have "pcs sample_system 0 = Out No_Call" "rcv sample_system = R_Idle"
    "True \<Longrightarrow> alone_with sample_system 0 7" by (simp_all add: sample_system_def alone_with_def)
  from sequential_calls_are_runs [where ops = sample_stack and t = sample_handlers and env = ?env and
      dev = 7 and ty = 0 and inst = 1 and pr = 85 and idx = 0 and port = 47808 and priority = 16 and
      v = TAG_NULL and excl = True, OF this] w
  show ?thesis by auto
qed

text \<open>
  C8. Callers are safe from each other and from the receive thread, however the steps are
  interleaved: the entry of a call in progress stays allocated, belongs to no other call, and its
  mutex is held by the call or by the receive thread and never by both. The same holds for the
  entries of waiting bindings when no two threads call the same device. Then, when all calls have
  ended and the receive thread is idle, the threads are at rest again: no mutex is held and no
  waiting binding is left.
\<close>

theorem callers_safe:
  assumes "at_rest s0" and "steps ops t excl s0 s"
  shows "(\<forall>c p. entry_of (pcs s c) = Some p \<longrightarrow> (\<exists>d. rd_read p (mem s) = Some d \<and>
        rd_mutex d = (held_of (pcs s c) = Some p \<or> r_held (rcv s) = Some p))) \<and>
    (\<forall>c c' p. entry_of (pcs s c) = Some p \<longrightarrow> entry_of (pcs s c') = Some p \<longrightarrow> c = c') \<and>
    (\<forall>c p. held_of (pcs s c) = Some p \<longrightarrow> r_held (rcv s) \<noteq> Some p) \<and>
    (excl \<longrightarrow> (\<forall>c m. wait_of (pcs s c) = Some m \<longrightarrow> (\<exists>d. dcm_read m (mem s) = Some d \<and>
        dcm_mutex d = (wait_held_of (pcs s c) = Some m \<or> r_wait_held (rcv s) = Some m))) \<and>
      (\<forall>c c' m. wait_of (pcs s c) = Some m \<longrightarrow> wait_of (pcs s c') = Some m \<longrightarrow> c = c') \<and>
      (\<forall>c m. wait_held_of (pcs s c) = Some m \<longrightarrow> r_wait_held (rcv s) \<noteq> Some m) \<and>
      (rcv s = R_Idle \<longrightarrow> (\<forall>c. \<not> active (pcs s c)) \<longrightarrow> at_rest s))"
proof -
  from reachable_consistent [OF assms(2,1)] obtain A where A: "consistent excl s A" by blast
  have rest: "at_rest s" if excl "rcv s = R_Idle" "\<forall>c. \<not> active (pcs s c)"
    using rest_again [of s A] A that by simp
  from A have s: "sim (mem s) A" and o: "calls_owned s A" and w: "excl \<Longrightarrow> waits_owned s A"
    by (simp_all add: consistent_def)
  have "\<exists>d. rd_read p (mem s) = Some d \<and> rd_mutex d = (held_of (pcs s c) = Some p \<or> r_held (rcv s) = Some p)"
    if "entry_of (pcs s c) = Some p" for c p
    using owned_entry [OF o, of c p] that rd_read_sim [OF s] by fastforce
  moreover have "\<exists>d. dcm_read m (mem s) = Some d \<and>
      dcm_mutex d = (wait_held_of (pcs s c) = Some m \<or> r_wait_held (rcv s) = Some m)"
    if excl "wait_of (pcs s c) = Some m" for c m
    using owned_entry [OF w [OF that(1)], of c m] that(2) dcm_read_sim [OF s] by fastforce
  moreover note ownedD(2,4) [OF o] ownedD(2,4) [OF w] rest
  ultimately show ?thesis by (simp only: comp_apply) blast
qed

lemma callers_safe_witness:
  "\<exists>s d. steps sample_stack sample_handlers True sample_system s \<and> pcs s 0 = Call_Blocked 1 \<and>
     rd_read 1 (mem s) = Some d \<and> \<not> rd_mutex d"
proof -
  have "case run sample_stack sample_handlers (take 6 late_error) sample_system of
      None \<Rightarrow> False | Some s \<Rightarrow> pcs s 0 = Call_Blocked 1 \<and> rcv s = R_Idle" by code_simp
  then obtain s where r: "run sample_stack sample_handlers (take 6 late_error) sample_system = Some s"
    and s: "pcs s 0 = Call_Blocked 1" "rcv s = R_Idle" by (auto split: option.splits)
  have "only 0 sample_system" by (simp add: only_def sample_system_def)
  with run_only [OF r, of 0 True] have st: "steps sample_stack sample_handlers True sample_system s"
    by (simp add: late_error_def list_all_iff)
  from callers_safe [OF sample_at_rest st] s have "\<exists>d. rd_read 1 (mem s) = Some d \<and> \<not> rd_mutex d"
    by (elim conjE allE [of _ 0] allE [of _ 1]) auto
  with st s show ?thesis by blast
qed





text \<open>
  C12. Messages get through. When a call waits for its reply, its entry is the first one with the invoke
  ID \<open>i\<close> and the receive thread is idle, a message with this ID from the address the entry is for
  can be handled and ends the call, without any other caller moving: an acknowledged read ends the read with the
  value in it, a simple acknowledgement ends the write with success, an error, abort or reject
  ends it with a failure.
\<close>

theorem answered_calls_return:
  assumes "at_rest s0" and "steps ops t excl s0 s" and "pcs s c = Call_Blocked p" and "rcv s = R_Idle"
    and "rd_get_world i (mem s) = Some (p, mem s)" and "rd_read p (mem s) = Some d"
    and "address_match ops (rd_targetAddress d) src"
  shows "(rq_kind (reqs s c) = Read \<and> rd_value d = NULL \<and> confirmed_ack_handler t sv = Some Handler_ReadAck \<and>
      decode_ack ops req = Some v \<longrightarrow>
      (\<exists>s' q. steps ops t excl s s' \<and> pcs s' = (pcs s)(c := Out (Value q)) \<and> value_cell_is (mem s') q v \<and>
        rd_read p (mem s') = None)) \<and>
    (rq_kind (reqs s c) = Write \<and> \<not> rd_errorDetected d \<and>
      confirmed_simple_ack_handler t sv = Some Handler_WriteAck \<longrightarrow>
      (\<exists>s'. steps ops t excl s s' \<and> pcs s' = (pcs s)(c := Out (Code 0)) \<and> rd_read p (mem s') = None)) \<and>
    (rq_kind (reqs s c) = Write \<and> failure_of t e = Some (src, i) \<longrightarrow>
      (\<exists>s'. steps ops t excl s s' \<and> pcs s' = (pcs s)(c := Out (Code 1))))"
proof (intro conjI impI; (elim conjE)?)
  from reachable_consistent [OF assms(2,1)] obtain A where A: "consistent excl s A" by blast
  note up = reaches_looked_up [OF A assms(4,3,5,6)] and entry = waiting_entry [OF A assms(3,4,6)]
  show "\<exists>s' q. steps ops t excl s s' \<and> pcs s' = (pcs s)(c := Out (Value q)) \<and> value_cell_is (mem s') q v \<and>
      rd_read p (mem s') = None"
    if k: "rq_kind (reqs s c) = Read" "rd_value d = NULL" "confirmed_ack_handler t sv = Some Handler_ReadAck"
      "decode_ack ops req = Some v"
  proof -
    have "reaches ops t excl c s (Call_Blocked p) (mem s) (R_Ack req src p)"
      by (rule up [of "Confirmed_Ack sv req src i"]) (simp_all add: k(3))
    from read_is_answered [OF this entry k(2) assms(7) k(4,1)] reaches_steps show ?thesis by metis
  qed
  show "\<exists>s'. steps ops t excl s s' \<and> pcs s' = (pcs s)(c := Out (Code 0)) \<and> rd_read p (mem s') = None"
    if k: "rq_kind (reqs s c) = Write" "\<not> rd_errorDetected d"
      "confirmed_simple_ack_handler t sv = Some Handler_WriteAck"
  proof -
    have "reaches ops t excl c s (Call_Blocked p) (mem s) (R_Signal p)"
      by (rule up [of "Simple_Ack sv src i"]) (simp_all add: k(3))
    from write_is_confirmed [OF this entry k(2,1)] reaches_steps show ?thesis by metis
  qed
  show "\<exists>s'. steps ops t excl s s' \<and> pcs s' = (pcs s)(c := Out (Code 1))"
    if k: "rq_kind (reqs s c) = Write" "failure_of t e = Some (src, i)"
  proof -
    have "reaches ops t excl c s (Call_Blocked p) (mem s) (R_Failure src p)"
      by (rule up [of e]) (simp_all add: start_failure [OF k(2)])
    from write_is_refused [OF this entry assms(7) k(1)] reaches_steps show ?thesis by metis
  qed
qed

lemma answered_calls_return_witness:
  "\<exists>s s' q. steps sample_stack sample_handlers True sample_system s \<and> pcs s 0 = Call_Blocked 1 \<and>
     steps sample_stack sample_handlers True s s' \<and> pcs s' = (pcs s)(0 := Out (Value q)) \<and>
     value_cell_is (mem s') q (TAG_UNSIGNED_INT 42)"
proof -
  have "case run sample_stack sample_handlers (take 6 late_error) sample_system of
      None \<Rightarrow> False
    | Some s \<Rightarrow> pcs s 0 = Call_Blocked 1 \<and> rcv s = R_Idle \<and> map_option fst (rd_get_world 1 (mem s)) = Some 1 \<and>
        rq_kind (reqs s 0) = Read \<and>
        map_option (\<lambda>d. (rd_value d, rd_targetAddress d)) (rd_read 1 (mem s)) = Some (NULL, sample_address)" by code_simp
  then obtain s w d where r: "run sample_stack sample_handlers (take 6 late_error) sample_system = Some s"
    and s: "pcs s 0 = Call_Blocked 1" "rcv s = R_Idle" "rd_get_world 1 (mem s) = Some (1, w)" "rq_kind (reqs s 0) = Read"
      "rd_read 1 (mem s) = Some d" "rd_value d = NULL" "rd_targetAddress d = sample_address"
    by (auto split: option.splits)
  have "only 0 sample_system" by (simp add: only_def sample_system_def)
  with run_only [OF r, of 0 True] have st: "steps sample_stack sample_handlers True sample_system s"
    by (simp add: late_error_def list_all_iff)
  obtain A where "sim (mem s) A" using reachable_consistent [OF st sample_at_rest] by (auto simp: consistent_def)
  with s(3) have g: "rd_get_world 1 (mem s) = Some (1, mem s)" by (simp add: rd_get_sim)
  have "decode_ack sample_stack [42] = Some (TAG_UNSIGNED_INT 42)" by code_simp
  with answered_calls_return [OF sample_at_rest st s(1,2) g s(5), of sample_address SERVICE_CONFIRMED_READ_PROPERTY
      "[42]" "TAG_UNSIGNED_INT 42" "Reject_PDU sample_address 0 0"] s(4,6,7) st s(1)
  show ?thesis by auto
qed

text \<open>
  C26. The handlers keep the address of an entry after they have given back the mutex of the list.
  A call may time out and free its entry in between: with a single caller, an error that comes in
  as the call times out leaves the receive thread about to lock the mutex of a freed entry.
\<close>

theorem handler_uses_freed_entry:
  "\<exists>s p. steps sample_stack sample_handlers True sample_system s \<and> rcv s = R_Signal p \<and>
     rd_read p (mem s) = None \<and> proceed sample_stack (rcv s) (mem s) = None"
proof -
  from late_error_run obtain s where r: "run sample_stack sample_handlers late_error sample_system = Some s"
    and s: "rcv s = R_Signal 1" "rd_read 1 (mem s) = None" by (auto split: option.splits)
  have "only 0 sample_system" by (simp add: only_def sample_system_def)
  with run_only [OF r, of 0 True] have "steps sample_stack sample_handlers True sample_system s"
    by (simp add: late_error_def list_all_iff)
  moreover have "proceed sample_stack (rcv s) (mem s) = None" using s by (simp add: rd_lock_def)
  ultimately show ?thesis using s by blast
qed

text \<open>
  C37. Two threads that wait for the same device: the first to stop waiting removes an entry by the
  number of the device, which is the other thread's, and that thread is left waiting on a freed
  condition variable and mutex.
\<close>

theorem same_device_waits_on_freed_entry:
  "\<exists>s p m. steps sample_stack sample_handlers False sample_system s \<and> pcs s 1 = Wait_Blocked p m \<and>
     dcm_read m (mem s) = None \<and> advance sample_stack (reqs s 1) (pcs s 1) (mem s) = None"
proof -
  from same_device_run obtain s where r: "run sample_stack sample_handlers same_device sample_system = Some s"
    and s: "pcs s 1 = Wait_Blocked 2 2" "dcm_read 2 (mem s) = None" by (auto split: option.splits)
  from run_steps [OF r] have "steps sample_stack sample_handlers False sample_system s" .
  moreover have "advance sample_stack (reqs s 1) (pcs s 1) (mem s) = None" using s by (simp add: dcm_lock_def)
  ultimately show ?thesis using s by blast
qed

end
