(* ===== verification/Spec2Isabelle.thy ===== *)
theory Spec2Isabelle
  imports ListProperties Receive Replies Commands Attributes Discovered IpLookup Lifecycle ThreadProperties
begin

text \<open>
  A model of device-bacnet-c, the EdgeX device service for BACnet (all of \<open>src/src/c\<close>), and the
  properties that make it correct.

  \<^bold>\<open>The program.\<close> EdgeX calls the callbacks of main.c: get and put commands, discovery, the parsing
  of addresses and attributes, start and stop. They call driver.c, whose calls
  \<open>bacnetReadProperty\<close>, \<open>bacnetWriteProperty\<close> and \<open>bacnetWhoIs\<close> hand a request to the BACnet stack and
  wait on a condition variable. One receive thread runs the handlers of driver.c for the messages
  that come in; they find the call a message belongs to in a list of pending calls and wake it up.
  Three lists are shared between the threads: pending calls (return_data.c), bindings
  that are waited for (device_condition_map.c) and discovered devices (address_entry.c); a fourth
  (address_instance_map.c) belongs to the lookup by IP address. Each has a mutex.

  \<^bold>\<open>Values and errors.\<close> A result \<open>None\<close> is undefined behaviour of the C program, a deadlock of a thread
  with itself or a loop that does not return; every error the code reports is an ordinary result. So a theorem
  \<open>f x = Some y\<close> says that the code is free of memory errors and returns. Machine integers are
  words of their width. Memory is one heap per C type (\<open>CPrelude\<close>), so use after free, double
  free and leaks are visible.

  \<^bold>\<open>The theories.\<close>
  \<^item> \<open>CPrelude\<close>: heaps, malloc and free. \<open>CStrings\<close>: the functions of the C library on strings and
    numbers. \<open>BacnetTypes\<close>: addresses, application values, EdgeX values.
  \<^item> \<open>LinkedList\<close>: the doubly linked list with its mutex that four files repeat, \<open>rep l r\<close> for its
    contents, and what each idiom does to them. \<open>ListInterfaces\<close>: the contracts of the list modules
    as locales.
  \<^item> \<open>AddressEntry\<close>, \<open>AddressInstanceMap\<close>, \<open>DeviceConditionMap\<close>, \<open>ReturnData\<close>: the four list
    modules, each with an interpretation of its interface. \<open>ListProperties\<close>: their properties.
  \<^item> \<open>World\<close>: the globals of driver.c, the BACnet stack as a record of functions, and the
    abstract state (\<open>view\<close>) with the simulation relation \<open>sim\<close>. \<open>Handlers\<close>: the message handlers,
    their registration and the receive loop, and their effect on the abstract state. \<open>Receive\<close>: their
    properties.
  \<^item> \<open>Requests\<close>: binding, waiting, reading, writing and Who-Is. \<open>Replies\<close>: what these calls return, as functions of the
    messages that arrive. \<open>Alone\<close>: what a call does to the whole state when no other call is pending,
    whether the stack knows the device or has to find it first. \<open>Samples\<close>: concrete stacks for the witnesses.
  \<^item> \<open>Threads\<close>: the same functions cut into steps, for any number of calling threads and the receive
    thread, as a step relation. \<open>Uninterrupted\<close>: the functions of \<open>Requests\<close> and \<open>Handlers\<close> are runs of
    it. \<open>Ownership\<close>, \<open>Interleaving\<close>: who may use an entry of a shared list, and the invariant of all
    reachable states. \<open>Progress\<close>: a call can always finish. \<open>Origins\<close>: which messages the value and the
    error of a call come from. \<open>Answers\<close>: a message for a call that waits gets through.
    \<open>ThreadProperties\<close>: the properties, and two races as concrete runs.
  \<^item> \<open>Chains\<close>, \<open>AccessData\<close>: the singly linked lists of requests and results, as a locale with two
    interpretations. \<open>Commands\<close>: the get and put handlers.
  \<^item> \<open>Attributes\<close>: attributes of resources and addresses of devices. \<open>Discovery\<close>, \<open>Discovered\<close>:
    the discovery callback and what it adds to EdgeX, for any messages during it. \<open>TableNodes\<close>: the nodes
    of the table of devices, on and off its list. \<open>IpLookup\<close>: \<open>ip_to_instance\<close>.
  \<^item> \<open>Working\<close>: the calls and the commands in any well-formed state and for any messages: they come to
    an end and leave a well-formed state, in which every node is on its list.
  \<^item> \<open>Service\<close>, \<open>Lifecycle\<close>: start, stop and \<open>main\<close>, and the whole life of a service.

  \<^bold>\<open>What the lemmas show.\<close> The list modules implement finite sequences with the contracts of
  \<open>ListInterfaces\<close> and neither block nor leak. The handlers refine functions on the contents of the lists, and
  so do the requests; a read returns the first acceptable acknowledgement of the device it
  asked and no message is taken for another call's. Commands and discovery compute functions of
  the messages that arrive during their calls, and free what they allocate, except where a
  property says that they do not. However the threads are interleaved, a caller's entry stays its
  own and no call gets stuck, provided that no two threads call the same device; without that, or
  for the receive thread, there are runs that reach freed memory.

  \<^bold>\<open>Waiting.\<close> The messages that are handled while a call waits are a parameter of the call
  (\<open>call_env\<close>), so a theorem holds for all of them; a timeout and a spurious wake-up are the same
  with no message. Loops over lists are \<open>partial_function (option)\<close> and proved to return on
  well-formed lists. No fuel is used.

  \<^bold>\<open>Not modelled.\<close> The BACnet stack and the EdgeX SDK, which are not in the repository: the stack is
  the record \<open>bacnet_stack\<close>, and the theorems hold for every stack, with hypotheses where the code
  relies on it (a data link that comes up, sources of messages that are well-formed addresses). Logging, except for
  the members it reads. In
  the sequential model a call starts in a state with any pending calls of other threads, and during
  its waits only the receive thread runs, a whole handler at a time; the finer interleaving is the
  subject of \<open>Threads\<close>, whose steps are the stretches between two accesses to a list, an entry or
  a mutex. What discovery does around its Who-Is and its reads, and the loops of the get and put
  commands around theirs, touch no shared list but the table of discovered devices and run in the
  sequential model only. \<open>malloc\<close> is taken to succeed.
\<close>

end
